(* ===== verification/Prelude.thy ===== *)
theory Prelude
  imports Complex_Main "HOL-Library.Word" "HOL-Library.AList" "HOL-Library.Sublist"
    "HOL-Library.List_Lexorder" "HOL-Library.Char_ord"
begin

text \<open>
  Shared vocabulary of the development: machine integers at their width, Rust's saturating
  operations, association lists standing for hash maps, and the theorem collections the
  component theories add to.
\<close>

section \<open>Theorem collections\<close>

named_theorems text_simps \<open>equations about the text functions of the standard library\<close>
named_theorems map_simps \<open>lookup after update, delete and filter on association lists\<close>
named_theorems sink_simps \<open>what a sample sink holds after a write\<close>
named_theorems float_simps \<open>facts that compute with binary64 values\<close>

section \<open>Machine integers\<close>

type_synonym u8 = "8 word"
type_synonym u16 = "16 word"
type_synonym u32 = "32 word"
type_synonym u64 = "64 word"
type_synonym i64 = "64 word" \<comment> \<open>read with \<^term>\<open>sint\<close>\<close>
type_synonym i32 = "32 word" \<comment> \<open>read with \<^term>\<open>sint\<close>\<close>

text \<open>\<open>saturating_mul\<close>, \<open>saturating_add\<close>, \<open>saturating_sub\<close> of the unsigned types.\<close>

definition sat_mul :: "'a::len word \<Rightarrow> 'a word \<Rightarrow> 'a word" where
  "sat_mul a b = (if unat a * unat b < 2 ^ LENGTH('a) then a * b else - 1)"

definition sat_add :: "'a::len word \<Rightarrow> 'a word \<Rightarrow> 'a word" where
  "sat_add a b = (if unat a + unat b < 2 ^ LENGTH('a) then a + b else - 1)"

definition sat_sub :: "'a::len word \<Rightarrow> 'a word \<Rightarrow> 'a word" where
  "sat_sub a b = (if b \<le> a then a - b else 0)"

lemma unat_sat_mul:
  "unat (sat_mul a b) = min (unat a * unat b) (2 ^ LENGTH('a) - 1)" for a b :: "'a::len word"
proof (cases "unat a * unat b < 2 ^ LENGTH('a)")
  case True
  then show ?thesis by (simp add: sat_mul_def unat_word_ariths)
next
  case False
  then show ?thesis by (simp add: sat_mul_def unsigned_minus_1_eq_mask mask_eq_exp_minus_1)
qed

lemma unat_sat_add:
  "unat (sat_add a b) = min (unat a + unat b) (2 ^ LENGTH('a) - 1)" for a b :: "'a::len word"
proof (cases "unat a + unat b < 2 ^ LENGTH('a)")
  case True
  then show ?thesis by (simp add: sat_add_def unat_word_ariths)
next
  case False
  then show ?thesis by (simp add: sat_add_def unsigned_minus_1_eq_mask mask_eq_exp_minus_1)
qed

lemma unat_sat_sub: "unat (sat_sub a b) = unat a - unat b"
  by (auto simp: sat_sub_def unat_sub word_le_nat_alt)

lemma sat_sub_le: "sat_sub a b \<le> a"
  by (simp add: word_le_nat_alt unat_sat_sub)

text \<open>\<open>saturating_sub\<close> of \<open>i64\<close>, on the two's complement reading.\<close>

definition i64_sat_sub :: "i64 \<Rightarrow> i64 \<Rightarrow> i64" where
  "i64_sat_sub a b =
     (let d = sint a - sint b
      in if d < - (2 ^ 63) then word_of_int (- (2 ^ 63))
         else if 2 ^ 63 \<le> d then word_of_int (2 ^ 63 - 1) else word_of_int d)"

lemma sint_word_of_int_64:
  "- (2 ^ 63) \<le> d \<Longrightarrow> d < 2 ^ 63 \<Longrightarrow> sint (word_of_int d :: 64 word) = d"
  by (simp add: sint_sbintrunc' signed_take_bit_int_eq_self)

lemma sint_i64_sat_sub:
  "sint (i64_sat_sub a b) = max (- (2 ^ 63)) (min (2 ^ 63 - 1) (sint a - sint b))"
  using sint_word_of_int_64 [of "sint a - sint b"]
  by (auto simp: i64_sat_sub_def Let_def sint_word_of_int_64 simp del: of_int_diff)

section \<open>Hash maps\<close>

text \<open>
  A \<open>HashMap\<close> is an association list without repeated keys. Its order stands for the
  iteration order, which the standard library leaves open: insertion of a new key appends, and
  no theorem about the program may depend on that choice.
\<close>

type_synonym ('k, 'v) hmap = "('k \<times> 'v) list"

abbreviation hm_get :: "('k, 'v) hmap \<Rightarrow> 'k \<Rightarrow> 'v option" where
  "hm_get \<equiv> map_of"

abbreviation hm_insert :: "'k \<Rightarrow> 'v \<Rightarrow> ('k, 'v) hmap \<Rightarrow> ('k, 'v) hmap" where
  "hm_insert \<equiv> AList.update"

abbreviation hm_remove :: "'k \<Rightarrow> ('k, 'v) hmap \<Rightarrow> ('k, 'v) hmap" where
  "hm_remove \<equiv> AList.delete"

definition hm_retain :: "('k \<Rightarrow> bool) \<Rightarrow> ('k, 'v) hmap \<Rightarrow> ('k, 'v) hmap" where
  "hm_retain P m = filter (\<lambda>(k, v). P k) m"

abbreviation hm_keys :: "('k, 'v) hmap \<Rightarrow> 'k set" where
  "hm_keys m \<equiv> fst ` set m"

abbreviation hm_wf :: "('k, 'v) hmap \<Rightarrow> bool" where
  "hm_wf m \<equiv> distinct (map fst m)"

text \<open>\<open>collect\<close> into a map: later entries replace earlier ones.\<close>

definition hm_collect :: "('k \<times> 'v) list \<Rightarrow> ('k, 'v) hmap" where
  "hm_collect xs = fold (\<lambda>(k, v) m. hm_insert k v m) xs []"

lemma hm_get_insert [map_simps]: "hm_get (hm_insert k v m) = (hm_get m)(k \<mapsto> v)"
  by (rule update_conv')

lemma hm_get_remove [map_simps]: "hm_get (hm_remove k m) = (hm_get m)(k := None)"
  by (rule delete_conv')

lemma hm_get_retain [map_simps]: "hm_get (hm_retain P m) k = (if P k then hm_get m k else None)"
  by (induction m) (auto simp: hm_retain_def)

lemma hm_keys_dom: "hm_keys m = dom (hm_get m)"
  by (rule dom_map_of_conv_image_fst [symmetric])

lemma hm_keys_insert [map_simps]: "hm_keys (hm_insert k v m) = insert k (hm_keys m)"
  by (simp only: hm_keys_dom hm_get_insert) simp

lemma hm_keys_remove [map_simps]: "hm_keys (hm_remove k m) = hm_keys m - {k}"
  by (simp only: hm_keys_dom hm_get_remove) auto

lemma hm_keys_retain [map_simps]: "hm_keys (hm_retain P m) = {k \<in> hm_keys m. P k}"
  by (auto simp: hm_retain_def image_iff)

lemma hm_wf_insert [intro]: "hm_wf m \<Longrightarrow> hm_wf (hm_insert k v m)"
  by (rule distinct_update)

lemma hm_wf_remove [intro]: "hm_wf m \<Longrightarrow> hm_wf (hm_remove k m)"
  by (rule distinct_delete)

lemma hm_wf_retain [intro]: "hm_wf m \<Longrightarrow> hm_wf (hm_retain P m)"
  by (simp add: hm_retain_def distinct_map_filter)

lemma hm_get_fold_insert:
  "hm_get (fold (\<lambda>(k, v) m. hm_insert k v m) xs m) = hm_get m ++ hm_get (rev xs)"
  by (induction xs arbitrary: m) (auto simp: map_simps map_add_def fun_eq_iff split: option.splits)

lemma hm_get_collect [map_simps]: "hm_get (hm_collect xs) = hm_get (rev xs)"
  by (simp add: hm_collect_def hm_get_fold_insert)

lemma hm_wf_fold_insert: "hm_wf m \<Longrightarrow> hm_wf (fold (\<lambda>(k, v) m. hm_insert k v m) xs m)"
  by (induction xs arbitrary: m) auto

lemma hm_wf_collect: "hm_wf (hm_collect xs)"
  by (simp add: hm_collect_def hm_wf_fold_insert)

lemma hm_length_keys: "hm_wf m \<Longrightarrow> length m = card (hm_keys m)"
  by (metis distinct_card length_map set_map)

section \<open>Ordered maps\<close>

text \<open>A \<open>BTreeMap\<close> is an association list kept in increasing order of its keys.\<close>

type_synonym ('k, 'v) btmap = "('k \<times> 'v) list"

fun bt_insert :: "'k::linorder \<Rightarrow> 'v \<Rightarrow> ('k, 'v) btmap \<Rightarrow> ('k, 'v) btmap" where
  "bt_insert k v [] = [(k, v)]"
| "bt_insert k v ((a, b) # m) =
     (if k < a then (k, v) # (a, b) # m
      else if k = a then (k, v) # m
      else (a, b) # bt_insert k v m)"

definition bt_extend :: "('k::linorder, 'v) btmap \<Rightarrow> ('k, 'v) btmap \<Rightarrow> ('k, 'v) btmap" where
  "bt_extend m n = fold (\<lambda>(k, v) m. bt_insert k v m) n m"

lemma bt_get_insert [map_simps]: "map_of (bt_insert k v m) = (map_of m)(k \<mapsto> v)"
  by (induction m) (auto simp: fun_eq_iff)

lemma bt_keys_insert [map_simps]: "hm_keys (bt_insert k v m) = insert k (hm_keys m)"
  by (simp only: hm_keys_dom bt_get_insert) simp

lemma bt_insert_sorted:
  "sorted_wrt (<) (map fst m) \<Longrightarrow> sorted_wrt (<) (map fst (bt_insert k v m))"
proof (induction m)
  case (Cons x m)
  obtain a b where x: "x = (a, b)" by fastforce
  show ?case
    using Cons bt_keys_insert [of k v m] by (auto simp: x)
qed simp

lemma bt_get_extend [map_simps]: "map_of (bt_extend m n) = map_of m ++ map_of (rev n)"
  unfolding bt_extend_def
  by (induction n arbitrary: m) (auto simp: map_simps map_add_def fun_eq_iff split: option.splits)

section \<open>Keeping the first of each key\<close>

text \<open>
  The loop several components run over a list: skip what is not wanted or has a key already seen,
  keep the rest in order.
\<close>

locale first_seen =
  fixes key :: "'a \<Rightarrow> 'k" and wanted :: "'a \<Rightarrow> bool" and dedup :: "'k set \<Rightarrow> 'a list \<Rightarrow> 'a list"
  assumes dedup_Nil: "dedup seen [] = []"
    and dedup_Cons: "dedup seen (x # xs) =
      (if key x \<in> seen \<or> \<not> wanted x then dedup seen xs
       else x # dedup (insert (key x) seen) xs)"
begin

lemma fresh: "x \<in> set (dedup seen xs) \<Longrightarrow> key x \<notin> seen"
  by (induction xs arbitrary: seen) (auto simp: dedup_Nil dedup_Cons split: if_splits)

lemma distinct_keys: "distinct (map key (dedup seen xs))"
  by (induction xs arbitrary: seen) (auto simp: dedup_Nil dedup_Cons dest: fresh)

lemma keys: "key ` set (dedup seen xs) = {key x | x. x \<in> set xs \<and> wanted x} - seen"
  by (induction xs arbitrary: seen) (auto simp: dedup_Nil dedup_Cons)

lemma members: "set (dedup seen xs) \<subseteq> {x \<in> set xs. wanted x}"
  by (induction xs arbitrary: seen) (auto simp: dedup_Nil dedup_Cons)

lemma in_order: "subseq (dedup seen xs) xs"
  by (induction xs arbitrary: seen) (auto simp: dedup_Nil dedup_Cons intro: subseq_Cons')

lemma covered:
  "x \<in> set xs \<Longrightarrow> wanted x \<Longrightarrow> key x \<notin> seen \<Longrightarrow> \<exists>y \<in> set (dedup seen xs). key y = key x"
proof -
  assume "x \<in> set xs" "wanted x" "key x \<notin> seen"
  then have "key x \<in> key ` set (dedup seen xs)" unfolding keys by blast
  then show ?thesis by auto
qed

lemma none_new: "(\<And>x. x \<in> set xs \<Longrightarrow> key x \<in> seen) \<Longrightarrow> dedup seen xs = []"
  by (induction xs) (simp_all add: dedup_Nil dedup_Cons)

lemma repeat: "dedup seen (dedup seen xs) = dedup seen xs"
proof -
  have "dedup seen ys = ys" if "distinct (map key ys)" "\<forall>y \<in> set ys. key y \<notin> seen \<and> wanted y" for seen ys
    using that
  proof (induction ys arbitrary: seen)
    case (Cons y ys)
    then have "\<forall>z \<in> set ys. key z \<notin> insert (key y) seen \<and> wanted z" by (auto simp: image_iff)
    with Cons show ?case by (simp add: dedup_Cons)
  qed (simp add: dedup_Nil)
  from this [OF distinct_keys] members [of seen xs] fresh [of _ seen xs] show ?thesis by blast
qed

end

end
