(* ===== verification/Rust_Text.thy ===== *)
theory Rust_Text
  imports Prelude
begin

text \<open>
  The part of Rust's string library the source uses. A \<open>String\<close> is its UTF-8 byte sequence, so
  a HOL character is one byte; whitespace is Unicode's \<open>White_Space\<close>, found at the byte
  sequences that encode it. Integer parsing follows \<open>FromStr\<close>: an optional sign, at least one
  digit, no overflow.
\<close>

section \<open>Whitespace\<close>

abbreviation byte :: "char \<Rightarrow> nat" where
  "byte c \<equiv> of_char c"

abbreviation nl :: char where
  "nl \<equiv> CHR 10"

abbreviation cr :: char where
  "cr \<equiv> CHR 13"

text \<open>The number of bytes of the whitespace character a text starts with; 0 if it does not.\<close>

fun ws_len :: "string \<Rightarrow> nat" where
  "ws_len [] = 0"
| "ws_len (c # cs) =
     (let b = byte c in
      if 9 \<le> b \<and> b \<le> 13 \<or> b = 32 then 1
      else if b < 128 then 0
      else if b = 194 then
        (case cs of d # _ \<Rightarrow> if byte d = 133 \<or> byte d = 160 then 2 else 0 | [] \<Rightarrow> 0)
      else if b = 225 then
        (case cs of d # e # _ \<Rightarrow> if byte d = 154 \<and> byte e = 128 then 3 else 0 | _ \<Rightarrow> 0)
      else if b = 226 then
        (case cs of d # e # _ \<Rightarrow>
           if byte d = 128 \<and> (128 \<le> byte e \<and> byte e \<le> 138 \<or> byte e \<in> {168, 169, 175})
              \<or> byte d = 129 \<and> byte e = 159
           then 3 else 0
         | _ \<Rightarrow> 0)
      else if b = 227 then
        (case cs of d # e # _ \<Rightarrow> if byte d = 128 \<and> byte e = 128 then 3 else 0 | _ \<Rightarrow> 0)
      else 0)"

declare ws_len.simps(2) [simp del]

definition is_ascii_ws :: "char \<Rightarrow> bool" where
  "is_ascii_ws c \<longleftrightarrow> 9 \<le> byte c \<and> byte c \<le> 13 \<or> byte c = 32"

lemma ws_len_ascii: "byte c < 128 \<Longrightarrow> ws_len (c # cs) = (if is_ascii_ws c then 1 else 0)"
  by (auto simp: ws_len.simps is_ascii_ws_def Let_def)

lemma ws_len_ascii_ws: "is_ascii_ws c \<Longrightarrow> ws_len (c # cs) = 1"
  by (auto simp: ws_len.simps is_ascii_ws_def Let_def)

lemma ws_len_le: "ws_len s \<le> length s"
  by (cases s) (auto simp: ws_len.simps Let_def split: list.splits)

text \<open>A byte below 128 never completes a longer whitespace character.\<close>

lemma ws_len_append_ascii:
  assumes "ws_len (c # cs) = 0" and "byte d < 128"
  shows "ws_len (c # cs @ d # ds) = 0"
proof (cases cs)
  case Nil
  with assms show ?thesis by (auto simp: ws_len.simps Let_def split: list.splits)
next
  case (Cons x xs)
  with assms show ?thesis
    by (cases xs) (auto simp: ws_len.simps Let_def split: if_splits)
qed

text \<open>A text with no whitespace character in it.\<close>

fun ws_free :: "string \<Rightarrow> bool" where
  "ws_free [] \<longleftrightarrow> True"
| "ws_free (c # cs) \<longleftrightarrow> ws_len (c # cs) = 0 \<and> ws_free cs"

lemma ws_free_ascii: "\<forall>c\<in>set s. byte c < 128 \<and> \<not> is_ascii_ws c \<Longrightarrow> ws_free s"
  by (induction s) (auto simp: ws_len_ascii)

section \<open>Splitting and trimming\<close>

text \<open>\<open>split_whitespace\<close>: the maximal runs without whitespace, none of them empty.\<close>

fun split_ws_aux :: "string \<Rightarrow> string \<Rightarrow> string list" where
  "split_ws_aux tok [] = (if tok = [] then [] else [tok])"
| "split_ws_aux tok (c # cs) =
     (if ws_len (c # cs) = 0 then split_ws_aux (tok @ [c]) cs
      else (if tok = [] then [] else [tok])
           @ split_ws_aux [] (drop (ws_len (c # cs) - 1) cs))"

definition split_whitespace :: "string \<Rightarrow> string list" where
  "split_whitespace s = split_ws_aux [] s"

text \<open>Whether a text is whitespace only.\<close>

function all_ws :: "string \<Rightarrow> bool" where
  "all_ws s = (if s = [] then True else if ws_len s = 0 then False
               else all_ws (drop (ws_len s) s))"
  by pat_completeness auto
termination
  by (relation "measure length") auto

declare all_ws.simps [simp del]

function trim_start :: "string \<Rightarrow> string" where
  "trim_start s = (if s \<noteq> [] \<and> ws_len s \<noteq> 0 then trim_start (drop (ws_len s) s) else s)"
  by pat_completeness auto
termination
  by (relation "measure length") auto

declare trim_start.simps [simp del]

fun trim_end :: "string \<Rightarrow> string" where
  "trim_end [] = []"
| "trim_end (c # cs) = (if all_ws (c # cs) then [] else c # trim_end cs)"

definition trim :: "string \<Rightarrow> string" where
  "trim s = trim_end (trim_start s)"

text \<open>\<open>lines\<close>: split at line feeds, a carriage return before one belonging to it.\<close>

definition strip_cr :: "string \<Rightarrow> string" where
  "strip_cr l = (if l \<noteq> [] \<and> last l = cr then butlast l else l)"

function lines :: "string \<Rightarrow> string list" where
  "lines s =
     (if s = [] then []
      else (case dropWhile (\<lambda>c. c \<noteq> nl) s of
              [] \<Rightarrow> [s]
            | _ # rest \<Rightarrow> strip_cr (takeWhile (\<lambda>c. c \<noteq> nl) s) # lines rest))"
  by pat_completeness auto
termination
proof (relation "measure length")
  fix s rest :: string and c
  assume "dropWhile (\<lambda>c. c \<noteq> nl) s = c # rest"
  then have "Suc (length rest) \<le> length s"
    by (metis length_Cons length_dropWhile_le)
  then show "(rest, s) \<in> measure length" by simp
qed simp

declare lines.simps [simp del]

fun split_once :: "char \<Rightarrow> string \<Rightarrow> (string \<times> string) option" where
  "split_once d [] = None"
| "split_once d (c # cs) =
     (if c = d then Some ([], cs) else map_option (\<lambda>(a, b). (c # a, b)) (split_once d cs))"

text \<open>\<open>split_once(char::is_whitespace)\<close>.\<close>

fun split_once_ws :: "string \<Rightarrow> (string \<times> string) option" where
  "split_once_ws [] = None"
| "split_once_ws (c # cs) =
     (if ws_len (c # cs) \<noteq> 0 then Some ([], drop (ws_len (c # cs) - 1) cs)
      else map_option (\<lambda>(a, b). (c # a, b)) (split_once_ws cs))"

text \<open>\<open>split(c)\<close>: one more piece than there are separators, so never empty.\<close>

fun split_char :: "char \<Rightarrow> string \<Rightarrow> string list" where
  "split_char d [] = [[]]"
| "split_char d (c # cs) =
     (if c = d then [] # split_char d cs
      else (case split_char d cs of [] \<Rightarrow> [[c]] | p # ps \<Rightarrow> (c # p) # ps))"

definition strip_prefix :: "string \<Rightarrow> string \<Rightarrow> string option" where
  "strip_prefix p s = (if prefix p s then Some (drop (length p) s) else None)"

definition strip_suffix :: "string \<Rightarrow> string \<Rightarrow> string option" where
  "strip_suffix p s = (if suffix p s then Some (take (length s - length p) s) else None)"

text \<open>\<open>find\<close> of a pattern: the byte offset of its first occurrence.\<close>

fun find_str :: "string \<Rightarrow> string \<Rightarrow> nat option" where
  "find_str pat [] = (if pat = [] then Some 0 else None)"
| "find_str pat (c # cs) =
     (if prefix pat (c # cs) then Some 0 else map_option Suc (find_str pat cs))"

definition contains :: "string \<Rightarrow> string \<Rightarrow> bool" where
  "contains pat s \<longleftrightarrow> find_str pat s \<noteq> None"

fun join :: "string \<Rightarrow> string list \<Rightarrow> string" where
  "join sep [] = []"
| "join sep [x] = x"
| "join sep (x # y # ys) = x @ sep @ join sep (y # ys)"

text \<open>\<open>chars\<close>: a character is a leading byte with its continuation bytes.\<close>

definition is_cont :: "char \<Rightarrow> bool" where
  "is_cont c \<longleftrightarrow> 128 \<le> byte c \<and> byte c < 192"

function chars :: "string \<Rightarrow> string list" where
  "chars [] = []"
| "chars (c # cs) = (c # takeWhile is_cont cs) # chars (dropWhile is_cont cs)"
  by pat_completeness auto
termination
  by (relation "measure length") (auto simp: le_imp_less_Suc length_dropWhile_le)

section \<open>Reading and showing integers\<close>

definition is_digit :: "char \<Rightarrow> bool" where
  "is_digit c \<longleftrightarrow> 48 \<le> byte c \<and> byte c \<le> 57"

definition digits_val :: "string \<Rightarrow> nat" where
  "digits_val = foldl (\<lambda>n c. 10 * n + (byte c - 48)) 0"

definition parse_nat :: "string \<Rightarrow> nat option" where
  "parse_nat s = (if s \<noteq> [] \<and> list_all is_digit s then Some (digits_val s) else None)"

definition parse_unsigned :: "nat \<Rightarrow> string \<Rightarrow> nat option" where
  "parse_unsigned bound s =
     (case parse_nat (if s \<noteq> [] \<and> hd s = CHR ''+'' then tl s else s) of
        None \<Rightarrow> None
      | Some n \<Rightarrow> if n < bound then Some n else None)"

definition parse_signed :: "int \<Rightarrow> string \<Rightarrow> int option" where
  "parse_signed bound s =
     (let neg = (s \<noteq> [] \<and> hd s = CHR ''-'');
          body = (if neg \<or> (s \<noteq> [] \<and> hd s = CHR ''+'') then tl s else s)
      in case parse_nat body of
           None \<Rightarrow> None
         | Some n \<Rightarrow>
             (let i = (if neg then - int n else int n)
              in if - bound \<le> i \<and> i < bound then Some i else None))"

definition parse_u64 :: "string \<Rightarrow> u64 option" where
  "parse_u64 s = map_option of_nat (parse_unsigned (2 ^ 64) s)"

definition parse_u32 :: "string \<Rightarrow> u32 option" where
  "parse_u32 s = map_option of_nat (parse_unsigned (2 ^ 32) s)"

definition parse_i64 :: "string \<Rightarrow> i64 option" where
  "parse_i64 s = map_option word_of_int (parse_signed (2 ^ 63) s)"

definition parse_i32 :: "string \<Rightarrow> i32 option" where
  "parse_i32 s = map_option word_of_int (parse_signed (2 ^ 31) s)"

fun show_nat :: "nat \<Rightarrow> string" where
  "show_nat n = (if n < 10 then [char_of (48 + n)]
                 else show_nat (n div 10) @ [char_of (48 + n mod 10)])"

declare show_nat.simps [simp del]

definition show_int :: "int \<Rightarrow> string" where
  "show_int i = (if i < 0 then CHR ''-'' # show_nat (nat (- i)) else show_nat (nat i))"

text \<open>\<open>{:016x}\<close> of a 64-bit value.\<close>

definition hex_digit :: "nat \<Rightarrow> char" where
  "hex_digit n = char_of (if n < 10 then 48 + n else 87 + n)"

definition hex16 :: "u64 \<Rightarrow> string" where
  "hex16 w = map (\<lambda>i. hex_digit (unat w div 16 ^ i mod 16)) (rev [0..<16])"

section \<open>Facts about the text functions\<close>

subsection \<open>Splitting\<close>

lemma split_once_append [text_simps]:
  "d \<notin> set a \<Longrightarrow> split_once d (a @ d # b) = Some (a, b)"
  by (induction a) auto

lemma split_once_eq_None [text_simps]: "split_once d s = None \<longleftrightarrow> d \<notin> set s"
  by (induction s) auto

lemma split_once_Some: "split_once d s = Some (a, b) \<longleftrightarrow> s = a @ d # b \<and> d \<notin> set a"
proof
  show "split_once d s = Some (a, b) \<Longrightarrow> s = a @ d # b \<and> d \<notin> set a"
    by (induction s arbitrary: a) (auto split: if_splits)
qed (auto simp: split_once_append)

lemma split_ws_aux_token:
  "ws_free tok' \<Longrightarrow> split_ws_aux tok (tok' @ CHR 32 # s)
     = (if tok @ tok' = [] then [] else [tok @ tok']) @ split_ws_aux [] s"
proof (induction tok' arbitrary: tok)
  case Nil
  have "ws_len (CHR 32 # s) = 1"
    by (rule ws_len_ascii_ws) (simp add: is_ascii_ws_def)
  then show ?case by simp
next
  case (Cons c cs)
  then have "ws_len (c # cs @ CHR 32 # s) = 0"
    using ws_len_append_ascii [of c cs "CHR 32" s] by simp
  then show ?case using Cons.prems by (simp add: Cons.IH)
qed

lemma split_ws_aux_last:
  "ws_free tok' \<Longrightarrow> split_ws_aux tok tok' = (if tok @ tok' = [] then [] else [tok @ tok'])"
  by (induction tok' arbitrary: tok) auto

text \<open>Tokens without whitespace survive being joined with blanks and split again.\<close>

lemma split_whitespace_join [text_simps]:
  assumes "\<forall>t\<in>set ts. t \<noteq> [] \<and> ws_free t"
  shows "split_whitespace (join '' '' ts) = ts"
  unfolding split_whitespace_def
  using assms
  by (induction ts rule: induct_list012) (auto simp: split_ws_aux_token split_ws_aux_last)

lemma split_whitespace_token_blank:
  "ws_free t \<Longrightarrow> t \<noteq> [] \<Longrightarrow> split_whitespace (t @ CHR 32 # s) = t # split_whitespace s"
  by (simp add: split_whitespace_def split_ws_aux_token)

lemma split_whitespace_blank: "split_whitespace (CHR 32 # s) = split_whitespace s"
  using split_ws_aux_token [of "[]" "[]" s] by (simp add: split_whitespace_def)

lemma split_whitespace_token: "ws_free t \<Longrightarrow> t \<noteq> [] \<Longrightarrow> split_whitespace t = [t]"
  by (simp add: split_whitespace_def split_ws_aux_last)

lemma split_whitespace_Nil [simp]: "split_whitespace [] = []"
  by (simp add: split_whitespace_def)

lemma lines_Nil [simp]: "lines [] = []"
  by (simp add: lines.simps)

lemma lines_append [text_simps]:
  assumes "nl \<notin> set l"
  shows "lines (l @ nl # s) = strip_cr l # lines s"
proof -
  have tw: "takeWhile (\<lambda>c. c \<noteq> nl) (l @ nl # s) = l"
    and dw: "dropWhile (\<lambda>c. c \<noteq> nl) (l @ nl # s) = nl # s"
    using assms by (simp_all add: takeWhile_append dropWhile_append)
  have "lines (l @ nl # s)
      = (case dropWhile (\<lambda>c. c \<noteq> nl) (l @ nl # s) of
           [] \<Rightarrow> [l @ nl # s]
         | _ # rest \<Rightarrow> strip_cr (takeWhile (\<lambda>c. c \<noteq> nl) (l @ nl # s)) # lines rest)"
    by (subst lines.simps) (simp only: append_is_Nil_conv list.distinct if_False simp_thms)
  then show ?thesis by (simp only: tw dw list.case)
qed

lemma lines_last: "nl \<notin> set l \<Longrightarrow> l \<noteq> [] \<Longrightarrow> lines l = [l]"
proof -
  assume "nl \<notin> set l" "l \<noteq> []"
  then have "dropWhile (\<lambda>c. c \<noteq> nl) l = []" by (auto simp: dropWhile_eq_Nil_conv)
  with \<open>l \<noteq> []\<close> show ?thesis
    by (subst lines.simps) (simp only: if_False list.case)
qed

text \<open>Printing lines and reading them back.\<close>

definition unlines :: "string list \<Rightarrow> string" where
  "unlines ls = concat (map (\<lambda>l. l @ [nl]) ls)"

lemma lines_unlines:
  assumes "\<forall>l\<in>set ls. nl \<notin> set l"
  shows "lines (unlines ls) = map strip_cr ls"
  using assms by (induction ls) (auto simp: unlines_def text_simps)

lemma strip_cr_id: "cr \<notin> set l \<Longrightarrow> strip_cr l = l"
  by (auto simp: strip_cr_def dest: last_in_set)

lemma split_char_nonempty: "split_char d s \<noteq> []"
  by (induction s) (auto split: list.splits)

lemma split_char_none: "d \<notin> set s \<Longrightarrow> split_char d s = [s]"
  by (induction s) auto

lemma split_char_append: "d \<notin> set a \<Longrightarrow> split_char d (a @ d # b) = a # split_char d b"
  by (induction a) auto

lemma split_char_join [text_simps]:
  assumes "\<forall>p\<in>set ps. d \<notin> set p" and "ps \<noteq> []"
  shows "split_char d (join [d] ps) = ps"
  using assms
  by (induction ps rule: induct_list012) (auto simp: split_char_none split_char_append)

lemma trim_ws_free: "ws_free s \<Longrightarrow> trim s = s"
proof -
  assume "ws_free s"
  then have "trim_end s = s" by (induction s) (auto simp: all_ws.simps)
  moreover have "trim_start s = s"
    using \<open>ws_free s\<close> by (cases s) (auto simp: trim_start.simps)
  ultimately show ?thesis by (simp add: trim_def)
qed

subsection \<open>Searching\<close>

lemma find_str_Some:
  "find_str pat s = Some i \<Longrightarrow> prefix pat (drop i s) \<and> i \<le> length s
     \<and> (\<forall>j<i. \<not> prefix pat (drop j s))"
proof (induction s arbitrary: i)
  case (Cons c cs)
  show ?case
  proof (cases "prefix pat (c # cs)")
    case False
    with Cons.prems obtain j where "find_str pat cs = Some j" "i = Suc j" by auto
    with Cons.IH False show ?thesis by (auto simp: less_Suc_eq_0_disj)
  qed (use Cons.prems in auto)
qed (auto split: if_splits)

lemma find_str_None: "find_str pat s = None \<Longrightarrow> \<not> prefix pat (drop j s)"
proof (induction s arbitrary: j)
  case (Cons c cs)
  then show ?case by (cases j) (auto split: if_splits)
qed (auto split: if_splits)

lemma find_strI:
  assumes "prefix pat (drop i s)" "i \<le> length s" "\<And>j. j < i \<Longrightarrow> \<not> prefix pat (drop j s)"
  shows "find_str pat s = Some i"
proof (cases "find_str pat s")
  case None
  with assms(1) show ?thesis using find_str_None by blast
next
  case (Some k)
  from find_str_Some [OF this] assms show ?thesis
    by (metis Some linorder_neqE_nat)
qed

lemma contains_iff: "contains pat s \<longleftrightarrow> (\<exists>j \<le> length s. prefix pat (drop j s))"
  unfolding contains_def using find_str_None find_str_Some by (metis not_None_eq)

lemma contains_sublist: "contains pat s \<longleftrightarrow> sublist pat s"
proof
  assume "contains pat s"
  then obtain j where "prefix pat (drop j s)" by (auto simp: contains_iff)
  then show "sublist pat s" by (metis append_take_drop_id prefix_def sublist_def)
next
  assume "sublist pat s"
  then obtain a b where "s = a @ pat @ b" by (auto simp: sublist_def)
  then show "contains pat s" unfolding contains_iff by (intro exI [of _ "length a"]) auto
qed

subsection \<open>Digits\<close>

lemma digits_val_snoc [text_simps]: "digits_val (s @ [c]) = 10 * digits_val s + (byte c - 48)"
  by (simp add: digits_val_def)

lemma byte_digit: "n < 10 \<Longrightarrow> byte (char_of (48 + n)) = 48 + n"
  by simp

lemma show_nat_digits: "list_all is_digit (show_nat n) \<and> show_nat n \<noteq> []"
proof (induction n rule: show_nat.induct)
  case (1 n)
  show ?case
  proof (cases "n < 10")
    case True
    then show ?thesis by (simp add: show_nat.simps [of n] is_digit_def)
  next
    case False
    with 1 have "list_all is_digit (show_nat (n div 10))" by simp
    with False show ?thesis by (simp add: show_nat.simps [of n]) (simp add: is_digit_def)
  qed
qed

lemma digits_val_show_nat: "digits_val (show_nat n) = n"
proof (induction n rule: show_nat.induct)
  case (1 n)
  then show ?case
    by (subst show_nat.simps) (auto simp: text_simps, simp add: digits_val_def)
qed

lemma parse_nat_show [text_simps]: "parse_nat (show_nat n) = Some n"
  using show_nat_digits [of n] by (simp add: parse_nat_def digits_val_show_nat)

lemma show_nat_inj: "show_nat m = show_nat n \<longleftrightarrow> m = n"
  by (metis digits_val_show_nat)

lemma show_nat_hd: "hd (show_nat n) \<noteq> CHR ''+'' \<and> hd (show_nat n) \<noteq> CHR ''-''"
  using show_nat_digits [of n] by (cases "show_nat n") (auto simp: is_digit_def)

lemma parse_unsigned_show [text_simps]:
  "parse_unsigned b (show_nat n) = (if n < b then Some n else None)"
  using show_nat_hd [of n] by (simp add: parse_unsigned_def text_simps)

lemma parse_u64_show [text_simps]: "parse_u64 (show_nat (unat w)) = Some w"
  using unsigned_less [of w, where 'a = nat] by (simp add: parse_u64_def text_simps)

lemma parse_u32_show [text_simps]: "parse_u32 (show_nat (unat w)) = Some w"
  using unsigned_less [of w, where 'a = nat] by (simp add: parse_u32_def text_simps)

lemma parse_unsigned_bound: "parse_unsigned b s = Some n \<Longrightarrow> n < b"
  by (auto simp: parse_unsigned_def split: option.splits if_splits)

lemma parse_signed_show [text_simps]:
  "- b \<le> i \<Longrightarrow> i < b \<Longrightarrow> parse_signed b (show_int i) = Some i"
  using show_nat_hd [of "nat i"] by (auto simp: parse_signed_def show_int_def text_simps Let_def)

lemma parse_i32_show [text_simps]: "parse_i32 (show_int (sint w)) = Some w"
  using sint_range_size [of w] by (simp add: parse_i32_def text_simps word_size)

lemma show_nat_ascii: "c \<in> set (show_nat n) \<Longrightarrow> is_digit c"
  using show_nat_digits [of n] by (auto simp: list_all_iff)

lemma is_digit_not_ws: "is_digit c \<Longrightarrow> ws_len (c # cs) = 0"
  by (auto simp: is_digit_def ws_len_ascii is_ascii_ws_def)

lemma ws_free_digits: "list_all is_digit s \<Longrightarrow> ws_free s"
  by (induction s) (auto simp: is_digit_not_ws)

lemma ws_free_show_nat: "ws_free (show_nat n)"
  using show_nat_digits ws_free_digits by blast

lemma length_hex16: "length (hex16 w) = 16"
  by (simp add: hex16_def)

lemma hex16_chars:
  "c \<in> set (hex16 w) \<Longrightarrow> is_digit c \<or> (97 \<le> byte c \<and> byte c \<le> 102)"
proof -
  assume "c \<in> set (hex16 w)"
  then obtain n where n: "c = hex_digit n" "n < 16"
    by (auto simp: hex16_def simp del: upt_Suc upt_rec_numeral)
  then show ?thesis
    by (auto simp: hex_digit_def is_digit_def)
qed

end
