(* ===== verification/Rust_Float.thy ===== *)
theory Rust_Float
  imports Rust_Text
begin

text \<open>
  IEEE 754 binary64 as Rust's \<open>f64\<close> has it, executable and exact: a finite value is a sign, a
  significand below \<open>2 ^ 53\<close> and an exponent, and every operation computes the exact rational
  result and rounds it once, to nearest with ties to even. \<open>fval\<close> reads a finite value as a
  real number; the order, bounds and rounding lemmas are stated with it.
\<close>

section \<open>Values\<close>

datatype f64 = Nan | Inf bool | Fin bool nat int

text \<open>
  The canonical form: a full 53-bit significand, or the least exponent (zero and the
  subnormals).
\<close>

fun f64_valid :: "f64 \<Rightarrow> bool" where
  "f64_valid (Fin s m e) \<longleftrightarrow>
     m < 2 ^ 53 \<and> -1074 \<le> e \<and> e \<le> 971 \<and> (m < 2 ^ 52 \<longrightarrow> e = -1074)"
| "f64_valid _ \<longleftrightarrow> True"

fun fval :: "f64 \<Rightarrow> real" where
  "fval (Fin s m e) = (if s then -1 else 1) * real m * 2 powr real_of_int e"
| "fval _ = 0"

fun is_finite :: "f64 \<Rightarrow> bool" where
  "is_finite (Fin _ _ _) \<longleftrightarrow> True"
| "is_finite _ \<longleftrightarrow> False"

section \<open>Rounding\<close>

text \<open>The natural number nearest to \<open>a / b\<close>, ties to even.\<close>

definition rne :: "nat \<Rightarrow> nat \<Rightarrow> nat" where
  "rne a b =
     (let q = a div b; r = a mod b
      in if 2 * r < b then q else if b < 2 * r then q + 1 else if even q then q else q + 1)"

fun bit_len :: "nat \<Rightarrow> nat" where
  "bit_len n = (if n = 0 then 0 else Suc (bit_len (n div 2)))"

declare bit_len.simps [simp del]

text \<open>Whether \<open>n / d < 2 ^ k\<close>.\<close>

definition below_pow :: "nat \<Rightarrow> nat \<Rightarrow> int \<Rightarrow> bool" where
  "below_pow n d k \<longleftrightarrow> (if 0 \<le> k then n < d * 2 ^ nat k else n * 2 ^ nat (- k) < d)"

text \<open>The least exponent, not below -1074, at which \<open>n / d\<close> has at most 53 integer bits.\<close>

definition expo :: "nat \<Rightarrow> nat \<Rightarrow> int" where
  "expo n d =
     (let k = int (bit_len n) - int (bit_len d)
      in max (-1074) (if below_pow n d k then k - 53 else k - 52))"

definition scaled_rne :: "nat \<Rightarrow> nat \<Rightarrow> int \<Rightarrow> nat" where
  "scaled_rne n d e =
     (if 0 \<le> e then rne n (d * 2 ^ nat e) else rne (n * 2 ^ nat (- e)) d)"

definition pack :: "bool \<Rightarrow> nat \<Rightarrow> int \<Rightarrow> f64" where
  "pack s m e =
     (if m = 2 ^ 53 then (if 971 \<le> e then Inf s else Fin s (2 ^ 52) (e + 1))
      else if 971 < e then Inf s else Fin s m e)"

text \<open>The float nearest to \<open>n / d\<close>, with the given sign.\<close>

definition rnd :: "bool \<Rightarrow> nat \<Rightarrow> nat \<Rightarrow> f64" where
  "rnd s n d =
     (if n = 0 then Fin s 0 (-1074)
      else (let e = expo n d in pack s (scaled_rne n d e) e))"

text \<open>The float nearest to \<open>n / d * 2 ^ e\<close>.\<close>

definition rnd_exp :: "bool \<Rightarrow> nat \<Rightarrow> nat \<Rightarrow> int \<Rightarrow> f64" where
  "rnd_exp s n d e =
     (if 0 \<le> e then rnd s (n * 2 ^ nat e) d else rnd s n (d * 2 ^ nat (- e)))"

section \<open>Rounding is exact on floats and monotone\<close>

definition rne_real :: "real \<Rightarrow> int" where
  "rne_real x =
     (let q = \<lfloor>x\<rfloor>; f = x - real_of_int q
      in if f < 1 / 2 then q else if 1 / 2 < f then q + 1 else if even q then q else q + 1)"

lemma rne_real: "0 < b \<Longrightarrow> int (rne a b) = rne_real (real a / real b)"
proof -
  assume b: "0 < b"
  have q: "\<lfloor>real a / real b\<rfloor> = int (a div b)"
    by (simp add: floor_divide_of_nat_eq)
  have f: "real a / real b - real (a div b) = real (a mod b) / real b"
  proof -
    have "real a = real (a div b) * real b + real (a mod b)"
      by (metis mod_div_decomp of_nat_add of_nat_mult)
    with b show ?thesis by (simp add: field_simps)
  qed
  have "(real (a mod b) / real b < 1 / 2) = (2 * (a mod b) < b)"
    and "(1 / 2 < real (a mod b) / real b) = (b < 2 * (a mod b))"
    using b by (auto simp: field_simps)
  moreover have "rne_real (real a / real b) =
      (if real (a mod b) / real b < 1 / 2 then int (a div b)
       else if 1 / 2 < real (a mod b) / real b then int (a div b) + 1
       else if even (int (a div b)) then int (a div b) else int (a div b) + 1)"
    by (simp only: rne_real_def Let_def q of_int_of_nat_eq f)
  ultimately show ?thesis
    by (simp add: rne_def Let_def)
qed

lemma rne_real_mono: "x \<le> y \<Longrightarrow> rne_real x \<le> rne_real y"
proof -
  assume le: "x \<le> y"
  show ?thesis
  proof (cases "\<lfloor>x\<rfloor> = \<lfloor>y\<rfloor>")
    case True
    with le show ?thesis by (auto simp: rne_real_def Let_def)
  next
    case False
    with le have "\<lfloor>x\<rfloor> + 1 \<le> \<lfloor>y\<rfloor>" by (smt (verit) floor_mono)
    then show ?thesis by (auto simp: rne_real_def Let_def)
  qed
qed

lemma rne_real_int [simp]: "rne_real (real_of_int k) = k"
  by (simp add: rne_real_def)

lemma rne_real_nat [simp]: "rne_real (real k) = int k"
  using rne_real_int [of "int k"] by simp

lemma bit_len_bounds: "0 < n \<Longrightarrow> 2 ^ (bit_len n - 1) \<le> n \<and> n < 2 ^ bit_len n \<and> 0 < bit_len n"
proof (induction n rule: bit_len.induct)
  case (1 n)
  show ?case
  proof (cases "n div 2 = 0")
    case True
    with 1 have "n = 1" by auto
    then show ?thesis by (simp add: bit_len.simps)
  next
    case False
    with 1 have IH: "2 ^ (bit_len (n div 2) - 1) \<le> n div 2" "n div 2 < 2 ^ bit_len (n div 2)"
      "0 < bit_len (n div 2)" by auto
    obtain k where k: "bit_len (n div 2) = Suc k" using IH(3) by (cases "bit_len (n div 2)") auto
    have "bit_len n = Suc (Suc k)" using 1 k by (simp add: bit_len.simps [of n])
    moreover have "2 ^ Suc k \<le> n" "n < 2 ^ Suc (Suc k)" using IH k by auto
    ultimately show ?thesis by simp
  qed
qed

lemma bit_len_powr:
  assumes "0 < n"
  shows "2 powr real_of_int (int (bit_len n) - 1) \<le> real n"
    and "real n < 2 powr real_of_int (int (bit_len n))"
proof -
  obtain k where k: "bit_len n = Suc k" using bit_len_bounds [OF assms] by (cases "bit_len n") auto
  with bit_len_bounds [OF assms] have "real (2 ^ k) \<le> real n" "real n < real (2 ^ Suc k)"
    by (simp_all only: of_nat_le_iff of_nat_less_iff) simp_all
  then show "2 powr real_of_int (int (bit_len n) - 1) \<le> real n"
    "real n < 2 powr real_of_int (int (bit_len n))"
    by (simp_all add: k powr_realpow powr_add)
qed

lemma powr_nat_cases:
  "2 powr real_of_int k = (if 0 \<le> k then 2 ^ nat k else 1 / 2 ^ nat (- k))"
  by (auto simp: powr_realpow [symmetric] powr_minus field_simps)

lemma nat_less_mult_pow:
  "n < d * 2 ^ k \<longleftrightarrow> real n < real d * 2 ^ k" "n * 2 ^ k < d \<longleftrightarrow> real n * 2 ^ k < real d"
  by (metis of_nat_less_iff of_nat_mult of_nat_power of_nat_numeral)+

lemma below_pow_iff: "0 < d \<Longrightarrow> below_pow n d k \<longleftrightarrow> real n / real d < 2 powr real_of_int k"
  by (auto simp: below_pow_def powr_nat_cases nat_less_mult_pow field_simps)

lemma expo_bounds:
  assumes "0 < n" "0 < d"
  shows "real n / real d < 2 powr real_of_int (expo n d + 53)"
    and "-1074 \<le> expo n d"
    and "-1074 < expo n d \<Longrightarrow> 2 powr real_of_int (expo n d + 52) \<le> real n / real d"
proof -
  define k where "k = int (bit_len n) - int (bit_len d)"
  have n: "2 powr real_of_int (int (bit_len n) - 1) \<le> real n" "real n < 2 powr real_of_int (int (bit_len n))"
    using bit_len_powr [OF assms(1)] by auto
  have d: "2 powr real_of_int (int (bit_len d) - 1) \<le> real d" "real d < 2 powr real_of_int (int (bit_len d))"
    using bit_len_powr [OF assms(2)] by auto
  have up: "real n / real d < 2 powr real_of_int (k + 1)"
  proof -
    have "real n < 2 powr real_of_int (k + 1) * 2 powr real_of_int (int (bit_len d) - 1)"
      using n(2) by (simp add: k_def flip: powr_add)
    also have "\<dots> \<le> 2 powr real_of_int (k + 1) * real d"
      using d(1) by (intro mult_left_mono) auto
    finally show ?thesis using assms by (simp add: field_simps)
  qed
  have low: "2 powr real_of_int (k - 1) \<le> real n / real d"
  proof -
    have "2 powr real_of_int (k - 1) * real d \<le> 2 powr real_of_int (k - 1) * 2 powr real_of_int (int (bit_len d))"
      using d(2) by (intro mult_left_mono) auto
    also have "\<dots> \<le> real n"
      using n(1) by (simp add: k_def flip: powr_add)
    finally show ?thesis using assms by (simp add: field_simps)
  qed
  define c where "c = (if below_pow n d k then k - 53 else k - 52)"
  have e: "expo n d = max (-1074) c" by (simp add: expo_def k_def c_def Let_def)
  have c1: "real n / real d < 2 powr real_of_int (c + 53)"
    using up assms by (auto simp: c_def below_pow_iff add.commute)
  have c2: "2 powr real_of_int (c + 52) \<le> real n / real d"
    using low assms by (auto simp: c_def below_pow_iff)
  have "2 powr real_of_int (c + 53) \<le> 2 powr real_of_int (expo n d + 53)"
    by (simp add: e)
  with c1 show "real n / real d < 2 powr real_of_int (expo n d + 53)" by linarith
  show "-1074 \<le> expo n d" by (simp add: e)
  show "2 powr real_of_int (expo n d + 52) \<le> real n / real d" if "-1074 < expo n d"
    using that c2 by (simp add: e max_def split: if_splits)
qed

lemma expo_mono:
  assumes "0 < n" "0 < d" "0 < n'" "0 < d'" "real n / real d \<le> real n' / real d'"
  shows "expo n d \<le> expo n' d'"
proof (rule ccontr)
  assume "\<not> expo n d \<le> expo n' d'"
  then have lt: "expo n' d' + 1 \<le> expo n d" by simp
  then have "-1074 < expo n d" using expo_bounds(2) [OF assms(3,4)] by linarith
  then have "2 powr real_of_int (expo n d + 52) \<le> real n / real d"
    by (rule expo_bounds(3) [OF assms(1,2)])
  moreover have "2 powr real_of_int (expo n' d' + 53) \<le> 2 powr real_of_int (expo n d + 52)"
    using lt by simp
  ultimately show False
    using expo_bounds(1) [OF assms(3,4)] assms(5) by linarith
qed

lemma scaled_rne_real:
  "0 < d \<Longrightarrow> int (scaled_rne n d e) = rne_real (real n / real d / 2 powr real_of_int e)"
  by (auto simp: scaled_rne_def rne_real powr_nat_cases)

lemma rne_real_pow: "rne_real (2 ^ k) = 2 ^ k"
  using rne_real_int [of "2 ^ k"] by simp

lemma scaled_rne_bounds:
  assumes "0 < n" "0 < d" and e: "e = expo n d"
  shows "scaled_rne n d e \<le> 2 ^ 53"
    and "-1074 < e \<Longrightarrow> 2 ^ 52 \<le> scaled_rne n d e"
proof -
  have pos: "0 < (2::real) powr real_of_int e" by simp
  have "real n / real d / 2 powr real_of_int e \<le> 2 ^ 53"
  proof -
    have "2 powr real_of_int (e + 53) = 2 ^ 53 * 2 powr real_of_int e"
      by (simp add: powr_add)
    with expo_bounds(1) [OF assms(1,2)] have "real n / real d \<le> 2 ^ 53 * 2 powr real_of_int e"
      by (simp only: e)
    with pos show ?thesis by (simp only: pos_divide_le_eq)
  qed
  from rne_real_mono [OF this] have "int (scaled_rne n d e) \<le> 2 ^ 53"
    by (simp only: scaled_rne_real [OF assms(2)] rne_real_pow)
  then show "scaled_rne n d e \<le> 2 ^ 53" by simp
  assume "-1074 < e"
  have "2 ^ 52 \<le> real n / real d / 2 powr real_of_int e"
  proof -
    have "2 powr real_of_int (e + 52) = 2 ^ 52 * 2 powr real_of_int e"
      by (simp add: powr_add)
    with expo_bounds(3) [OF assms(1,2)] \<open>-1074 < e\<close>
    have "2 ^ 52 * 2 powr real_of_int e \<le> real n / real d"
      by (simp only: e)
    with pos show ?thesis by (simp only: pos_le_divide_eq)
  qed
  from rne_real_mono [OF this] have "2 ^ 52 \<le> int (scaled_rne n d e)"
    by (simp only: scaled_rne_real [OF assms(2)] rne_real_pow)
  then show "2 ^ 52 \<le> scaled_rne n d e" by simp
qed

lemma rnd_valid: "0 < d \<Longrightarrow> f64_valid (rnd s n d)"
proof -
  assume d: "0 < d"
  show ?thesis
  proof (cases "n = 0")
    case False
    then have n: "0 < n" by simp
    note b = scaled_rne_bounds [OF n d refl]
    have "-1074 \<le> expo n d" by (rule expo_bounds(2) [OF n d])
    with b show ?thesis
      using n by (auto simp: rnd_def pack_def Let_def not_less order_le_less)
  qed (simp add: rnd_def)
qed

section \<open>The rounded value\<close>

text \<open>The real value of a rounding, before the overflow check.\<close>

definition rval :: "nat \<Rightarrow> nat \<Rightarrow> real" where
  "rval n d = real (scaled_rne n d (expo n d)) * 2 powr real_of_int (expo n d)"

lemma p2_mono: "a \<le> b \<Longrightarrow> 2 powr real_of_int a \<le> 2 powr real_of_int b"
  by simp

lemma p2_add: "2 powr real_of_int (e + int k) = real (2 ^ k) * 2 powr real_of_int e"
  by (simp add: powr_add powr_realpow)

lemma p2_scale: "m \<le> m' \<Longrightarrow> real m * 2 powr real_of_int e \<le> real m' * 2 powr real_of_int e"
  by simp

lemma p2_scale_less: "m < m' \<Longrightarrow> real m * 2 powr real_of_int e < real m' * 2 powr real_of_int e"
  by simp

lemma rval_le: "0 < n \<Longrightarrow> 0 < d \<Longrightarrow> rval n d \<le> 2 powr real_of_int (expo n d + 53)"
  using p2_scale [OF scaled_rne_bounds(1) [OF _ _ refl]] p2_add [of _ 53]
  by (simp only: rval_def of_nat_numeral)

lemma rval_ge:
  "0 < n \<Longrightarrow> 0 < d \<Longrightarrow> -1074 < expo n d \<Longrightarrow> 2 powr real_of_int (expo n d + 52) \<le> rval n d"
  using p2_scale [OF scaled_rne_bounds(2) [OF _ _ refl]] p2_add [of _ 52]
  by (simp only: rval_def of_nat_numeral)

lemma rval_mono:
  assumes "0 < n" "0 < d" "0 < n'" "0 < d'" and le: "real n / real d \<le> real n' / real d'"
  shows "rval n d \<le> rval n' d'"
proof -
  let ?e = "expo n d" and ?f = "expo n' d'"
  have ef: "?e \<le> ?f" by (rule expo_mono [OF assms])
  show ?thesis
  proof (cases "?e = ?f")
    case True
    have "real n / real d / 2 powr real_of_int ?f \<le> real n' / real d' / 2 powr real_of_int ?f"
      using le by (rule divide_right_mono) simp
    from rne_real_mono [OF this] have "scaled_rne n d ?f \<le> scaled_rne n' d' ?f"
      by (simp only: scaled_rne_real [OF assms(2), symmetric] scaled_rne_real [OF assms(4), symmetric]
          of_nat_le_iff)
    then show ?thesis unfolding rval_def True by (rule p2_scale)
  next
    case False
    with ef have lt: "?e + 53 \<le> ?f + 52" by simp
    have f: "-1074 < ?f" using lt expo_bounds(2) [OF assms(1,2)] by linarith
    from rval_le [OF assms(1,2)] p2_mono [OF lt] rval_ge [OF assms(3,4) f] show ?thesis by linarith
  qed
qed

lemma rval_exact:
  assumes "0 < n" "0 < d" and m: "m < 2 ^ 53" and e: "-1074 \<le> e"
    and eq: "real n / real d = real m * 2 powr real_of_int e"
  shows "rval n d = real n / real d"
proof -
  let ?x = "expo n d"
  have xe: "?x \<le> e"
  proof (rule ccontr)
    assume "\<not> ?x \<le> e"
    then have x: "e + 53 \<le> ?x + 52" "-1074 < ?x" using e by simp_all
    have "real m * 2 powr real_of_int e < 2 powr real_of_int (e + 53)"
      using p2_scale_less [OF m, of e] p2_add [of e 53] by (simp only: of_nat_numeral)
    with expo_bounds(3) [OF assms(1,2) x(2)] p2_mono [OF x(1)] eq show False by linarith
  qed
  define k where "k = nat (e - ?x)"
  have "e = ?x + int k" using xe by (simp add: k_def)
  then have e': "2 powr real_of_int e = real (2 ^ k) * 2 powr real_of_int ?x"
    by (metis p2_add)
  have q: "real n / real d / 2 powr real_of_int ?x = real (m * 2 ^ k)"
    by (simp add: eq e')
  have "int (scaled_rne n d ?x) = int (m * 2 ^ k)"
    unfolding scaled_rne_real [OF assms(2)] q by (rule rne_real_nat)
  then have "scaled_rne n d ?x = m * 2 ^ k" by (simp only: of_nat_eq_iff)
  then show ?thesis by (simp add: rval_def eq e')
qed

lemma rnd_fval:
  assumes "0 < n" "0 < d" and fin: "is_finite (rnd s n d)"
  shows "fval (rnd s n d) = (if s then - rval n d else rval n d)"
proof -
  define m where "m = scaled_rne n d (expo n d)"
  have "real (2 ^ 53) * 2 powr real_of_int (expo n d) =
      real (2 ^ 52) * 2 powr real_of_int (expo n d + 1)"
    using p2_add [of "expo n d" 53] p2_add [of "expo n d + 1" 52] by (simp add: add.assoc)
  moreover have "rnd s n d = pack s m (expo n d)" using assms by (simp add: rnd_def m_def Let_def)
  ultimately show ?thesis
    using fin unfolding rval_def m_def [symmetric] pack_def
    by (simp split: if_splits)
qed

lemma rnd_finiteI:
  assumes "0 < n" "0 < d" "rval n d < 2 powr real_of_int 1024"
  shows "is_finite (rnd s n d)"
proof (rule ccontr)
  let ?e = "expo n d"
  define m where "m = scaled_rne n d ?e"
  assume inf: "\<not> is_finite (rnd s n d)"
  have "rnd s n d = pack s m ?e" using assms by (simp add: rnd_def m_def Let_def)
  with inf have "m = 2 ^ 53 \<and> 971 \<le> ?e \<or> 972 \<le> ?e"
    by (simp add: pack_def split: if_splits)
  then show False
  proof
    assume a: "m = 2 ^ 53 \<and> 971 \<le> ?e"
    then have "rval n d = 2 powr real_of_int (?e + 53)"
      using p2_add [of ?e 53] by (simp only: rval_def m_def [symmetric] of_nat_numeral)
    moreover have "1024 \<le> ?e + 53" using a by simp
    ultimately show False using assms(3) p2_mono by fastforce
  next
    assume a: "972 \<le> ?e"
    then have "2 powr real_of_int (?e + 52) \<le> rval n d" by (intro rval_ge assms) simp
    moreover have "1024 \<le> ?e + 52" using a by simp
    ultimately show False using assms(3) p2_mono [of 1024 "?e + 52"] by linarith
  qed
qed

lemma rval_nonneg: "0 \<le> rval n d"
  by (simp add: rval_def)

lemma pack_sign: "is_finite (pack s m e) \<Longrightarrow> \<exists>k x. pack s m e = Fin s k x"
  by (auto simp only: pack_def is_finite.simps split: if_splits)

lemma rnd_sign: "is_finite (rnd s n d) \<Longrightarrow> \<exists>k x. rnd s n d = Fin s k x"
  by (cases "n = 0") (auto simp: rnd_def Let_def dest: pack_sign)

text \<open>
  Rounding is monotone against a float: a quotient at or below a float rounds to a finite float
  at or below it.
\<close>

lemma rnd_le_float:
  assumes d: "0 < d" and m: "m < 2 ^ 53" and e: "-1074 \<le> e" "e \<le> 971"
    and le: "real n / real d \<le> real m * 2 powr real_of_int e"
  shows "\<exists>k x. rnd s n d = Fin s k x" and "fval (rnd False n d) \<le> real m * 2 powr real_of_int e"
    and "0 \<le> fval (rnd False n d)"
proof -
  have "(\<exists>k x. rnd s n d = Fin s k x) \<and> fval (rnd False n d) \<le> real m * 2 powr real_of_int e
      \<and> 0 \<le> fval (rnd False n d)"
  proof (cases "n = 0")
    case True
    then show ?thesis by (simp add: rnd_def)
  next
    case False
    then have n: "0 < n" by simp
    define a b where "a = (if 0 \<le> e then m * 2 ^ nat e else m)"
      and "b = (if 0 \<le> e then 1 else (2::nat) ^ nat (- e))"
    have ab: "real a / real b = real m * 2 powr real_of_int e"
      by (simp add: a_def b_def powr_nat_cases)
    have b: "0 < b" by (simp add: b_def)
    have "0 < real n / real d" using n d by simp
    with le ab have "0 < real a / real b" by linarith
    then have a: "0 < a" by (cases "a = 0") auto
    have rab: "rval a b = real m * 2 powr real_of_int e"
      using rval_exact [OF a b m e(1) ab] ab by simp
    from le ab have "real n / real d \<le> real a / real b" by simp
    from rval_mono [OF n d a b this] rab have r: "rval n d \<le> real m * 2 powr real_of_int e" by simp
    also have "\<dots> < real (2 ^ 53) * 2 powr real_of_int e" by (rule p2_scale_less [OF m])
    also have "\<dots> = 2 powr real_of_int (e + 53)" using p2_add [of e 53] by (simp only: of_nat_numeral)
    also have "\<dots> \<le> 2 powr real_of_int 1024" using e by (intro p2_mono) simp
    finally have small: "rval n d < 2 powr real_of_int 1024" .
    have fin: "is_finite (rnd t n d)" for t by (rule rnd_finiteI [OF n d small])
    have "\<exists>k x. rnd s n d = Fin s k x"
      by (rule rnd_sign [OF fin])
    with r rnd_fval [OF n d fin [of False]] rval_nonneg [of n d] show ?thesis by simp
  qed
  then show "\<exists>k x. rnd s n d = Fin s k x" and "fval (rnd False n d) \<le> real m * 2 powr real_of_int e"
    and "0 \<le> fval (rnd False n d)" by blast+
qed

section \<open>Arithmetic\<close>

fun f_neg :: "f64 \<Rightarrow> f64" where
  "f_neg (Fin s m e) = Fin (\<not> s) m e"
| "f_neg (Inf s) = Inf (\<not> s)"
| "f_neg Nan = Nan"

fun f_abs :: "f64 \<Rightarrow> f64" where
  "f_abs (Fin _ m e) = Fin False m e"
| "f_abs (Inf _) = Inf False"
| "f_abs Nan = Nan"

text \<open>\<open>u64 as f64\<close> and \<open>i64 as f64\<close>, and the value of a literal \<open>n / d\<close>.\<close>

definition f_of_nat :: "nat \<Rightarrow> f64" where
  "f_of_nat n = rnd False n 1"

definition f_of_int :: "int \<Rightarrow> f64" where
  "f_of_int k = rnd (k < 0) (nat \<bar>k\<bar>) 1"

abbreviation f_lit :: "nat \<Rightarrow> nat \<Rightarrow> f64" where
  "f_lit n d \<equiv> rnd False n d"

text \<open>A finite value as a multiple of \<open>2 ^ e0\<close>, for an exponent not above its own.\<close>

definition units :: "bool \<Rightarrow> nat \<Rightarrow> int \<Rightarrow> int \<Rightarrow> int" where
  "units s m e e0 = (if s then - 1 else 1) * int (m * 2 ^ nat (e - e0))"

fun f_add :: "f64 \<Rightarrow> f64 \<Rightarrow> f64" where
  "f_add (Fin s m e) (Fin t k f) =
     (let e0 = min e f; v = units s m e e0 + units t k f e0
      in if v = 0 then Fin (s \<and> t) 0 (-1074) else rnd_exp (v < 0) (nat \<bar>v\<bar>) 1 e0)"
| "f_add (Inf s) (Inf t) = (if s = t then Inf s else Nan)"
| "f_add (Inf s) (Fin _ _ _) = Inf s"
| "f_add (Fin _ _ _) (Inf t) = Inf t"
| "f_add _ _ = Nan"

definition f_sub :: "f64 \<Rightarrow> f64 \<Rightarrow> f64" where
  "f_sub x y = f_add x (f_neg y)"

fun f_mul :: "f64 \<Rightarrow> f64 \<Rightarrow> f64" where
  "f_mul (Fin s m e) (Fin t k f) = rnd_exp (s \<noteq> t) (m * k) 1 (e + f)"
| "f_mul (Inf s) (Inf t) = Inf (s \<noteq> t)"
| "f_mul (Inf s) (Fin t k _) = (if k = 0 then Nan else Inf (s \<noteq> t))"
| "f_mul (Fin s m _) (Inf t) = (if m = 0 then Nan else Inf (s \<noteq> t))"
| "f_mul _ _ = Nan"

fun f_div :: "f64 \<Rightarrow> f64 \<Rightarrow> f64" where
  "f_div (Fin s m e) (Fin t k f) =
     (if k = 0 then (if m = 0 then Nan else Inf (s \<noteq> t))
      else rnd_exp (s \<noteq> t) m k (e - f))"
| "f_div (Inf s) (Fin t _ _) = Inf (s \<noteq> t)"
| "f_div (Fin s _ _) (Inf t) = Fin (s \<noteq> t) 0 (-1074)"
| "f_div _ _ = Nan"

section \<open>Order\<close>

text \<open>\<open>partial_cmp\<close>: the sign of the difference, or nothing when either side is NaN.\<close>

fun f_cmp :: "f64 \<Rightarrow> f64 \<Rightarrow> int option" where
  "f_cmp (Fin s m e) (Fin t k f) =
     (let e0 = min e f in Some (sgn (units s m e e0 - units t k f e0)))"
| "f_cmp (Inf s) (Inf t) = Some (if s = t then 0 else if s then -1 else 1)"
| "f_cmp (Inf s) (Fin _ _ _) = Some (if s then -1 else 1)"
| "f_cmp (Fin _ _ _) (Inf t) = Some (if t then 1 else -1)"
| "f_cmp _ _ = None"

definition f_lt :: "f64 \<Rightarrow> f64 \<Rightarrow> bool" where "f_lt x y \<longleftrightarrow> f_cmp x y = Some (-1)"
definition f_le :: "f64 \<Rightarrow> f64 \<Rightarrow> bool" where "f_le x y \<longleftrightarrow> f_cmp x y \<in> {Some (-1), Some 0}"
definition f_eq :: "f64 \<Rightarrow> f64 \<Rightarrow> bool" where "f_eq x y \<longleftrightarrow> f_cmp x y = Some 0"

text \<open>\<open>f64::max\<close> and \<open>f64::min\<close>: a NaN gives the other side.\<close>

definition f_max :: "f64 \<Rightarrow> f64 \<Rightarrow> f64" where
  "f_max x y = (if x = Nan then y else if y = Nan then x else if f_lt x y then y else x)"

definition f_min :: "f64 \<Rightarrow> f64 \<Rightarrow> f64" where
  "f_min x y = (if x = Nan then y else if y = Nan then x else if f_lt y x then y else x)"

definition f_clamp :: "f64 \<Rightarrow> f64 \<Rightarrow> f64 \<Rightarrow> f64" where
  "f_clamp x lo hi = (if f_lt x lo then lo else if f_lt hi x then hi else x)"

text \<open>The truncation towards zero, and \<open>as u64\<close>: saturating, with NaN as zero.\<close>

fun trunc_nat :: "f64 \<Rightarrow> nat" where
  "trunc_nat (Fin s m e) = (if 0 \<le> e then m * 2 ^ nat e else m div 2 ^ nat (- e))"
| "trunc_nat _ = 0"

fun f_as_u64 :: "f64 \<Rightarrow> u64" where
  "f_as_u64 (Fin s m e) =
     (if s then 0 else word_of_nat (min (trunc_nat (Fin s m e)) (2 ^ 64 - 1)))"
| "f_as_u64 (Inf s) = (if s then 0 else -1)"
| "f_as_u64 Nan = 0"

definition f_trunc :: "f64 \<Rightarrow> f64" where
  "f_trunc x = (case x of Fin s _ _ \<Rightarrow> rnd s (trunc_nat x) 1 | _ \<Rightarrow> x)"

definition f_fract :: "f64 \<Rightarrow> f64" where
  "f_fract x = f_sub x (f_trunc x)"

section \<open>The order is the order of the values\<close>

lemma units_real:
  "e0 \<le> e \<Longrightarrow> real_of_int (units s m e e0) = fval (Fin s m e) / 2 powr real_of_int e0"
proof -
  assume "e0 \<le> e"
  then have "2 powr real_of_int e = real (2 ^ nat (e - e0)) * 2 powr real_of_int e0"
    using p2_add [of e0 "nat (e - e0)"] by simp
  then show ?thesis by (simp add: units_def)
qed

lemma units_less:
  assumes "e0 \<le> e" "e0 \<le> f"
  shows "units s m e e0 < units t k f e0 \<longleftrightarrow> fval (Fin s m e) < fval (Fin t k f)"
proof -
  have "units s m e e0 < units t k f e0 \<longleftrightarrow>
      real_of_int (units s m e e0) < real_of_int (units t k f e0)"
    by (rule of_int_less_iff [symmetric])
  also have "\<dots> \<longleftrightarrow> fval (Fin s m e) < fval (Fin t k f)"
    unfolding units_real [OF assms(1)] units_real [OF assms(2)]
    by (rule divide_less_cancel [THEN trans]) simp
  finally show ?thesis .
qed

lemma f_cmp_Fin:
  "f_cmp (Fin s m e) (Fin t k f) =
     Some (if fval (Fin s m e) < fval (Fin t k f) then -1
           else if fval (Fin t k f) < fval (Fin s m e) then 1 else 0)"
  using units_less [of "min e f" e f s m t k] units_less [of "min e f" f e t k s m]
  by (auto simp: Let_def sgn_if simp del: fval.simps)

lemma f_lt_Fin [float_simps]:
  "f_lt (Fin s m e) (Fin t k f) \<longleftrightarrow> fval (Fin s m e) < fval (Fin t k f)"
  by (simp add: f_lt_def f_cmp_Fin del: fval.simps f_cmp.simps)

lemma f_le_Fin [float_simps]:
  "f_le (Fin s m e) (Fin t k f) \<longleftrightarrow> fval (Fin s m e) \<le> fval (Fin t k f)"
  by (auto simp: f_le_def f_cmp_Fin simp del: fval.simps f_cmp.simps)

lemma f_eq_Fin [float_simps]:
  "f_eq (Fin s m e) (Fin t k f) \<longleftrightarrow> fval (Fin s m e) = fval (Fin t k f)"
  by (auto simp: f_eq_def f_cmp_Fin simp del: fval.simps f_cmp.simps)

lemma f_clamp_bounds:
  assumes "is_finite lo" "is_finite hi" "f_le lo hi" "x \<noteq> Nan"
  shows "f_le lo (f_clamp x lo hi) \<and> f_le (f_clamp x lo hi) hi"
  using assms
  by (cases lo; cases hi; cases x)
    (auto simp: f_clamp_def float_simps f_le_def [of "Inf _"] f_le_def [of _ "Inf _"]
      f_lt_def [of "Inf _"] f_lt_def [of _ "Inf _"] simp del: fval.simps)

section \<open>Text to float\<close>

text \<open>
  \<open>str::parse::<f64>\<close>: an optional sign, then \<open>inf\<close>, \<open>infinity\<close> or \<open>nan\<close> in any case, or digits
  with an optional point and an optional exponent; at least one digit is needed before the
  exponent, and every character must be used.
\<close>

definition lower :: "string \<Rightarrow> string" where
  "lower cs =
     map (\<lambda>c. if 65 \<le> byte c \<and> byte c \<le> 90 then char_of (byte c + 32) else c) cs"

definition take_digits :: "string \<Rightarrow> string \<times> string" where
  "take_digits cs = (takeWhile is_digit cs, dropWhile is_digit cs)"

definition parse_exponent :: "string \<Rightarrow> int option" where
  "parse_exponent cs =
     (case cs of
        [] \<Rightarrow> Some 0
      | c # ds \<Rightarrow>
          if c = CHR ''e'' \<or> c = CHR ''E'' then
            (if ds \<noteq> [] \<and> hd ds = CHR ''-'' then map_option (\<lambda>n. - int n) (parse_nat (tl ds))
             else map_option int
               (parse_nat (if ds \<noteq> [] \<and> hd ds = CHR ''+'' then tl ds else ds)))
          else None)"

definition decimal :: "bool \<Rightarrow> nat \<Rightarrow> int \<Rightarrow> f64" where
  "decimal s n e = (if 0 \<le> e then rnd s (n * 10 ^ nat e) 1 else rnd s n (10 ^ nat (- e)))"

definition parse_magnitude :: "bool \<Rightarrow> string \<Rightarrow> f64 option" where
  "parse_magnitude s cs =
     (if lower cs = ''inf'' \<or> lower cs = ''infinity'' then Some (Inf s)
      else if lower cs = ''nan'' then Some Nan
      else
        (let (a, r) = take_digits cs;
             (b, t) = (if r \<noteq> [] \<and> hd r = CHR ''.'' then take_digits (tl r) else ([], r))
         in if a = [] \<and> b = [] then None
            else map_option (\<lambda>e. decimal s (digits_val (a @ b)) (e - int (length b)))
                   (parse_exponent t)))"

definition parse_f64 :: "string \<Rightarrow> f64 option" where
  "parse_f64 cs =
     (if cs \<noteq> [] \<and> hd cs = CHR ''-'' then parse_magnitude True (tl cs)
      else parse_magnitude False (if cs \<noteq> [] \<and> hd cs = CHR ''+'' then tl cs else cs))"

section \<open>Float to text\<close>

text \<open>
  \<open>format!("{:.p}")\<close>: the exact value rounded to \<open>p\<close> decimals, ties to even. The sign is printed
  for a negative zero too.
\<close>

definition pad_left :: "nat \<Rightarrow> char \<Rightarrow> string \<Rightarrow> string" where
  "pad_left w c cs = replicate (w - length cs) c @ cs"

definition fixed :: "nat \<Rightarrow> nat \<Rightarrow> string" where
  "fixed p n =
     show_nat (n div 10 ^ p) @
     (if p = 0 then [] else CHR ''.'' # pad_left p (CHR ''0'') (show_nat (n mod 10 ^ p)))"

fun fmt_f64 :: "nat \<Rightarrow> f64 \<Rightarrow> string" where
  "fmt_f64 p (Fin s m e) =
     (if s then ''-'' else []) @ fixed p (scaled_rne (m * 10 ^ p) 1 (- e))"
| "fmt_f64 p (Inf s) = (if s then ''-inf'' else ''inf'')"
| "fmt_f64 p Nan = ''NaN''"

section \<open>Bounds of the operations\<close>

text \<open>A finite value with a positive sign and the given bound.\<close>

definition f_upto :: "real \<Rightarrow> f64 \<Rightarrow> bool" where
  "f_upto c x \<longleftrightarrow> (\<exists>m e. x = Fin False m e) \<and> fval x \<le> c"

lemma f_uptoE: "f_upto c x \<Longrightarrow> (\<And>m e. x = Fin False m e \<Longrightarrow> 0 \<le> fval x \<Longrightarrow> fval x \<le> c \<Longrightarrow> P) \<Longrightarrow> P"
  by (force simp: f_upto_def)

text \<open>A bound that is itself a float.\<close>

definition float_real :: "real \<Rightarrow> bool" where
  "float_real c \<longleftrightarrow> (\<exists>m e. m < (2::nat) ^ 53 \<and> -1074 \<le> e \<and> e \<le> 971 \<and> c = real m * 2 powr real_of_int e)"

lemma float_real_nat: "m < 2 ^ 53 \<Longrightarrow> float_real (real m)"
  unfolding float_real_def by (intro exI [of _ m] exI [of _ 0]) simp

lemma float_real_pow: "k \<le> 971 \<Longrightarrow> float_real (2 ^ k)"
  unfolding float_real_def by (intro exI [of _ 1] exI [of _ "int k"]) (simp add: powr_realpow)

lemma rnd_upto:
  assumes "0 < d" "float_real c" "real n / real d \<le> c"
  shows "f_upto c (rnd False n d)"
  using assms(2,3) rnd_le_float [OF assms(1)] unfolding float_real_def f_upto_def by blast

lemma rnd_exp_rnd:
  assumes "0 < d"
  obtains n' d' where "0 < d'" "\<And>t. rnd_exp t n d e = rnd t n' d'"
    "real n' / real d' = real n / real d * 2 powr real_of_int e"
proof (cases "0 \<le> e")
  case True
  then show ?thesis using assms
    by (intro that [of d "n * 2 ^ nat e"]) (simp_all add: rnd_exp_def powr_nat_cases)
next
  case False
  then show ?thesis using assms
    by (intro that [of "d * 2 ^ nat (- e)" n]) (simp_all add: rnd_exp_def powr_nat_cases)
qed

lemma rnd_exp_upto:
  assumes "0 < d" "float_real c" "real n / real d * 2 powr real_of_int e \<le> c"
  shows "f_upto c (rnd_exp False n d e)"
  using rnd_upto [OF _ assms(2)] assms(3)
  by (rule_tac rnd_exp_rnd [OF assms(1), of n e]) simp

lemma f_div_upto:
  assumes "f_upto a x" "y = Fin False k f" "0 < fval y" "float_real c" "fval x \<le> c * fval y"
  shows "f_upto c (f_div x y)"
proof -
  obtain m e where x: "x = Fin False m e" using assms(1) by (auto simp: f_upto_def)
  have k: "0 < k" using assms(2,3) by (cases "k = 0") auto
  have "real m / real k * 2 powr real_of_int (e - f) = fval x / fval y"
    by (simp add: x assms(2) powr_diff)
  also have "\<dots> \<le> c" using assms(3,5) by (simp add: pos_divide_le_eq)
  finally show ?thesis using rnd_exp_upto [OF k assms(4)] k by (simp add: x assms(2))
qed

lemma f_mul_upto:
  assumes "f_upto a x" "f_upto b y" "float_real c" "fval x * fval y \<le> c"
  shows "f_upto c (f_mul x y)"
proof -
  obtain m e k f where xy: "x = Fin False m e" "y = Fin False k f"
    using assms(1,2) by (auto simp: f_upto_def)
  have "real (m * k) / real 1 * 2 powr real_of_int (e + f) = fval x * fval y"
    by (simp add: xy powr_add)
  with assms(4) have "f_upto c (rnd_exp False (m * k) 1 (e + f))"
    by (intro rnd_exp_upto assms(3)) simp_all
  then show ?thesis by (simp add: xy)
qed

lemma f_of_nat_upto: "float_real c \<Longrightarrow> real n \<le> c \<Longrightarrow> f_upto c (f_of_nat n)"
  unfolding f_of_nat_def by (rule rnd_upto) simp_all

lemma real_le_pow: "n < 2 ^ k \<Longrightarrow> real n \<le> 2 ^ k"
proof -
  assume "n < 2 ^ k"
  then have "real n \<le> real (2 ^ k)" by (simp only: of_nat_le_iff)
  then show ?thesis by (simp only: of_nat_power of_nat_numeral)
qed

lemma f_of_nat_pow: "k \<le> 971 \<Longrightarrow> n < 2 ^ k \<Longrightarrow> f_upto (2 ^ k) (f_of_nat n)"
  by (rule f_of_nat_upto [OF float_real_pow real_le_pow])

lemma f_of_nat_u64: "n < 2 ^ 64 \<Longrightarrow> f_upto (2 ^ 64) (f_of_nat n)"
  by (rule f_of_nat_pow) simp_all

lemma f_of_nat_mono:
  assumes "m \<le> n" "n < 2 ^ 64"
  shows "fval (f_of_nat m) \<le> fval (f_of_nat n)"
proof (cases "m = 0")
  case True
  then show ?thesis using f_of_nat_u64 [OF assms(2)]
    by (auto simp: f_of_nat_def rnd_def [of False 0] elim: f_uptoE)
next
  case False
  have fin: "is_finite (f_of_nat k)" if "k < 2 ^ 64" for k
    using f_of_nat_u64 [OF that] by (auto simp: f_upto_def)
  have "rval m 1 \<le> rval n 1" using assms False by (intro rval_mono) simp_all
  then show ?thesis
    using rnd_fval [of m 1 False] rnd_fval [of n 1 False] fin [of m] fin [of n] assms False
    by (simp add: f_of_nat_def)
qed

lemma fval_of_nat_exact: "m < 2 ^ 53 \<Longrightarrow> fval (f_of_nat m) = real m"
proof (cases "m = 0")
  case False
  assume m: "m < 2 ^ 53"
  have "rval m 1 = real m / real 1" using False m by (intro rval_exact [of _ _ m 0]) simp_all
  moreover have "is_finite (f_of_nat m)"
    using f_of_nat_u64 [of m] m by (auto simp: f_upto_def)
  ultimately show ?thesis using rnd_fval [of m 1 False] False by (simp add: f_of_nat_def)
qed (simp add: f_of_nat_def rnd_def)

lemma rnd_ge:
  assumes "0 < d" "float_real c" "0 < c" "c \<le> real n / real d" "is_finite (rnd False n d)"
  shows "c \<le> fval (rnd False n d)"
proof -
  obtain m e where m: "m < (2::nat) ^ 53" "-1074 \<le> e" "c = real m * 2 powr real_of_int e"
    using assms(2) unfolding float_real_def by blast
  define a b where "a = (if 0 \<le> e then m * 2 ^ nat e else m)"
    and "b = (if 0 \<le> e then 1 else (2::nat) ^ nat (- e))"
  have ab: "real a / real b = c" by (simp add: a_def b_def m(3) powr_nat_cases)
  have b: "0 < b" by (simp add: b_def)
  have a: "0 < a" using ab assms(3) by (cases "a = 0") auto
  have n: "0 < n" using assms(3,4) by (cases "n = 0") auto
  have "c = rval a b" using rval_exact [OF a b m(1,2)] ab m(3) by simp
  also have "\<dots> \<le> rval n d" using assms(1,4) ab by (intro rval_mono a b n) simp_all
  also have "\<dots> = fval (rnd False n d)" using rnd_fval [OF n assms(1,5)] by simp
  finally show ?thesis .
qed

lemma f_div_ge:
  assumes "x = Fin False m e" "y = Fin False k f" "0 < fval y" "float_real c" "0 < c"
    "c * fval y \<le> fval x" "is_finite (f_div x y)"
  shows "c \<le> fval (f_div x y)"
proof -
  have k: "0 < k" using assms(2,3) by (cases "k = 0") auto
  obtain n' d' where nd: "0 < d'" "\<And>t. rnd_exp t m k (e - f) = rnd t n' d'"
    "real n' / real d' = real m / real k * 2 powr real_of_int (e - f)"
    by (rule rnd_exp_rnd [OF k]) blast
  have "real n' / real d' = fval x / fval y" by (simp add: nd(3) assms(1,2) powr_diff)
  moreover have "c \<le> fval x / fval y" using assms(3,6) by (simp add: pos_le_divide_eq)
  ultimately have "c \<le> fval (rnd False n' d')"
    using assms(7) k by (intro rnd_ge [OF nd(1) assms(4,5)]) (simp_all add: assms(1,2) nd(2))
  then show ?thesis using k by (simp add: assms(1,2) nd(2))
qed

lemma float_real_inv_pow: "k \<le> 1074 \<Longrightarrow> float_real (1 / 2 ^ k)"
  unfolding float_real_def
  by (intro exI [of _ 1] exI [of _ "- int k"]) (simp add: powr_minus powr_realpow field_simps)

lemma f_of_int_nat: "0 \<le> k \<Longrightarrow> f_of_int k = f_of_nat (nat k)"
  by (simp add: f_of_int_def f_of_nat_def)

text \<open>A part of a whole, as a percentage: \<open>part as f64 / whole as f64 * 100.0\<close>.\<close>

definition percent :: "u64 \<Rightarrow> u64 \<Rightarrow> f64" where
  "percent part whole =
     f_mul (f_div (f_of_nat (unat part)) (f_of_nat (unat whole))) (f_of_nat 100)"

theorem percent_bounds:
  assumes "part \<le> whole" "whole \<noteq> 0"
  shows "f_upto 100 (percent part whole)"
proof -
  have w: "unat whole < 2 ^ 64" using unsigned_less [of whole, where 'a = nat] by simp
  have pw: "unat part \<le> unat whole" using assms(1) by (simp add: word_le_nat_alt)
  have "1 \<le> unat whole" using assms(2) by (metis One_nat_def Suc_leI gr0I unat_eq_zero)
  from f_of_nat_mono [OF this w] have one: "1 \<le> fval (f_of_nat (unat whole))"
    using fval_of_nat_exact [of 1] by simp
  obtain k f where y: "f_of_nat (unat whole) = Fin False k f"
    using f_of_nat_u64 [OF w] by (auto simp: f_upto_def)
  have "unat part < 2 ^ 64" using pw w by simp
  then have q: "f_upto 1 (f_div (f_of_nat (unat part)) (f_of_nat (unat whole)))"
    using float_real_nat [of 1] one f_of_nat_mono [OF pw w]
    by (intro f_div_upto [OF f_of_nat_u64 y]) simp_all
  have h: "f_upto 100 (f_of_nat 100)" "fval (f_of_nat 100) = 100"
    using f_of_nat_upto [OF float_real_nat [of 100], of 100] fval_of_nat_exact [of 100] by simp_all
  have "f_upto (real 100) (f_mul (f_div (f_of_nat (unat part)) (f_of_nat (unat whole))) (f_of_nat 100))"
    using q by (intro f_mul_upto [OF q h(1)] float_real_nat) (auto simp: h(2) elim: f_uptoE)
  then show ?thesis by (simp add: percent_def)
qed

text \<open>The definitions that evaluate a concrete float expression.\<close>

lemmas float_eval =
  rnd_def rnd_exp_def rne_def scaled_rne_def pack_def bit_len.simps expo_def below_pow_def
  units_def f_of_nat_def f_of_int_def f_lt_def f_le_def f_eq_def f_sub_def percent_def

end
