(* ===== verification/Model.thy ===== *)
theory Model
  imports Rust_Float
begin

text \<open>
  The vocabulary of \<open>crates/sg-model\<close>: ids (\<open>ids.rs\<close>), the entity tree (\<open>entity.rs\<close>), units
  (\<open>unit.rs\<close>), series and values (\<open>series.rs\<close>), samples and the sink the sources write into
  (\<open>sample.rs\<close>), host capabilities (\<open>caps.rs\<close>) and the context a source is given (\<open>source.rs\<close>).
  Ids are newtypes over \<open>String\<close> and are strings here.
\<close>

section \<open>Ids\<close>

type_synonym target_id = string
type_synonym entity_id = string
type_synonym series_id = string
type_synonym source_id = string

definition entity_child :: "entity_id \<Rightarrow> string \<Rightarrow> string \<Rightarrow> entity_id" where
  "entity_child self kind name = self @ ''/'' @ kind @ '':'' @ name"

definition series_of :: "entity_id \<Rightarrow> string \<Rightarrow> series_id" where
  "series_of entity metric = entity @ ''#'' @ metric"

section \<open>Entities\<close>

datatype entity_kind =
  Host | CpuCore | Disk | Filesystem | NetworkInterface | Gpu | Process | Container | Pod | Node
  | Service | VirtualMachine | StoragePool | Database | Endpoint | Ups | Sensor | Custom string

fun slug :: "entity_kind \<Rightarrow> string" where
  "slug Host = ''host''"
| "slug CpuCore = ''cpu''"
| "slug Disk = ''disk''"
| "slug Filesystem = ''fs''"
| "slug NetworkInterface = ''net''"
| "slug Gpu = ''gpu''"
| "slug Process = ''proc''"
| "slug Container = ''container''"
| "slug Pod = ''pod''"
| "slug Node = ''node''"
| "slug Service = ''service''"
| "slug VirtualMachine = ''vm''"
| "slug StoragePool = ''pool''"
| "slug Database = ''db''"
| "slug Endpoint = ''endpoint''"
| "slug Ups = ''ups''"
| "slug Sensor = ''sensor''"
| "slug (Custom s) = s"

record entity =
  ent_id :: entity_id
  ent_kind :: entity_kind
  ent_display :: string
  ent_parent :: "entity_id option"
  ent_labels :: "(string, string) btmap"

definition entity_host :: "string \<Rightarrow> entity" where
  "entity_host display =
     \<lparr>ent_id = ''host'', ent_kind = Host, ent_display = display, ent_parent = None,
      ent_labels = []\<rparr>"

definition child_of :: "entity \<Rightarrow> entity_kind \<Rightarrow> string \<Rightarrow> entity" where
  "child_of parent kind name =
     \<lparr>ent_id = entity_child (ent_id parent) (slug kind) name, ent_kind = kind,
      ent_display = name, ent_parent = Some (ent_id parent), ent_labels = []\<rparr>"

definition ent_with_label :: "entity \<Rightarrow> string \<Rightarrow> string \<Rightarrow> entity" where
  "ent_with_label self key v = self\<lparr>ent_labels := bt_insert key v (ent_labels self)\<rparr>"

lemma child_of_simps [simp]:
  "ent_id (child_of p k n) = entity_child (ent_id p) (slug k) n"
  "ent_kind (child_of p k n) = k" "ent_display (child_of p k n) = n"
  "ent_parent (child_of p k n) = Some (ent_id p)" "ent_labels (child_of p k n) = []"
  by (simp_all add: child_of_def)

lemma ent_with_label_simps [simp]:
  "ent_id (ent_with_label e k v) = ent_id e" "ent_kind (ent_with_label e k v) = ent_kind e"
  "ent_display (ent_with_label e k v) = ent_display e"
  "ent_parent (ent_with_label e k v) = ent_parent e"
  "ent_labels (ent_with_label e k v) = bt_insert k v (ent_labels e)"
  by (simp_all add: ent_with_label_def)

section \<open>Units\<close>

datatype munit =
  Percent | Ratio | Bytes | BytesPerSecond | Bits | BitsPerSecond | Packets | PacketsPerSecond
  | Count | CountPerSecond | Operations | OperationsPerSecond | Seconds | Milliseconds | Celsius
  | Watts | Volts | Amperes | Hertz | Rpm | NoUnit

fun per_second :: "munit \<Rightarrow> munit" where
  "per_second Bytes = BytesPerSecond"
| "per_second Bits = BitsPerSecond"
| "per_second Packets = PacketsPerSecond"
| "per_second Count = CountPerSecond"
| "per_second Operations = OperationsPerSecond"
| "per_second other = other"

definition is_binary_scaled :: "munit \<Rightarrow> bool" where
  "is_binary_scaled u \<longleftrightarrow> u = Bytes \<or> u = BytesPerSecond"

fun unit_suffix :: "munit \<Rightarrow> string" where
  "unit_suffix Percent = ''%''"
| "unit_suffix Ratio = []"
| "unit_suffix Bytes = ''B''"
| "unit_suffix BytesPerSecond = ''B/s''"
| "unit_suffix Bits = ''b''"
| "unit_suffix BitsPerSecond = ''b/s''"
| "unit_suffix Packets = ''pkt''"
| "unit_suffix PacketsPerSecond = ''pkt/s''"
| "unit_suffix Count = []"
| "unit_suffix CountPerSecond = ''/s''"
| "unit_suffix Operations = ''IO''"
| "unit_suffix OperationsPerSecond = ''IO/s''"
| "unit_suffix Seconds = ''s''"
| "unit_suffix Milliseconds = ''ms''"
| "unit_suffix Celsius = [CHR 0xC2, CHR 0xB0, CHR ''C'']"
| "unit_suffix Watts = ''W''"
| "unit_suffix Volts = ''V''"
| "unit_suffix Amperes = ''A''"
| "unit_suffix Hertz = ''Hz''"
| "unit_suffix Rpm = ''rpm''"
| "unit_suffix NoUnit = []"

fun natural_max :: "munit \<Rightarrow> f64 option" where
  "natural_max Percent = Some (f_of_nat 100)"
| "natural_max Ratio = Some (f_of_nat 1)"
| "natural_max _ = None"

section \<open>Series and values\<close>

datatype series_kind = Gauge | Counter | State | Info

datatype val = Float f64 | IntV i64 | Uint u64 | BoolV bool | Text string

fun as_f64 :: "val \<Rightarrow> f64 option" where
  "as_f64 (Float v) = Some v"
| "as_f64 (IntV v) = Some (f_of_int (sint v))"
| "as_f64 (Uint v) = Some (f_of_nat (unat v))"
| "as_f64 (BoolV b) = Some (if b then f_of_nat 1 else f_of_nat 0)"
| "as_f64 (Text _) = None"

fun as_counter :: "val \<Rightarrow> u64 option" where
  "as_counter (Uint v) = Some v"
| "as_counter (IntV v) = (if 0 \<le> sint v then Some v else None)"
| "as_counter _ = None"

record series_descriptor =
  ser_id :: series_id
  ser_source :: source_id
  ser_entity :: entity_id
  ser_metric :: string
  ser_display :: string
  ser_unit :: munit
  ser_kind :: series_kind
  ser_max :: "f64 option"
  ser_scale :: f64
  ser_labels :: "(string, string) btmap"

definition unit_scale :: f64 where
  "unit_scale = f_of_nat 1"

definition gauge :: "source_id \<Rightarrow> entity_id \<Rightarrow> string \<Rightarrow> string \<Rightarrow> munit \<Rightarrow> series_descriptor" where
  "gauge source entity metric display u =
     \<lparr>ser_id = series_of entity metric, ser_source = source, ser_entity = entity,
      ser_metric = metric, ser_display = display, ser_unit = u, ser_kind = Gauge,
      ser_max = None, ser_scale = unit_scale, ser_labels = []\<rparr>"

definition counter :: "source_id \<Rightarrow> entity_id \<Rightarrow> string \<Rightarrow> string \<Rightarrow> munit \<Rightarrow> series_descriptor" where
  "counter source entity metric display u =
     (gauge source entity metric display u)\<lparr>ser_kind := Counter\<rparr>"

definition info :: "source_id \<Rightarrow> entity_id \<Rightarrow> string \<Rightarrow> string \<Rightarrow> series_descriptor" where
  "info source entity metric display =
     (gauge source entity metric display NoUnit)\<lparr>ser_kind := Info\<rparr>"

definition with_max :: "series_descriptor \<Rightarrow> f64 \<Rightarrow> series_descriptor" where
  "with_max self m = self\<lparr>ser_max := Some m\<rparr>"

definition with_scale :: "series_descriptor \<Rightarrow> f64 \<Rightarrow> series_descriptor" where
  "with_scale self scale = self\<lparr>ser_scale := scale\<rparr>"

definition ser_with_label :: "series_descriptor \<Rightarrow> string \<Rightarrow> string \<Rightarrow> series_descriptor" where
  "ser_with_label self key v = self\<lparr>ser_labels := bt_insert key v (ser_labels self)\<rparr>"

definition effective_unit :: "series_descriptor \<Rightarrow> munit" where
  "effective_unit self =
     (if ser_kind self = Counter \<and> f_eq (ser_scale self) (f_of_nat 1)
      then per_second (ser_unit self) else ser_unit self)"

definition display_max :: "series_descriptor \<Rightarrow> f64 option" where
  "display_max self =
     (case ser_max self of Some m \<Rightarrow> Some m | None \<Rightarrow> natural_max (ser_unit self))"

lemmas ser_defs = gauge_def counter_def info_def with_max_def with_scale_def ser_with_label_def

section \<open>Samples and the sink\<close>

record sample =
  sam_series :: series_id
  sam_at :: i64
  sam_value :: val

definition sample_new :: "series_id \<Rightarrow> i64 \<Rightarrow> val \<Rightarrow> sample" where
  "sample_new series at_ms v = \<lparr>sam_series = series, sam_at = at_ms, sam_value = v\<rparr>"

record sample_sink =
  sk_entities :: "entity list"
  sk_descriptors :: "series_descriptor list"
  sk_samples :: "sample list"
  sk_at :: i64

definition sink_new :: "i64 \<Rightarrow> sample_sink" where
  "sink_new at_ms = \<lparr>sk_entities = [], sk_descriptors = [], sk_samples = [], sk_at = at_ms\<rparr>"

definition sink_entity :: "entity \<Rightarrow> sample_sink \<Rightarrow> sample_sink" where
  "sink_entity e self = self\<lparr>sk_entities := sk_entities self @ [e]\<rparr>"

definition sink_describe :: "series_descriptor \<Rightarrow> sample_sink \<Rightarrow> sample_sink" where
  "sink_describe d self = self\<lparr>sk_descriptors := sk_descriptors self @ [d]\<rparr>"

definition sink_push :: "series_id \<Rightarrow> val \<Rightarrow> sample_sink \<Rightarrow> sample_sink" where
  "sink_push series v self =
     self\<lparr>sk_samples := sk_samples self @ [sample_new series (sk_at self) v]\<rparr>"

definition sink_emit :: "series_descriptor \<Rightarrow> val \<Rightarrow> sample_sink \<Rightarrow> sample_sink" where
  "sink_emit d v self =
     self\<lparr>sk_samples := sk_samples self @ [sample_new (ser_id d) (sk_at self) v],
          sk_descriptors := sk_descriptors self @ [d]\<rparr>"

definition sink_is_empty :: "sample_sink \<Rightarrow> bool" where
  "sink_is_empty self \<longleftrightarrow> sk_entities self = [] \<and> sk_descriptors self = [] \<and> sk_samples self = []"

definition sink_absorb :: "sample_sink \<Rightarrow> sample_sink \<Rightarrow> sample_sink" where
  "sink_absorb self other =
     self\<lparr>sk_entities := sk_entities self @ sk_entities other,
          sk_descriptors := sk_descriptors self @ sk_descriptors other,
          sk_samples := sk_samples self @ sk_samples other\<rparr>"

lemma sink_entity_simps [sink_simps, simp]:
  "sk_entities (sink_entity e s) = sk_entities s @ [e]"
  "sk_descriptors (sink_entity e s) = sk_descriptors s"
  "sk_samples (sink_entity e s) = sk_samples s" "sk_at (sink_entity e s) = sk_at s"
  by (simp_all add: sink_entity_def)

lemma sink_emit_simps [sink_simps, simp]:
  "sk_entities (sink_emit d v s) = sk_entities s"
  "sk_descriptors (sink_emit d v s) = sk_descriptors s @ [d]"
  "sk_samples (sink_emit d v s) = sk_samples s @ [sample_new (ser_id d) (sk_at s) v]"
  "sk_at (sink_emit d v s) = sk_at s"
  by (simp_all add: sink_emit_def)

lemma sink_absorb_simps [sink_simps, simp]:
  "sk_entities (sink_absorb s t) = sk_entities s @ sk_entities t"
  "sk_descriptors (sink_absorb s t) = sk_descriptors s @ sk_descriptors t"
  "sk_samples (sink_absorb s t) = sk_samples s @ sk_samples t"
  "sk_at (sink_absorb s t) = sk_at s"
  by (simp_all add: sink_absorb_def)

lemma sink_new_simps [sink_simps, simp]:
  "sk_entities (sink_new at_ms) = []" "sk_descriptors (sink_new at_ms) = []"
  "sk_samples (sink_new at_ms) = []" "sk_at (sink_new at_ms) = at_ms"
  by (simp_all add: sink_new_def)

section \<open>Capabilities\<close>

datatype coreutils = Gnu | Busybox | CuUnknown
datatype cgroup_version = V1 | V2 | CgUnknown

record capabilities =
  cap_kernel :: string
  cap_distro :: string
  cap_arch :: string
  cap_hostname :: string
  cap_coreutils :: coreutils
  cap_cgroup :: cgroup_version
  cap_cpu_count :: u32
  cap_clock_ticks :: u64
  cap_page_size :: u64
  cap_binaries :: "string set"
  cap_paths :: "string set"

definition capabilities_default :: capabilities where
  "capabilities_default =
     \<lparr>cap_kernel = [], cap_distro = [], cap_arch = [], cap_hostname = [],
      cap_coreutils = CuUnknown, cap_cgroup = CgUnknown, cap_cpu_count = 0,
      cap_clock_ticks = 0, cap_page_size = 0, cap_binaries = {}, cap_paths = {}\<rparr>"

definition caps_has :: "capabilities \<Rightarrow> string \<Rightarrow> bool" where
  "caps_has self binary \<longleftrightarrow> binary \<in> cap_binaries self"

definition caps_has_path :: "capabilities \<Rightarrow> string \<Rightarrow> bool" where
  "caps_has_path self path \<longleftrightarrow> path \<in> cap_paths self"

definition tick_seconds :: "capabilities \<Rightarrow> f64" where
  "tick_seconds self =
     (if cap_clock_ticks self = 0 then f_lit 1 100
      else f_div (f_of_nat 1) (f_of_nat (unat (cap_clock_ticks self))))"

record requirements =
  req_binaries :: "string list"
  req_paths :: "string list"

definition requirements_none :: requirements where
  "requirements_none = \<lparr>req_binaries = [], req_paths = []\<rparr>"

definition requirements_binary :: "string \<Rightarrow> requirements" where
  "requirements_binary name = \<lparr>req_binaries = [name], req_paths = []\<rparr>"

definition requirements_path :: "string \<Rightarrow> requirements" where
  "requirements_path path = \<lparr>req_binaries = [], req_paths = [path]\<rparr>"

definition satisfied_by :: "requirements \<Rightarrow> capabilities \<Rightarrow> bool" where
  "satisfied_by self caps \<longleftrightarrow>
     list_all (caps_has caps) (req_binaries self) \<and> list_all (caps_has_path caps) (req_paths self)"

section \<open>What a source is told\<close>

record target_ctx =
  ctx_target :: target_id
  ctx_host :: entity
  ctx_caps :: capabilities
  ctx_interval_ms :: u64

record parse_error =
  pe_source :: source_id
  pe_detail :: string

definition parse_error_new :: "source_id \<Rightarrow> string \<Rightarrow> parse_error" where
  "parse_error_new source detail = \<lparr>pe_source = source, pe_detail = detail\<rparr>"

definition parse_error_display :: "parse_error \<Rightarrow> string" where
  "parse_error_display self = ''source '' @ pe_source self @ '' failed to parse: '' @ pe_detail self"

record source_descriptor =
  sd_id :: source_id
  sd_display :: string
  sd_description :: string
  sd_produces :: "entity_kind list"
  sd_requires :: requirements
  sd_default_enabled :: bool
end
