(* ===== verification/Request.thy ===== *)
theory Request
  imports Model
begin

text \<open>
  Requests, their ids and the batch's responses (\<open>crates/sg-model/src/request.rs\<close>), and the
  \<open>Source\<close> trait (\<open>source.rs\<close>) as the record of its functions.
\<close>

unbundle bit_operations_syntax

section \<open>Requests\<close>

datatype request =
  ReadFile string
  | ReadDir string
  | Exec "string list"
  | Http string string "(string \<times> string) list"

abbreviation request_read :: "string \<Rightarrow> request" where "request_read \<equiv> ReadFile"
abbreviation request_read_dir :: "string \<Rightarrow> request" where "request_read_dir \<equiv> ReadDir"
abbreviation request_exec :: "string list \<Rightarrow> request" where "request_exec \<equiv> Exec"

definition request_get :: "string \<Rightarrow> request" where
  "request_get url = Http url ''GET'' []"

fun is_remote :: "request \<Rightarrow> bool" where
  "is_remote (Http _ _ _) \<longleftrightarrow> False"
| "is_remote _ \<longleftrightarrow> True"

text \<open>FNV-1a: the fold of \<open>feed\<close>, and the bytes \<open>id\<close> feeds for each kind of request.\<close>

definition fnv_offset :: u64 where "fnv_offset = 0xcbf29ce484222325"
definition fnv_prime :: u64 where "fnv_prime = 0x1000000001b3"

definition fnv_step :: "u64 \<Rightarrow> char \<Rightarrow> u64" where
  "fnv_step h b = (h XOR word_of_nat (byte b)) * fnv_prime"

definition feed :: "string \<Rightarrow> u64 \<Rightarrow> u64" where
  "feed bytes h = foldl fnv_step h bytes"

fun canonical :: "request \<Rightarrow> string" where
  "canonical (ReadFile path) = ''f'' @ [CHR 0x00] @ path"
| "canonical (ReadDir path) = ''d'' @ [CHR 0x00] @ path"
| "canonical (Exec argv) = ''x'' @ [CHR 0x00] @ concat (map (\<lambda>arg. arg @ [CHR 0x00]) argv)"
| "canonical (Http url meth headers) =
     ''h'' @ [CHR 0x00] @ meth @ url @ concat (map (\<lambda>(k, v). k @ v) headers)"

definition request_id :: "request \<Rightarrow> string" where
  "request_id r = hex16 (feed (canonical r) fnv_offset)"

section \<open>Responses\<close>

record response =
  exit_code :: i32
  rs_body :: string

definition response_ok :: "string \<Rightarrow> response" where
  "response_ok body = \<lparr>exit_code = 0, rs_body = body\<rparr>"

definition response_failed :: "i32 \<Rightarrow> response" where
  "response_failed code = \<lparr>exit_code = code, rs_body = []\<rparr>"

definition is_ok :: "response \<Rightarrow> bool" where
  "is_ok r \<longleftrightarrow> exit_code r = 0"

type_synonym responses = "(string, response) hmap"

definition responses_insert :: "string \<Rightarrow> response \<Rightarrow> responses \<Rightarrow> responses" where
  "responses_insert rid r self = hm_insert rid r self"

definition responses_get :: "responses \<Rightarrow> request \<Rightarrow> response option" where
  "responses_get self r = hm_get self (request_id r)"

definition responses_text :: "responses \<Rightarrow> request \<Rightarrow> string option" where
  "responses_text self r =
     (case hm_get self (request_id r) of
        Some x \<Rightarrow> if is_ok x then Some (rs_body x) else None
      | None \<Rightarrow> None)"

definition responses_collect :: "(string \<times> response) list \<Rightarrow> responses" where
  "responses_collect = hm_collect"

section \<open>Sources\<close>

type_synonym parse_result = "parse_error + unit"

record source =
  src_descriptor :: source_descriptor
  src_requests :: "target_ctx \<Rightarrow> request list"
  src_parse :: "target_ctx \<Rightarrow> responses \<Rightarrow> sample_sink \<Rightarrow> sample_sink \<times> parse_result"

section \<open>Ids do not collide by accident\<close>

text \<open>The multiplier is odd, so it has an inverse and one step of the hash loses nothing.\<close>

lemma fnv_prime_inverse: "fnv_prime * 0xb46dd957aff6957b = 1"
  by (simp add: fnv_prime_def)

lemma mult_fnv_prime_inj: "x * fnv_prime = y * fnv_prime \<longleftrightarrow> x = y"
proof
  assume "x * fnv_prime = y * fnv_prime"
  then have "x * (fnv_prime * 0xb46dd957aff6957b) = y * (fnv_prime * 0xb46dd957aff6957b)"
    by (simp only: mult.assoc [symmetric])
  then show "x = y" by (simp add: fnv_prime_inverse)
qed simp

lemma unat_word_byte: "unat (word_of_nat (byte a) :: u64) = byte a"
proof -
  have "byte a < 2 ^ 64" by (rule less_trans [OF nat_of_char_less_256]) simp
  then show ?thesis by (simp add: unat_of_nat)
qed

lemma word_byte_inj: "(word_of_nat (byte a) :: u64) = word_of_nat (byte b) \<longleftrightarrow> a = b"
  by (metis unat_word_byte of_char_eq_iff)

lemma xor_cancel: "h XOR k = h' XOR k \<longleftrightarrow> h = (h' :: u64)"
proof
  assume "h XOR k = h' XOR k"
  then have "(h XOR k) XOR k = (h' XOR k) XOR k" by simp
  then show "h = h'" by (simp add: xor.assoc)
qed simp

lemma fnv_step_inj_state [simp]: "fnv_step h b = fnv_step h' b \<longleftrightarrow> h = h'"
  by (simp add: fnv_step_def mult_fnv_prime_inj xor_cancel)

lemma fnv_step_inj_byte [simp]: "fnv_step h a = fnv_step h b \<longleftrightarrow> a = b"
  by (simp add: fnv_step_def mult_fnv_prime_inj xor.commute [of h] xor_cancel word_byte_inj)

lemma feed_inj [simp]: "feed s h = feed s h' \<longleftrightarrow> h = h'"
  by (induction s arbitrary: h h') (simp_all add: feed_def)

lemma feed_append: "feed (s @ t) h = feed t (feed s h)"
  by (simp add: feed_def)

lemma feed_one_byte: "feed (p @ a # t) h = feed (p @ b # t) h \<longleftrightarrow> a = b"
proof -
  have "feed (p @ x # t) h = feed t (fnv_step (feed p h) x)" for x by (simp add: feed_def)
  then show ?thesis by simp
qed

lemma byte_hex_digit: "m < 16 \<Longrightarrow> byte (hex_digit m) = (if m < 10 then 48 + m else 87 + m)"
  by (simp add: hex_digit_def)

lemma hex_digit_inj: "m < 16 \<Longrightarrow> n < 16 \<Longrightarrow> hex_digit m = hex_digit n \<Longrightarrow> m = n"
proof -
  assume mn: "m < 16" "n < 16" "hex_digit m = hex_digit n"
  have "byte (hex_digit m) = byte (hex_digit n)" by (simp only: mn(3))
  then show "m = n" unfolding byte_hex_digit [OF mn(1)] byte_hex_digit [OF mn(2)]
    using mn(1,2) by (simp only: split: if_splits)
qed

lemma digits16_inj:
  "\<forall>i<k. x div 16 ^ i mod 16 = y div 16 ^ i mod 16 \<Longrightarrow> x < 16 ^ k \<Longrightarrow> y < 16 ^ k \<Longrightarrow> x = (y :: nat)"
proof (induction k arbitrary: x y)
  case (Suc k)
  have "\<forall>i<k. x div 16 div 16 ^ i mod 16 = y div 16 div 16 ^ i mod 16"
    using Suc.prems(1) by (metis Suc_less_eq div_mult2_eq power_Suc)
  moreover have "x div 16 < 16 ^ k" "y div 16 < 16 ^ k"
    using Suc.prems(2,3) by (simp_all add: less_mult_imp_div_less mult.commute)
  ultimately have "x div 16 = y div 16" by (rule Suc.IH)
  moreover have "x mod 16 = y mod 16" using Suc.prems(1) by force
  ultimately show ?case by (metis div_mult_mod_eq)
qed simp

lemma hex16_inj [simp]: "hex16 v = hex16 w \<longleftrightarrow> v = w"
proof
  assume "hex16 v = hex16 w"
  then have "\<forall>i \<in> {0..<16}. hex_digit (unat v div 16 ^ i mod 16) = hex_digit (unat w div 16 ^ i mod 16)"
    by (simp only: hex16_def map_eq_conv set_rev set_upt)
  then have "\<forall>i<16. unat v div 16 ^ i mod 16 = unat w div 16 ^ i mod 16"
    using hex_digit_inj by simp
  moreover have "unat x < 16 ^ 16" for x :: u64
    using unsigned_less [of x, where 'a = nat] by simp
  ultimately show "v = w" by (metis digits16_inj unsigned_word_eqI)
qed simp

text \<open>
  The canonical encoding separates the remote requests whose arguments hold no NUL byte, which an
  argument of a program cannot.
\<close>

fun nul_free :: "request \<Rightarrow> bool" where
  "nul_free (Exec argv) \<longleftrightarrow> list_all (\<lambda>a. CHR 0x00 \<notin> set a) argv"
| "nul_free _ \<longleftrightarrow> True"

lemma nul_terminated_inj:
  assumes "list_all (\<lambda>a. CHR 0x00 \<notin> set a) xs" "list_all (\<lambda>a. CHR 0x00 \<notin> set a) ys"
    "concat (map (\<lambda>a. a @ [CHR 0x00]) xs) = concat (map (\<lambda>a. a @ [CHR 0x00]) ys)"
  shows "xs = ys"
  using assms
proof (induction xs arbitrary: ys)
  case Nil
  then show ?case by (cases ys) auto
next
  case (Cons x xs)
  then obtain y ys' where ys: "ys = y # ys'" by (cases ys) auto
  let ?enc = "\<lambda>zs. concat (map (\<lambda>a. a @ [CHR 0x00]) zs)"
  have "split_once (CHR 0x00) (x @ CHR 0x00 # ?enc xs) = split_once (CHR 0x00) (y @ CHR 0x00 # ?enc ys')"
    using Cons.prems(3) by (simp add: ys)
  then have "x = y \<and> ?enc xs = ?enc ys'"
    using Cons.prems(1,2) by (simp add: ys split_once_append)
  with Cons show ?case by (simp add: ys)
qed

lemma canonical_inj:
  "\<lbrakk>is_remote r; is_remote r'; nul_free r; nul_free r'; canonical r = canonical r'\<rbrakk> \<Longrightarrow> r = r'"
  by (cases r; cases r') (auto dest: nul_terminated_inj)

text \<open>Ids separate requests whenever the hash does.\<close>

lemma request_id_eq_iff:
  "request_id r = request_id r' \<longleftrightarrow> feed (canonical r) fnv_offset = feed (canonical r') fnv_offset"
  by (simp add: request_id_def)

definition hex_char :: "char \<Rightarrow> bool" where
  "hex_char c \<longleftrightarrow> is_digit c \<or> (97 \<le> byte c \<and> byte c \<le> 102)"

text \<open>
  a request's id, which is the dedup key and the frame marker, is always exactly sixteen
  characters, each a decimal digit or one of \<open>a\<close> to \<open>f\<close>: it holds no whitespace, no colon and no
  shell metacharacter.
\<close>

lemma request_id_shape: "length (request_id r) = 16 \<and> list_all hex_char (request_id r)"
  using hex16_chars by (auto simp: request_id_def length_hex16 list_all_iff hex_char_def)

text \<open>
  Two requests whose canonical encodings differ in exactly one byte never share an id,
  whatever comes before and after that byte: in particular a file and a directory request for one
  path, or the requests for two disks whose names differ in a digit, are never merged into one.
\<close>

theorem request_id_one_byte:
  assumes "canonical r = p @ a # t" "canonical r' = p @ b # t" "a \<noteq> b"
  shows "request_id r \<noteq> request_id r'"
  using assms by (simp add: request_id_eq_iff feed_one_byte)

theorem request_id_one_byte_witness:
  "request_id (ReadFile ''/proc'') \<noteq> request_id (ReadDir ''/proc'')"
  by (rule request_id_one_byte [of _ "[]" "CHR ''f''" "CHR 0x00 # ''/proc''" _ "CHR ''d''"]) simp_all

section \<open>Telling requests apart\<close>

text \<open>
  The lowest byte of the hash depends on the lowest byte of its state only, so two concrete
  requests are told apart by a fold over 8-bit words.
\<close>

definition low_step :: "8 word \<Rightarrow> char \<Rightarrow> 8 word" where
  "low_step h b = (h XOR word_of_nat (byte b)) * 0xb3"

definition low_byte :: "request \<Rightarrow> 8 word" where
  "low_byte r = foldl low_step 0x25 (canonical r)"

lemma take_bit_8_mult: "take_bit 8 (take_bit 64 x * take_bit 64 y) = take_bit 8 (x * y :: int)"
  using take_bit_mult [of 8 "take_bit 64 x" "take_bit 64 y"] take_bit_mult [of 8 x y] by simp

lemma ucast_mult_low: "(ucast (x * y) :: 8 word) = ucast x * ucast (y :: u64)"
  by transfer (simp add: take_bit_8_mult)

lemma ucast_of_nat_low: "(ucast (word_of_nat n :: u64) :: 8 word) = word_of_nat n"
  by transfer (simp add: min_def)

lemma fnv_prime_low: "(ucast fnv_prime :: 8 word) = 0xb3"
  by (simp add: fnv_prime_def)

lemma fnv_step_low: "(ucast (fnv_step h b) :: 8 word) = low_step (ucast h) b"
  by (simp only: fnv_step_def low_step_def ucast_mult_low unsigned_xor_eq ucast_of_nat_low fnv_prime_low)

lemma feed_low: "(ucast (feed s h) :: 8 word) = foldl low_step (ucast h) s"
  by (induction s arbitrary: h) (simp_all add: feed_def fnv_step_low)

lemma fnv_offset_low: "(ucast fnv_offset :: 8 word) = 0x25"
  unfolding fnv_offset_def by code_simp

lemma low_byte_feed: "low_byte r = ucast (feed (canonical r) fnv_offset)"
  by (simp add: low_byte_def feed_low fnv_offset_low)

lemma request_id_neq: "low_byte r \<noteq> low_byte r' \<Longrightarrow> request_id r \<noteq> request_id r'"
  by (auto simp: low_byte_feed request_id_eq_iff)

lemma distinct_request_ids: "distinct (map low_byte rs) \<Longrightarrow> distinct (map request_id rs)"
  by (induction rs) (auto simp: image_iff dest: request_id_neq)

end
