(* ===== verification/Quote.thy ===== *)
theory Quote
  imports Rust_Text
begin

text \<open>
  POSIX shell quoting (\<open>crates/sg-transport/src/quote.rs\<close>), with the rules by which \<open>/bin/sh\<close>
  splits a simple command into words as the specification it is held to.
\<close>

section \<open>The code\<close>

definition quote_char :: "char \<Rightarrow> string" where
  "quote_char ch = (if ch = CHR 39 then [CHR 39, CHR 92, CHR 39, CHR 39] else [ch])"

definition shell_quote :: "string \<Rightarrow> string" where
  "shell_quote s = CHR 39 # concat (map quote_char s) @ [CHR 39]"

definition shell_join :: "string list \<Rightarrow> string" where
  "shell_join argv = join '' '' (map shell_quote argv)"

section \<open>What the shell makes of a command line\<close>

text \<open>
  The quoting rules of the POSIX shell (XCU 2.2): a single quote opens a run that only the next
  single quote ends, a backslash outside quotes takes the next character as it is, and blanks
  separate words. \<open>None\<close> stands for everything that is not a simple command of literal words: an
  unquoted operator, expansion, glob, comment or newline, or an unclosed quote.
\<close>

definition sh_special :: "char \<Rightarrow> bool" where
  "sh_special c \<longleftrightarrow> c \<in> set ''|&;<>()$`\"*?[#~=%{}!'' \<or> c = nl"

datatype sh_state = Blank | Word string | Quoted string

fun sh_words :: "sh_state \<Rightarrow> string \<Rightarrow> string list option" where
  "sh_words Blank [] = Some []"
| "sh_words (Word w) [] = Some [w]"
| "sh_words (Quoted w) [] = None"
| "sh_words (Quoted w) (c # cs) =
     (if c = CHR 39 then sh_words (Word w) cs else sh_words (Quoted (w @ [c])) cs)"
| "sh_words st (c # cs) =
     (let w = (case st of Word w \<Rightarrow> w | _ \<Rightarrow> [])
      in if c = CHR 39 then sh_words (Quoted w) cs
         else if c = CHR 92 then
           (case cs of [] \<Rightarrow> None
            | d # ds \<Rightarrow> if d = nl then None else sh_words (Word (w @ [d])) ds)
         else if c = CHR 32 \<or> c = CHR 9 then
           (case st of Word w \<Rightarrow> map_option ((#) w) (sh_words Blank cs)
            | _ \<Rightarrow> sh_words Blank cs)
         else if sh_special c then None
         else sh_words (Word (w @ [c])) cs)"

abbreviation sh_split :: "string \<Rightarrow> string list option" where
  "sh_split \<equiv> sh_words Blank"

section \<open>Quoting is undone by the shell\<close>

lemma sh_words_quoted:
  "sh_words (Quoted w) (concat (map quote_char s) @ CHR 39 # t) = sh_words (Word (w @ s)) t"
  by (induction s arbitrary: w) (auto simp: quote_char_def)

lemma sh_words_open: "sh_words Blank (CHR 39 # cs) = sh_words (Quoted []) cs"
  by simp

lemma sh_words_shell_quote: "sh_words Blank (shell_quote s @ t) = sh_words (Word s) t"
  by (simp add: shell_quote_def sh_words_quoted)

text \<open>
  C4: whatever bytes the arguments hold (quotes, semicolons, dollar signs, newlines), the shell
  reads the joined command line as exactly the arguments that were given, so no argument can
  break out into shell syntax.
\<close>

theorem shell_join_split: "sh_split (shell_join argv) = Some argv"
proof (induction argv)
  case (Cons a as)
  then show ?case
    by (cases as) (use sh_words_shell_quote [of a "[]"] in
        \<open>simp_all add: shell_join_def sh_words_shell_quote sh_special_def\<close>)
qed (simp add: shell_join_def)

text \<open>A command word of plain letters before the quoted arguments.\<close>

definition sh_plain :: "string \<Rightarrow> bool" where
  "sh_plain w \<longleftrightarrow> list_all (\<lambda>c. is_digit c \<or> 97 \<le> byte c \<and> byte c \<le> 122 \<or> c = CHR ''-'') w"

lemma sh_words_plain:
  "sh_plain v \<Longrightarrow> sh_words (Word w) (v @ CHR 32 # t) = map_option ((#) (w @ v)) (sh_words Blank t)"
proof (induction v arbitrary: w)
  case (Cons c v)
  then have "c \<noteq> CHR 39 \<and> c \<noteq> CHR 92 \<and> c \<noteq> CHR 32 \<and> c \<noteq> CHR 9 \<and> \<not> sh_special c"
    by (auto simp: sh_plain_def is_digit_def sh_special_def)
  with Cons show ?case by (simp add: sh_plain_def)
qed simp

lemma sh_split_plain:
  "sh_plain (c # v) \<Longrightarrow> sh_split ((c # v) @ CHR 32 # t) = map_option ((#) (c # v)) (sh_split t)"
proof -
  assume p: "sh_plain (c # v)"
  then have "c \<noteq> CHR 39 \<and> c \<noteq> CHR 92 \<and> c \<noteq> CHR 32 \<and> c \<noteq> CHR 9 \<and> \<not> sh_special c"
    by (auto simp: sh_plain_def is_digit_def sh_special_def)
  with p sh_words_plain [of v "[c]" t] show ?thesis by (simp add: sh_plain_def)
qed

end
