(* ===== verification/Frame.thy ===== *)
theory Frame
  imports Request Quote
begin

text \<open>
  The batch wire protocol (\<open>crates/sg-transport/src/frame.rs\<close>): the script a batch of requests is
  compiled to and the parser of the framed reply. \<open>cursor\<close> is the part of the stream not yet read.
\<close>

section \<open>Markers\<close>

record framing =
  nonce :: string

definition framing_new :: "string \<Rightarrow> framing" where
  "framing_new n = \<lparr>nonce = n\<rparr>"

definition begin_marker :: "framing \<Rightarrow> string" where
  "begin_marker self = nl # nonce self @ ''B''"

definition frame_begin :: "framing \<Rightarrow> string \<Rightarrow> string" where
  "frame_begin self rid = nl # nonce self @ ''B'' @ rid @ [nl]"

definition end_prefix :: "framing \<Rightarrow> string \<Rightarrow> string" where
  "end_prefix self rid = nl # nonce self @ ''E'' @ rid @ '' ''"

definition terminator :: "framing \<Rightarrow> string" where
  "terminator self = nl # nonce self @ ''Z'' @ [nl]"

section \<open>Encoding a batch\<close>

fun command_for :: "request \<Rightarrow> string option" where
  "command_for (ReadFile path) = Some (''cat -- '' @ shell_quote path)"
| "command_for (ReadDir path) = Some (''ls -1 -- '' @ shell_quote path)"
| "command_for (Exec argv) = (if argv \<noteq> [] then Some (shell_join argv) else None)"
| "command_for (Http _ _ _) = None"

definition frame_script :: "framing \<Rightarrow> string \<Rightarrow> string \<Rightarrow> string" where
  "frame_script self rid command =
     ''printf '' @ shell_quote (frame_begin self rid) @ [nl] @
     ''{ '' @ command @ ''; } </dev/null 2>/dev/null'' @ [nl] @
     ''__sg=$?'' @ [nl] @
     ''printf '' @ shell_quote (end_prefix self rid @ ''%s'' @ [nl]) @ '' \"$__sg\"'' @ [nl]"

fun encode_loop :: "framing \<Rightarrow> request list \<Rightarrow> string \<Rightarrow> string list \<Rightarrow> string \<times> string list" where
  "encode_loop self [] script ids = (script, ids)"
| "encode_loop self (r # rs) script ids =
     (if request_id r \<in> set ids then encode_loop self rs script ids
      else (case command_for r of
              None \<Rightarrow> encode_loop self rs script ids
            | Some command \<Rightarrow>
                encode_loop self rs (script @ frame_script self (request_id r) command)
                  (ids @ [request_id r])))"

definition encode :: "framing \<Rightarrow> request list \<Rightarrow> string \<times> string list" where
  "encode self requests =
     (let (script, ids) = encode_loop self requests [] []
      in (script @ ''printf '' @ shell_quote (terminator self) @ [nl], ids))"

section \<open>Decoding the reply\<close>

lemma split_once_length: "split_once d s = Some (a, b) \<Longrightarrow> length b < length s"
  by (simp add: split_once_Some)

function decode_loop :: "framing \<Rightarrow> string \<Rightarrow> responses \<Rightarrow> responses" where
  "decode_loop self stream acc =
     (case find_str (begin_marker self) stream of
        None \<Rightarrow> acc
      | Some rel \<Rightarrow>
          (case split_once nl (drop (rel + length (begin_marker self)) stream) of
             None \<Rightarrow> acc
           | Some (rid, rest) \<Rightarrow>
               (case find_str (end_prefix self rid) rest of
                  None \<Rightarrow> decode_loop self rest acc
                | Some end_rel \<Rightarrow>
                    (case split_once nl (drop (end_rel + length (end_prefix self rid)) rest) of
                       None \<Rightarrow> acc
                     | Some (code, rest') \<Rightarrow>
                         decode_loop self rest'
                           (responses_insert rid
                              \<lparr>exit_code = (case parse_i32 (trim code) of Some c \<Rightarrow> c | None \<Rightarrow> -1),
                               rs_body = take end_rel rest\<rparr> acc)))))"
  by pat_completeness auto

termination
proof (relation "measure (\<lambda>(_, stream, _). length stream)", goal_cases)
  case (2 self stream acc rel p rid rest)
  then show ?case using split_once_length by fastforce
next
  case (3 self stream acc rel p rid rest end_rel q code rest')
  then have "length rest < length stream" "length rest' < length rest"
    using split_once_length by fastforce+
  then show ?case by simp
qed simp

declare decode_loop.simps [simp del]

definition decode :: "framing \<Rightarrow> string \<Rightarrow> responses" where
  "decode self stream = decode_loop self stream []"

section \<open>The script\<close>

text \<open>The requests that get a frame: the first with each id, of those the host can serve.\<close>

fun first_by_id :: "string set \<Rightarrow> request list \<Rightarrow> request list" where
  "first_by_id seen [] = []"
| "first_by_id seen (r # rs) =
     (if request_id r \<in> seen \<or> command_for r = None then first_by_id seen rs
      else r # first_by_id (insert (request_id r) seen) rs)"

lemma encode_loop_eq:
  "encode_loop self rs script ids =
     (script @ concat (map (\<lambda>r. frame_script self (request_id r) (the (command_for r)))
        (first_by_id (set ids) rs)),
      ids @ map request_id (first_by_id (set ids) rs))"
  by (induction rs arbitrary: script ids) (auto split: option.splits)

interpretation batch_ids: first_seen request_id "\<lambda>r. command_for r \<noteq> None" first_by_id
  by unfold_locales simp_all

lemmas first_by_id_distinct = batch_ids.distinct_keys
lemmas first_by_id_ids = batch_ids.keys
lemmas first_by_id_subset = batch_ids.members

text \<open>The servable requests are the remote ones with something to run.\<close>

lemma command_for_None: "command_for r = None \<longleftrightarrow> \<not> is_remote r \<or> r = Exec []"
  by (cases r) auto

section \<open>What a well-behaved shell sends back\<close>

text \<open>A frame as the script prints it: the body is the command's raw output.\<close>

definition emit_frame :: "framing \<Rightarrow> string \<times> i32 \<times> string \<Rightarrow> string" where
  "emit_frame self = (\<lambda>(rid, code, body).
     frame_begin self rid @ body @ end_prefix self rid @ show_int (sint code) @ [nl])"

definition emit :: "framing \<Rightarrow> (string \<times> i32 \<times> string) list \<Rightarrow> string" where
  "emit self frames = concat (map (emit_frame self) frames) @ terminator self"

text \<open>Text in which no marker begins.\<close>

definition quiet :: "framing \<Rightarrow> string \<Rightarrow> bool" where
  "quiet self s \<longleftrightarrow> \<not> contains (nl # nonce self) s"

definition nonce_ok :: "framing \<Rightarrow> bool" where
  "nonce_ok self \<longleftrightarrow> nl \<notin> set (nonce self)"

lemma quiet_no_marker:
  assumes "quiet self s" "nonce_ok self" "j < length s" "t = [] \<or> hd t = nl"
  shows "\<not> prefix (nl # nonce self @ p) (drop j s @ t)"
proof
  let ?m = "nl # nonce self @ p" and ?u = "drop j s"
  assume p: "prefix ?m (?u @ t)"
  show False
  proof (cases "length (nonce self) < length ?u")
    case True
    have "prefix (nl # nonce self) ?m" by simp
    then have "prefix (nl # nonce self) (?u @ t)" using p by (rule prefix_order.trans)
    then have "prefix (nl # nonce self) ?u"
      by (rule prefix_length_prefix) (use True in simp_all)
    then have "\<exists>k \<le> length s. prefix (nl # nonce self) (drop k s)"
      using assms(3) by (intro exI [of _ j]) simp
    then have "contains (nl # nonce self) s" by (rule contains_iff [THEN iffD2])
    with assms(1) show False unfolding quiet_def by blast
  next
    case False
    obtain n where n: "length ?u = Suc n" using assms(3) by (cases "length ?u") simp_all
    with False have n': "n < length (nonce self)" by simp
    obtain r where r: "?u @ t = ?m @ r" using p by (elim prefixE)
    then have "length ?u + length t = length ?m + length r" by (metis length_append)
    then have t: "t \<noteq> []" using n n' by (cases t) simp_all
    have "(?u @ t) ! length ?u = hd t" using t by (simp add: nth_append hd_conv_nth)
    then have "(?m @ r) ! Suc n = nl" using assms(4) t unfolding r n by simp
    then have "nonce self ! n = nl" using n' by (simp add: nth_append)
    then show False using assms(2) nth_mem [OF n'] by (simp add: nonce_ok_def)
  qed
qed

lemma find_marker:
  assumes "quiet self s" "nonce_ok self"
  shows "find_str (nl # nonce self @ p) (s @ nl # nonce self @ p @ t) = Some (length s)"
proof (rule find_strI)
  fix j
  assume "j < length s"
  with quiet_no_marker [OF assms this, of "nl # nonce self @ p @ t" p]
  show "\<not> prefix (nl # nonce self @ p) (drop j (s @ nl # nonce self @ p @ t))" by simp
qed simp_all

lemma decode_frame:
  assumes "quiet self s" "quiet self body" "nonce_ok self" "nl \<notin> set rid"
  shows "decode_loop self (s @ emit_frame self (rid, code, body) @ t) acc =
           decode_loop self t (responses_insert rid \<lparr>exit_code = code, rs_body = body\<rparr> acc)"
proof -
  let ?code = "show_int (sint code)"
  have ascii: "c \<in> set ?code \<Longrightarrow> is_digit c \<or> c = CHR ''-''" for c
    using show_nat_ascii by (auto simp: show_int_def split: if_splits)
  then have nonl: "nl \<notin> set ?code" by (fastforce simp: is_digit_def)
  have "ws_free ?code"
    using ascii by (intro ws_free_ascii) (fastforce simp: is_digit_def is_ascii_ws_def)
  then have trim: "trim ?code = ?code" by (rule trim_ws_free)
  have 1: "find_str (begin_marker self) (s @ emit_frame self (rid, code, body) @ t) = Some (length s)"
    using find_marker [OF assms(1,3), of "''B''"]
    by (simp add: begin_marker_def emit_frame_def frame_begin_def)
  have 2: "split_once nl (drop (length s + length (begin_marker self)) (s @ emit_frame self (rid, code, body) @ t))
      = Some (rid, body @ end_prefix self rid @ ?code @ nl # t)"
    using assms(4) by (simp add: begin_marker_def emit_frame_def frame_begin_def split_once_append)
  have 3: "find_str (end_prefix self rid) (body @ end_prefix self rid @ ?code @ nl # t) = Some (length body)"
    using find_marker [OF assms(2,3), of "''E'' @ rid @ '' ''" "?code @ nl # t"]
    by (simp add: end_prefix_def)
  have 4: "split_once nl (drop (length body + length (end_prefix self rid))
      (body @ end_prefix self rid @ ?code @ nl # t)) = Some (?code, t)"
    using nonl by (simp add: split_once_append)
  show ?thesis
    by (subst decode_loop.simps) (simp add: 1 2 3 4 trim parse_i32_show del: drop_append)
qed

lemma no_late_marker:
  assumes "nl \<notin> set xs" "q \<noteq> []"
  shows "\<not> prefix (nl # q) (drop m (xs @ [nl]))"
  using assms(1)
proof (induction xs arbitrary: m)
  case Nil
  then show ?case using assms(2) by (cases m) (simp_all add: prefix_Nil)
next
  case (Cons x xs)
  then show ?case by (cases m) auto
qed

lemma decode_terminator:
  assumes "quiet self s" "nonce_ok self"
  shows "decode_loop self (s @ terminator self) acc = acc"
proof -
  let ?s = "s @ terminator self" and ?q = "nonce self @ ''Z''"
  have nlq: "nl \<notin> set ?q" using assms(2) by (simp add: nonce_ok_def)
  have "\<not> prefix (begin_marker self) (drop j ?s)" for j
  proof (cases "j < length s")
    case True
    then show ?thesis
      using quiet_no_marker [OF assms True, of "terminator self" "''B''"]
      by (simp add: begin_marker_def terminator_def)
  next
    case False
    then have d: "drop j ?s = drop (j - length s) (nl # ?q @ [nl])"
      by (simp add: terminator_def)
    show ?thesis
    proof (cases "j - length s")
      case 0
      then show ?thesis unfolding d by (simp add: begin_marker_def)
    next
      case (Suc m)
      then show ?thesis
        using no_late_marker [OF nlq, of "nonce self @ ''B''" m] unfolding d begin_marker_def by simp
    qed
  qed
  then have "find_str (begin_marker self) ?s = None"
    using find_str_Some by (cases "find_str (begin_marker self) ?s") blast+
  then show ?thesis by (simp add: decode_loop.simps)
qed

lemma decode_frames:
  assumes "quiet self s" "nonce_ok self"
    "\<forall>(rid, code, body) \<in> set frames. nl \<notin> set rid \<and> quiet self body"
  shows "decode_loop self (s @ emit self frames) acc =
           fold (\<lambda>(rid, code, body). responses_insert rid \<lparr>exit_code = code, rs_body = body\<rparr>) frames acc"
  using assms
proof (induction frames arbitrary: s acc)
  case Nil
  then show ?case by (simp add: emit_def decode_terminator)
next
  case (Cons f frames)
  obtain rid code body where f: "f = (rid, code, body)" by (cases f)
  have "decode_loop self (s @ emit_frame self (rid, code, body) @ [] @ emit self frames) acc =
      decode_loop self ([] @ emit self frames) (responses_insert rid \<lparr>exit_code = code, rs_body = body\<rparr> acc)"
    using Cons.prems by (intro decode_frame [THEN trans]) (auto simp: f)
  moreover have "quiet self []" by (simp add: quiet_def contains_def)
  ultimately show ?case using Cons.IH [of "[]"] Cons.prems by (simp add: f emit_def)
qed

lemma fold_insert_get:
  "hm_get (fold (\<lambda>(rid, code, body). responses_insert rid \<lparr>exit_code = code, rs_body = body\<rparr>) frames acc) rid =
     (case hm_get (rev frames) rid of
        Some (code, body) \<Rightarrow> Some \<lparr>exit_code = code, rs_body = body\<rparr> | None \<Rightarrow> hm_get acc rid)"
  by (induction frames arbitrary: acc)
    (auto simp: responses_insert_def map_simps map_add_def split: option.splits)

section \<open>Properties\<close>

text \<open>
  The script of a batch runs each distinct servable request exactly once, in the order of
  first appearance, reports exactly those ids without repetition, and always ends by printing the
  terminator, also when there is nothing to run.
\<close>

theorem encode_spec:
  "encode self requests =
     (concat (map (\<lambda>r. frame_script self (request_id r) (the (command_for r)))
        (first_by_id {} requests)) @ ''printf '' @ shell_quote (terminator self) @ [nl],
      map request_id (first_by_id {} requests))
   \<and> distinct (snd (encode self requests))
   \<and> set (snd (encode self requests)) =
       {request_id r | r. r \<in> set requests \<and> is_remote r \<and> r \<noteq> Exec []}"
proof -
  have "encode self requests =
     (concat (map (\<lambda>r. frame_script self (request_id r) (the (command_for r)))
        (first_by_id {} requests)) @ ''printf '' @ shell_quote (terminator self) @ [nl],
      map request_id (first_by_id {} requests))"
    by (simp add: encode_def encode_loop_eq)
  then show ?thesis
    using first_by_id_distinct [of "{}" requests] first_by_id_ids [of "{}" requests]
    by (simp add: command_for_None)
qed

text \<open>
  C5: decoding what a shell sends back recovers every frame exactly, whatever came before the
  first marker: the exit code and the body, byte for byte, of the last frame with each id. No
  body can end its frame early or forge another one as long as it does not contain the
  connection's nonce at the start of a line.
\<close>

theorem decode_emit:
  assumes "nonce_ok self" "quiet self junk"
    "\<forall>(rid, code, body) \<in> set frames. nl \<notin> set rid \<and> quiet self body"
  shows "hm_get (decode self (junk @ emit self frames)) rid =
           map_option (\<lambda>(code, body). \<lparr>exit_code = code, rs_body = body\<rparr>) (map_of (rev frames) rid)"
  using decode_frames [OF assms(2,1,3), of "[]"]
  by (simp add: decode_def fold_insert_get split: option.splits)

theorem decode_emit_witness:
  "hm_get (decode \<lparr>nonce = ''N''\<rparr> (''junk'' @ emit \<lparr>nonce = ''N''\<rparr>
     [(''a'', 0, [CHR 10, CHR ''M'']), (''b'', 1, [])])) ''a'' =
   Some \<lparr>exit_code = 0, rs_body = [CHR 10, CHR ''M'']\<rparr>"
proof -
  let ?f = "\<lparr>nonce = ''N''\<rparr>"
  have "quiet ?f ''junk''" "quiet ?f [CHR 10, CHR ''M'']" "quiet ?f []"
    by (simp_all add: quiet_def contains_def)
  then show ?thesis
    by (subst decode_emit) (simp_all add: nonce_ok_def)
qed

end
