(* ===== verification/Shell.thy ===== *)
theory Shell
  imports Frame
begin

text \<open>
  The other end of the wire: what a POSIX \<open>/bin/sh\<close> does with the script \<open>Framing::encode\<close>
  writes. This is a specification of the documented shell, cut down to the constructs the script
  uses; anything else makes it \<open>None\<close>. The programs of the host are an argument: \<open>run argv\<close> is
  the standard output and exit status of a program.
\<close>

section \<open>Tokens\<close>

text \<open>
  A word keeps which characters were quoted, and the parameters \<open>"$name"\<close> (quoted) and \<open>$?\<close>.
\<close>

datatype wch = Q char | U char | QP string | UP string
datatype tok = TWord "wch list" | TNl | TSemi | TRedir nat

datatype lex_state =
  LO "wch list option" | LS "wch list" | LD "wch list" | LV "wch list" string
  | LE "wch list" | LP "wch list"

definition alnum :: "char \<Rightarrow> bool" where
  "alnum c \<longleftrightarrow> is_digit c \<or> 97 \<le> byte c \<and> byte c \<le> 122 \<or> 65 \<le> byte c \<and> byte c \<le> 90
     \<or> c = CHR ''_''"

definition plain_char :: "char \<Rightarrow> bool" where
  "plain_char c \<longleftrightarrow> alnum c \<or> c \<in> set ''-/.={}''"

definition flush :: "wch list option \<Rightarrow> tok list" where
  "flush w = (case w of None \<Rightarrow> [] | Some u \<Rightarrow> [TWord u])"

definition word_so_far :: "wch list option \<Rightarrow> wch list" where
  "word_so_far w = (case w of None \<Rightarrow> [] | Some u \<Rightarrow> u)"

text \<open>An operator \<open>>\<close>, with the descriptor a number right before it names.\<close>

definition redirect_out :: "wch list option \<Rightarrow> tok list" where
  "redirect_out w = (if w = Some [U (CHR ''2'')] then [TRedir 2] else flush w @ [TRedir 1])"

fun lex_step :: "lex_state \<Rightarrow> char \<Rightarrow> (tok list \<times> lex_state) option" where
  "lex_step (LO w) c =
     (if c = CHR 32 \<or> c = CHR 9 then Some (flush w, LO None)
      else if c = nl then Some (flush w @ [TNl], LO None)
      else if c = CHR 39 then Some ([], LS (word_so_far w))
      else if c = CHR 34 then Some ([], LD (word_so_far w))
      else if c = CHR 92 then Some ([], LE (word_so_far w))
      else if c = CHR ''$'' then Some ([], LP (word_so_far w))
      else if c = CHR '';'' then Some (flush w @ [TSemi], LO None)
      else if c = CHR ''<'' then Some (flush w @ [TRedir 0], LO None)
      else if c = CHR ''>'' then Some (redirect_out w, LO None)
      else if plain_char c then Some ([], LO (Some (word_so_far w @ [U c])))
      else None)"
| "lex_step (LS w) c = (if c = CHR 39 then Some ([], LO (Some w)) else Some ([], LS (w @ [Q c])))"
| "lex_step (LD w) c =
     (if c = CHR 34 then Some ([], LO (Some w))
      else if c = CHR ''$'' then Some ([], LV w [])
      else if c = CHR 92 \<or> c = CHR 96 then None
      else Some ([], LD (w @ [Q c])))"
| "lex_step (LV w n) c =
     (if alnum c then Some ([], LV w (n @ [c]))
      else if c = CHR 34 \<and> n \<noteq> [] then Some ([], LO (Some (w @ [QP n])))
      else None)"
| "lex_step (LE w) c = (if c = nl then None else Some ([], LO (Some (w @ [Q c]))))"
| "lex_step (LP w) c = (if c = CHR ''?'' then Some ([], LO (Some (w @ [UP ''?'']))) else None)"

fun lex_run :: "lex_state \<Rightarrow> string \<Rightarrow> (tok list \<times> lex_state) option" where
  "lex_run st [] = Some ([], st)"
| "lex_run st (c # cs) =
     (case lex_step st c of
        None \<Rightarrow> None
      | Some (ts, st') \<Rightarrow> map_option (\<lambda>(us, st''). (ts @ us, st'')) (lex_run st' cs))"

section \<open>Execution\<close>

record sh_env =
  sh_status :: nat
  sh_vars :: "(string, string) hmap"

fun expand :: "sh_env \<Rightarrow> wch \<Rightarrow> string" where
  "expand env (Q c) = [c]"
| "expand env (U c) = [c]"
| "expand env (QP x) = (case hm_get (sh_vars env) x of Some v \<Rightarrow> v | None \<Rightarrow> [])"
| "expand env (UP x) = show_nat (sh_status env)"

definition expand_word :: "sh_env \<Rightarrow> wch list \<Rightarrow> string" where
  "expand_word env w = concat (map (expand env) w)"

text \<open>The words of a command; an unquoted \<open>=\<close> or parameter is left out of the fragment.\<close>

fun literal :: "wch \<Rightarrow> bool" where
  "literal (Q c) \<longleftrightarrow> True"
| "literal (U c) \<longleftrightarrow> c \<noteq> CHR ''=''"
| "literal (QP x) \<longleftrightarrow> True"
| "literal (UP x) \<longleftrightarrow> False"

fun command_words :: "sh_env \<Rightarrow> tok list \<Rightarrow> string list option" where
  "command_words env [] = Some []"
| "command_words env (TWord w # ts) =
     (if list_all literal w
      then map_option ((#) (expand_word env w)) (command_words env ts) else None)"
| "command_words env (_ # ts) = None"

text \<open>\<open>printf\<close> with one string argument at most: \<open>%s\<close> takes it.\<close>

fun printf :: "string \<Rightarrow> string list \<Rightarrow> string option" where
  "printf [] args = (if args = [] then Some [] else None)"
| "printf (c # cs) args =
     (if c = CHR 92 then None
      else if c = CHR ''%'' then
        (case (cs, args) of
           (d # ds, a # as) \<Rightarrow> if d = CHR ''s'' then map_option ((@) a) (printf ds as) else None
         | _ \<Rightarrow> None)
      else map_option ((#) c) (printf cs args))"

definition unquoted :: "string \<Rightarrow> wch list" where
  "unquoted s = map U s"

definition redirections :: "tok list" where
  "redirections =
     [TSemi, TWord (unquoted ''}''), TRedir 0, TWord (unquoted ''/dev/null''), TRedir 2,
      TWord (unquoted ''/dev/null'')]"

fun is_word :: "tok \<Rightarrow> bool" where
  "is_word (TWord w) \<longleftrightarrow> True"
| "is_word _ \<longleftrightarrow> False"

text \<open>
  One line: an assignment of the status, a brace group with standard input and error at
  \<open>/dev/null\<close>, or \<open>printf\<close>. The result is the output and the environment after it.
\<close>

definition exec_line ::
  "(string list \<Rightarrow> string \<times> nat) \<Rightarrow> sh_env \<Rightarrow> tok list \<Rightarrow> (string \<times> sh_env) option" where
  "exec_line run env ts =
     (if ts = [TWord (unquoted ''__sg='' @ [UP ''?''])] then
        Some ([], env\<lparr>sh_vars := hm_insert ''__sg'' (show_nat (sh_status env)) (sh_vars env),
                      sh_status := 0\<rparr>)
      else if ts \<noteq> [] \<and> hd ts = TWord (unquoted ''{'') then
        (if dropWhile is_word (tl ts) = redirections then
           (case command_words env (takeWhile is_word (tl ts)) of
              Some (w # ws) \<Rightarrow>
                (case run (w # ws) of (out, code) \<Rightarrow> Some (out, env\<lparr>sh_status := code\<rparr>))
            | _ \<Rightarrow> None)
         else None)
      else
        (case command_words env ts of
           Some (w # fmt # args) \<Rightarrow>
             if w = ''printf'' then
               map_option (\<lambda>out. (out, env\<lparr>sh_status := 0\<rparr>)) (printf fmt args)
             else None
         | _ \<Rightarrow> None))"

text \<open>The lines of a script, each ended by a newline.\<close>

fun exec_lines ::
  "(string list \<Rightarrow> string \<times> nat) \<Rightarrow> sh_env \<Rightarrow> tok list \<Rightarrow> tok list \<Rightarrow> string option" where
  "exec_lines run env line [] = (if line = [] then Some [] else None)"
| "exec_lines run env line (t # ts) =
     (if t = TNl then
        (case exec_line run env line of
           None \<Rightarrow> None
         | Some (out, env') \<Rightarrow> map_option ((@) out) (exec_lines run env' [] ts))
      else exec_lines run env (line @ [t]) ts)"

definition sh_run :: "(string list \<Rightarrow> string \<times> nat) \<Rightarrow> string \<Rightarrow> string option" where
  "sh_run run script =
     (case lex_run (LO None) script of
        Some (ts, LO None) \<Rightarrow> exec_lines run \<lparr>sh_status = 0, sh_vars = []\<rparr> [] ts
      | _ \<Rightarrow> None)"

section \<open>Lexing the script\<close>

lemma lex_run_append:
  "lex_run st (s @ t) =
     (case lex_run st s of
        None \<Rightarrow> None
      | Some (ts, st') \<Rightarrow> map_option (\<lambda>(us, st''). (ts @ us, st'')) (lex_run st' t))"
proof (induction s arbitrary: st)
  case Nil
  then show ?case by (cases "lex_run st t") auto
next
  case (Cons c s)
  then show ?case by (auto split: option.splits simp: map_option_case)
qed

lemma lex_run_quoted:
  "lex_run (LS w) (concat (map quote_char s) @ [CHR 39]) = Some ([], LO (Some (w @ map Q s)))"
  by (induction s arbitrary: w) (auto simp: quote_char_def word_so_far_def)

lemma lex_run_shell_quote:
  "lex_run (LO w) (shell_quote s) = Some ([], LO (Some (word_so_far w @ map Q s)))"
  using lex_run_quoted by (simp add: shell_quote_def)


lemma lex_const:
  "lex_run (LO None) ''printf '' = Some ([TWord (unquoted ''printf'')], LO None)"
  "lex_run (LO None) ''{ '' = Some ([TWord (unquoted ''{'')], LO None)"
  "lex_run (LO (Some w)) (''; } </dev/null 2>/dev/null'' @ [nl]) =
     Some (TWord w # redirections @ [TNl], LO None)"
  "lex_run (LO None) (''__sg=$?'' @ [nl]) =
     Some ([TWord (unquoted ''__sg='' @ [UP ''?'']), TNl], LO None)"
  "lex_run (LO (Some w)) ('' \"$__sg\"'' @ [nl]) = Some ([TWord w, TWord [QP ''__sg''], TNl], LO None)"
  "lex_run (LO (Some w)) [nl] = Some ([TWord w, TNl], LO None)"
  "lex_run (LO (Some w)) '' '' = Some ([TWord w], LO None)"
  by (simp_all add: unquoted_def flush_def redirect_out_def plain_char_def alnum_def is_digit_def
      word_so_far_def redirections_def)

text \<open>The arguments a request runs with, and the words its command is lexed to.\<close>

fun argv_of :: "request \<Rightarrow> string list" where
  "argv_of (ReadFile path) = [''cat'', ''--'', path]"
| "argv_of (ReadDir path) = [''ls'', ''-1'', ''--'', path]"
| "argv_of (Exec argv) = argv"
| "argv_of (Http _ _ _) = []"

fun words_of :: "request \<Rightarrow> wch list list" where
  "words_of (ReadFile path) = [unquoted ''cat'', unquoted ''--'', map Q path]"
| "words_of (ReadDir path) = [unquoted ''ls'', unquoted ''-1'', unquoted ''--'', map Q path]"
| "words_of (Exec argv) = map (map Q) argv"
| "words_of (Http _ _ _) = []"

lemma expand_word_Q [simp]: "expand_word env (map Q s) = s"
  by (induction s) (auto simp: expand_word_def)

lemma expand_word_unquoted [simp]: "expand_word env (unquoted s) = s"
  by (induction s) (auto simp: expand_word_def unquoted_def)

lemma lex_run_blank:
  "lex_run (LO (Some w)) (CHR 32 # s) =
     map_option (\<lambda>(us, st). (TWord w # us, st)) (lex_run (LO None) s)"
  by (simp add: flush_def)

lemma lex_run_join:
  "argv \<noteq> [] \<Longrightarrow> lex_run (LO None) (shell_join argv) =
     Some (map TWord (map (map Q) (butlast argv)), LO (Some (map Q (last argv))))"
proof (induction argv)
  case (Cons a as)
  show ?case
  proof (cases as)
    case Nil
    then show ?thesis by (simp add: shell_join_def lex_run_shell_quote word_so_far_def)
  next
    case (Cons b bs)
    then have "shell_join (a # as) = shell_quote a @ '' '' @ shell_join as"
      by (simp add: shell_join_def)
    with Cons Cons.IH show ?thesis
      by (simp add: lex_run_append lex_run_shell_quote lex_run_blank word_so_far_def
          del: lex_run.simps lex_step.simps)
  qed
qed simp

lemma lex_run_command:
  "command_for r = Some cmd \<Longrightarrow> words_of r \<noteq> [] \<and>
     lex_run (LO None) cmd = Some (map TWord (butlast (words_of r)), LO (Some (last (words_of r))))"
proof (cases r)
  case (ReadFile path)
  assume "command_for r = Some cmd"
  moreover have "lex_run (LO None) ''cat -- '' = Some (map TWord [unquoted ''cat'', unquoted ''--''], LO None)"
    by (simp add: unquoted_def flush_def plain_char_def alnum_def is_digit_def word_so_far_def)
  ultimately show ?thesis using ReadFile lex_run_append [of "LO None" "''cat -- ''" "shell_quote path"]
    by (auto simp: lex_run_shell_quote word_so_far_def simp del: lex_run.simps lex_step.simps)
next
  case (ReadDir path)
  assume "command_for r = Some cmd"
  moreover have "lex_run (LO None) ''ls -1 -- '' =
      Some (map TWord [unquoted ''ls'', unquoted ''-1'', unquoted ''--''], LO None)"
    by (simp add: unquoted_def flush_def plain_char_def alnum_def is_digit_def word_so_far_def)
  ultimately show ?thesis using ReadDir lex_run_append [of "LO None" "''ls -1 -- ''" "shell_quote path"]
    by (auto simp: lex_run_shell_quote word_so_far_def simp del: lex_run.simps lex_step.simps)
next
  case (Exec argv)
  assume "command_for r = Some cmd"
  then show ?thesis using Exec lex_run_join [of argv]
    by (auto simp: last_map map_butlast simp del: lex_run.simps lex_step.simps split: if_splits)
qed simp

text \<open>The tokens of one frame.\<close>

definition frame_tokens :: "framing \<Rightarrow> request \<Rightarrow> tok list" where
  "frame_tokens self r =
     [TWord (unquoted ''printf''), TWord (map Q (frame_begin self (request_id r))), TNl] @
     (TWord (unquoted ''{'') # map TWord (words_of r) @ redirections @ [TNl]) @
     [TWord (unquoted ''__sg='' @ [UP ''?'']), TNl] @
     [TWord (unquoted ''printf''),
      TWord (map Q (end_prefix self (request_id r) @ ''%s'' @ [nl])), TWord [QP ''__sg''], TNl]"

lemma lex_run_seq:
  "lex_run st s = Some (ts, st') \<Longrightarrow> lex_run st' t = Some (us, st'') \<Longrightarrow>
     lex_run st (s @ t) = Some (ts @ us, st'')"
  by (simp add: lex_run_append)

lemma map_butlast_last:
  "ws \<noteq> [] \<Longrightarrow> map f (butlast ws) @ f (last ws) # ts = map f ws @ ts"
  by (induction ws) auto

lemma lex_run_frame:
  assumes "command_for r = Some cmd"
  shows "lex_run (LO None) (frame_script self (request_id r) cmd) = Some (frame_tokens self r, LO None)"
proof -
  note q = lex_run_shell_quote [of None, simplified word_so_far_def option.case append_Nil]
  have p1: "lex_run (LO None) (''printf '' @ shell_quote (frame_begin self (request_id r)) @ [nl]) =
      Some ([TWord (unquoted ''printf'')] @ [] @
        [TWord (map Q (frame_begin self (request_id r))), TNl], LO None)"
    by (rule lex_run_seq [OF lex_const(1) lex_run_seq [OF q lex_const(6)]])
  have c: "words_of r \<noteq> []"
    "lex_run (LO None) cmd = Some (map TWord (butlast (words_of r)), LO (Some (last (words_of r))))"
    using lex_run_command [OF assms] by auto
  have p2: "lex_run (LO None) (''{ '' @ cmd @ ''; } </dev/null 2>/dev/null'' @ [nl]) =
      Some ([TWord (unquoted ''{'')] @ map TWord (butlast (words_of r)) @
        (TWord (last (words_of r)) # redirections @ [TNl]), LO None)"
    by (rule lex_run_seq [OF lex_const(2) lex_run_seq [OF c(2) lex_const(3)]])
  have words: "map TWord (butlast (words_of r)) @ TWord (last (words_of r)) # ts =
      map TWord (words_of r) @ ts" for ts
    by (rule map_butlast_last [OF c(1)])
  have p4: "lex_run (LO None) (''printf '' @ shell_quote (end_prefix self (request_id r) @ ''%s'' @ [nl])
      @ '' \"$__sg\"'' @ [nl]) =
      Some ([TWord (unquoted ''printf'')] @ [] @
        [TWord (map Q (end_prefix self (request_id r) @ ''%s'' @ [nl])), TWord [QP ''__sg''], TNl], LO None)"
    by (rule lex_run_seq [OF lex_const(1) lex_run_seq [OF q lex_const(5)]])
  have eq: "frame_script self (request_id r) cmd =
      (''printf '' @ shell_quote (frame_begin self (request_id r)) @ [nl]) @
      (''{ '' @ cmd @ ''; } </dev/null 2>/dev/null'' @ [nl]) @
      (''__sg=$?'' @ [nl]) @
      (''printf '' @ shell_quote (end_prefix self (request_id r) @ ''%s'' @ [nl]) @ '' \"$__sg\"'' @ [nl])"
    by (simp add: frame_script_def)
  show ?thesis
    unfolding eq frame_tokens_def words [symmetric]
    using lex_run_seq [OF p1 lex_run_seq [OF p2 lex_run_seq [OF lex_const(4) p4]]] by simp
qed

definition end_tokens :: "framing \<Rightarrow> tok list" where
  "end_tokens self = [TWord (unquoted ''printf''), TWord (map Q (terminator self)), TNl]"

lemma lex_run_terminator:
  "lex_run (LO None) (''printf '' @ shell_quote (terminator self) @ [nl]) = Some (end_tokens self, LO None)"
proof -
  note q = lex_run_shell_quote [of None, simplified word_so_far_def option.case append_Nil]
  have "lex_run (LO None) (''printf '' @ shell_quote (terminator self) @ [nl]) =
      Some ([TWord (unquoted ''printf'')] @ [] @ [TWord (map Q (terminator self)), TNl], LO None)"
    by (rule lex_run_seq [OF lex_const(1) lex_run_seq [OF q lex_const(6)]])
  then show ?thesis by (simp add: end_tokens_def)
qed

lemma lex_run_script:
  "\<forall>r \<in> set rs. command_for r \<noteq> None \<Longrightarrow>
     lex_run (LO None) (concat (map (\<lambda>r. frame_script self (request_id r) (the (command_for r))) rs) @
        ''printf '' @ shell_quote (terminator self) @ [nl]) =
     Some (concat (map (frame_tokens self) rs) @ end_tokens self, LO None)"
proof (induction rs)
  case Nil
  then show ?case using lex_run_terminator by simp
next
  case (Cons r rs)
  then obtain cmd where cmd: "command_for r = Some cmd" by auto
  have "lex_run (LO None) (frame_script self (request_id r) cmd @
      (concat (map (\<lambda>r. frame_script self (request_id r) (the (command_for r))) rs) @
        ''printf '' @ shell_quote (terminator self) @ [nl])) =
     Some (frame_tokens self r @ (concat (map (frame_tokens self) rs) @ end_tokens self), LO None)"
    using Cons.prems by (intro lex_run_seq [OF lex_run_frame [OF cmd] Cons.IH]) simp
  then show ?case by (simp add: cmd)
qed

section \<open>Running the script\<close>

lemma exec_lines_line:
  "TNl \<notin> set ts \<Longrightarrow> exec_lines run env line (ts @ TNl # us) =
     (case exec_line run env (line @ ts) of
        None \<Rightarrow> None
      | Some (out, env') \<Rightarrow> map_option ((@) out) (exec_lines run env' [] us))"
  by (induction ts arbitrary: line) auto

text \<open>A format without directives prints itself.\<close>

definition format_plain :: "string \<Rightarrow> bool" where
  "format_plain s \<longleftrightarrow> CHR 92 \<notin> set s \<and> CHR ''%'' \<notin> set s"

lemma printf_plain: "format_plain s \<Longrightarrow> printf (s @ t) args = map_option ((@) s) (printf t args)"
proof (induction s)
  case Nil
  then show ?case by (cases "printf t args") auto
next
  case (Cons c s)
  then show ?case by (cases "printf t args") (auto simp: format_plain_def)
qed

lemma exec_printf:
  "exec_line run env (TWord (unquoted ''printf'') # TWord (map Q fmt) # map TWord ws) =
     (if list_all (list_all literal) ws then
        map_option (\<lambda>out. (out, env\<lparr>sh_status := 0\<rparr>)) (printf fmt (map (expand_word env) ws))
      else None)"
proof -
  have lit: "list_all literal (unquoted ''printf'')" by (simp add: unquoted_def)
  have q: "list_all literal (map Q s)" for s by (induction s) auto
  have w: "command_words env (map TWord ws) =
      (if list_all (list_all literal) ws then Some (map (expand_word env) ws) else None)"
    by (induction ws) auto
  show ?thesis
    by (simp add: exec_line_def lit q w) (simp add: unquoted_def)
qed

lemma words_of_literal: "list_all (list_all literal) (words_of r)"
  by (cases r) (auto simp: list_all_iff unquoted_def)

lemma words_of_expand: "map (expand_word env) (words_of r) = argv_of r"
  by (cases r) (simp_all add: comp_def)

lemma command_words_words: "command_words env (map TWord ws) =
    (if list_all (list_all literal) ws then Some (map (expand_word env) ws) else None)"
  by (induction ws) auto

lemma redirections_nonempty: "redirections \<noteq> []"
  by (simp add: redirections_def)

lemma exec_group:
  assumes "words_of r \<noteq> []"
  shows "exec_line run env (TWord (unquoted ''{'') # map TWord (words_of r) @ redirections) =
     Some (fst (run (argv_of r)), env\<lparr>sh_status := snd (run (argv_of r))\<rparr>)"
proof -
  have t: "takeWhile is_word (map TWord ws @ redirections) = map TWord ws"
    "dropWhile is_word (map TWord ws @ redirections) = redirections" for ws
    by (induction ws) (simp_all add: redirections_def)
  have "argv_of r \<noteq> []" using assms words_of_expand [of _ r] by (metis map_is_Nil_conv)
  moreover have "command_words env (map TWord (words_of r)) = Some (argv_of r)"
    by (simp add: command_words_words words_of_literal words_of_expand)
  ultimately show ?thesis
    by (cases "argv_of r") (simp_all add: exec_line_def t split_beta redirections_nonempty)
qed

text \<open>What the host answers to a request, as a frame.\<close>

definition host_frame :: "(string list \<Rightarrow> string \<times> nat) \<Rightarrow> request \<Rightarrow> string \<times> i32 \<times> string" where
  "host_frame run r = (request_id r, word_of_nat (snd (run (argv_of r))), fst (run (argv_of r)))"

definition format_ok :: "framing \<Rightarrow> bool" where
  "format_ok self \<longleftrightarrow> format_plain (nonce self)"

lemma request_id_chars: "c \<in> set (request_id r) \<Longrightarrow> is_digit c \<or> 97 \<le> byte c \<and> byte c \<le> 102"
  using hex16_chars by (simp add: request_id_def)

lemma format_plain_id: "format_plain (request_id r)" and nl_not_in_id: "nl \<notin> set (request_id r)"
  using request_id_chars [of _ r] by (fastforce simp: format_plain_def is_digit_def)+

lemma show_int_byte: "n < 256 \<Longrightarrow> show_int (sint (word_of_nat n :: i32)) = show_nat n"
proof -
  assume "n < 256"
  have w: "sint (word_of_int k :: i32) = k" if "- (2 ^ 31) \<le> k" "k < 2 ^ 31" for k
    using that by (simp add: sint_sbintrunc' signed_take_bit_int_eq_self)
  have "sint (word_of_nat n :: i32) = int n"
    using w [of "int n"] \<open>n < 256\<close> by simp
  then show ?thesis by (simp add: show_int_def)
qed

lemma exec_step:
  "TNl \<notin> set ts \<Longrightarrow> exec_line run env ts = Some (out, env') \<Longrightarrow>
     exec_lines run env [] (ts @ TNl # us) = map_option ((@) out) (exec_lines run env' [] us)"
  by (simp add: exec_lines_line)

lemma exec_frame:
  assumes "command_for r \<noteq> None" "format_ok self" "snd (run (argv_of r)) < 256"
  shows "\<exists>env'. exec_lines run env [] (frame_tokens self r @ us) =
     map_option ((@) (emit_frame self (host_frame run r))) (exec_lines run env' [] us)"
proof -
  let ?out = "fst (run (argv_of r))" and ?code = "snd (run (argv_of r))"
  let ?b = "frame_begin self (request_id r)" and ?e = "end_prefix self (request_id r)"
  have w: "words_of r \<noteq> []" using assms(1) lex_run_command by fastforce
  have plain: "format_plain ?b" "format_plain ?e"
    using assms(2) format_plain_id [of r]
    by (simp_all add: frame_begin_def end_prefix_def format_plain_def format_ok_def)
  have l1: "exec_line run env [TWord (unquoted ''printf''), TWord (map Q ?b)] =
      Some (?b, env\<lparr>sh_status := 0\<rparr>)" for env
    using exec_printf [of run env ?b "[]"] printf_plain [OF plain(1), of "[]" "[]"] by simp
  note l2 = exec_group [OF w]
  have l3: "exec_line run env [TWord (unquoted ''__sg='' @ [UP ''?''])] = Some ([],
      env\<lparr>sh_vars := hm_insert ''__sg'' (show_nat (sh_status env)) (sh_vars env), sh_status := 0\<rparr>)" for env
    by (simp add: exec_line_def)
  have l4: "exec_line run env [TWord (unquoted ''printf''), TWord (map Q (?e @ ''%s'' @ [nl])), TWord [QP ''__sg'']] =
      Some (?e @ show_nat n @ [nl], env\<lparr>sh_status := 0\<rparr>)"
    if "hm_get (sh_vars env) ''__sg'' = Some (show_nat n)" for env n
    using exec_printf [of run env "?e @ ''%s'' @ [nl]" "[[QP ''__sg'']]"] that
      printf_plain [OF plain(2), of "''%s'' @ [nl]" "[show_nat n]"]
    by (simp add: expand_word_def)
  have code: "show_int (sint (word_of_nat ?code :: i32)) = show_nat ?code"
    by (rule show_int_byte [OF assms(3)])
  have nl: "TNl \<notin> set (map TWord ws)" "TNl \<notin> set redirections" for ws
    by (induction ws) (auto simp: redirections_def)
  let ?env1 = "env\<lparr>sh_status := 0\<rparr>"
  let ?env2 = "?env1\<lparr>sh_status := ?code\<rparr>"
  let ?env3 = "?env2\<lparr>sh_vars := hm_insert ''__sg'' (show_nat ?code) (sh_vars ?env2), sh_status := 0\<rparr>"
  let ?t1 = "[TWord (unquoted ''printf''), TWord (map Q ?b)]"
    and ?t2 = "TWord (unquoted ''{'') # map TWord (words_of r) @ redirections"
    and ?t3 = "[TWord (unquoted ''__sg='' @ [UP ''?''])]"
    and ?t4 = "[TWord (unquoted ''printf''), TWord (map Q (?e @ ''%s'' @ [nl])), TWord [QP ''__sg'']]"
  have s3: "exec_line run ?env2 ?t3 = Some ([], ?env3)" using l3 [of ?env2] by simp
  have s4: "exec_line run ?env3 ?t4 = Some (?e @ show_nat ?code @ [nl], ?env3\<lparr>sh_status := 0\<rparr>)"
    by (rule l4) (simp add: map_simps)
  have e1: "exec_lines run env [] (?t1 @ TNl # vs) =
      map_option ((@) ?b) (exec_lines run ?env1 [] vs)" for vs
    by (rule exec_step [OF _ l1]) simp
  have e2: "exec_lines run ?env1 [] (?t2 @ TNl # vs) =
      map_option ((@) ?out) (exec_lines run ?env2 [] vs)" for vs
    by (rule exec_step [OF _ l2]) (use nl in auto)
  have e3: "exec_lines run ?env2 [] (?t3 @ TNl # vs) =
      map_option ((@) []) (exec_lines run ?env3 [] vs)" for vs
    by (rule exec_step [OF _ s3]) simp
  have e4: "exec_lines run ?env3 [] (?t4 @ TNl # vs) =
      map_option ((@) (?e @ show_nat ?code @ [nl])) (exec_lines run (?env3\<lparr>sh_status := 0\<rparr>) [] vs)" for vs
    by (rule exec_step [OF _ s4]) simp
  have ft: "frame_tokens self r @ us = ?t1 @ TNl # ?t2 @ TNl # ?t3 @ TNl # ?t4 @ TNl # us"
    by (simp add: frame_tokens_def)
  have "exec_lines run env [] (frame_tokens self r @ us) = map_option ((@) ?b) (map_option ((@) ?out)
      (map_option ((@) []) (map_option ((@) (?e @ show_nat ?code @ [nl]))
        (exec_lines run (?env3\<lparr>sh_status := 0\<rparr>) [] us))))"
    unfolding ft by (simp only: e1 e2 e3 e4)
  also have "\<dots> = map_option ((@) (emit_frame self (host_frame run r)))
      (exec_lines run (?env3\<lparr>sh_status := 0\<rparr>) [] us)"
    by (cases "exec_lines run (?env3\<lparr>sh_status := 0\<rparr>) [] us")
      (simp_all add: emit_frame_def host_frame_def code)
  finally show ?thesis by blast
qed

lemma exec_end:
  "format_ok self \<Longrightarrow> exec_lines run env [] (end_tokens self) = Some (terminator self)"
proof -
  assume "format_ok self"
  then have "format_plain (terminator self)" by (simp add: terminator_def format_plain_def format_ok_def)
  then have "exec_line run env [TWord (unquoted ''printf''), TWord (map Q (terminator self))] =
      Some (terminator self, env\<lparr>sh_status := 0\<rparr>)"
    using exec_printf [of run env "terminator self" "[]"] printf_plain [of "terminator self" "[]" "[]"] by simp
  then show ?thesis
    using exec_step [of "[TWord (unquoted ''printf''), TWord (map Q (terminator self))]" run env _ _ "[]"]
    by (simp add: end_tokens_def)
qed

lemma exec_script:
  assumes "\<forall>r \<in> set rs. command_for r \<noteq> None \<and> snd (run (argv_of r)) < 256" "format_ok self"
  shows "exec_lines run env [] (concat (map (frame_tokens self) rs) @ end_tokens self) =
     Some (emit self (map (host_frame run) rs))"
  using assms(1)
proof (induction rs arbitrary: env)
  case Nil
  then show ?case using exec_end [OF assms(2)] by (simp add: emit_def)
next
  case (Cons r rs)
  obtain env' where "exec_lines run env [] (frame_tokens self r @ concat (map (frame_tokens self) rs) @ end_tokens self) =
     map_option ((@) (emit_frame self (host_frame run r)))
       (exec_lines run env' [] (concat (map (frame_tokens self) rs) @ end_tokens self))"
    using exec_frame [OF _ assms(2), of r run env] Cons.prems by auto
  with Cons show ?case by (simp add: emit_def)
qed

lemma sh_run_encode:
  assumes "format_ok self" "\<forall>argv. snd (run argv) < 256"
  shows "sh_run run (fst (encode self requests)) =
     Some (emit self (map (host_frame run) (first_by_id {} requests)))"
proof -
  let ?rs = "first_by_id {} requests"
  have rs: "\<forall>r \<in> set ?rs. command_for r \<noteq> None"
    using first_by_id_subset by blast
  have "fst (encode self requests) =
      concat (map (\<lambda>r. frame_script self (request_id r) (the (command_for r))) ?rs) @
        ''printf '' @ shell_quote (terminator self) @ [nl]"
    by (simp add: encode_def encode_loop_eq)
  with lex_run_script [OF rs, of self] exec_script [of ?rs run self] rs assms show ?thesis
    by (simp add: sh_run_def)
qed

lemma map_of_rev_distinct: "distinct (map fst xs) \<Longrightarrow> map_of (rev xs) = map_of xs"
  by (intro map_of_inject_set [THEN iffD2]) (simp_all add: rev_map [symmetric])

lemma batch_runs:
  assumes "nonce_ok self" "format_ok self" "quiet self junk"
    and "\<forall>argv. snd (run argv) < 256 \<and> quiet self (fst (run argv))"
  shows "\<exists>out. sh_run run (fst (encode self requests)) = Some out \<and>
    list_all (\<lambda>r. hm_get (decode self (junk @ out)) (request_id r) =
        Some \<lparr>exit_code = word_of_nat (snd (run (argv_of r))), rs_body = fst (run (argv_of r))\<rparr>)
      (first_by_id {} requests) \<and>
    hm_keys (decode self (junk @ out)) = set (snd (encode self requests))"
proof -
  let ?rs = "first_by_id {} requests" and ?fs = "map (host_frame run) (first_by_id {} requests)"
  have run: "sh_run run (fst (encode self requests)) = Some (emit self ?fs)"
    using assms(2,4) by (intro sh_run_encode) auto
  have "\<forall>(rid, code, body) \<in> set ?fs. nl \<notin> set rid \<and> quiet self body"
    using assms(4) nl_not_in_id by (auto simp: host_frame_def)
  note dec = decode_frames [OF assms(3,1) this, of "[]"]
  have get: "hm_get (decode self (junk @ emit self ?fs)) rid =
      map_option (\<lambda>(code, body). \<lparr>exit_code = code, rs_body = body\<rparr>) (map_of ?fs rid)" for rid
  proof -
    have "distinct (map fst ?fs)"
      using first_by_id_distinct [of "{}" requests] by (simp add: host_frame_def comp_def)
    then have "map_of (rev ?fs) = map_of ?fs" by (rule map_of_rev_distinct)
    then show ?thesis by (simp add: decode_def dec fold_insert_get split: option.splits)
  qed
  have one: "map_of ?fs (request_id r) = Some (snd (host_frame run r))" if "r \<in> set ?rs" for r
    using that first_by_id_distinct [of "{}" requests]
    by (intro map_of_is_SomeI) (auto simp: host_frame_def comp_def)
  have "list_all (\<lambda>r. hm_get (decode self (junk @ emit self ?fs)) (request_id r) =
        Some \<lparr>exit_code = word_of_nat (snd (run (argv_of r))), rs_body = fst (run (argv_of r))\<rparr>) ?rs"
    unfolding list_all_iff get using one by (simp add: host_frame_def)
  moreover have "hm_keys (decode self (junk @ emit self ?fs)) = set (snd (encode self requests))"
  proof -
    have "hm_keys (decode self (junk @ emit self ?fs)) = dom (map_of ?fs)"
      unfolding hm_keys_dom by (auto simp: get dom_def)
    also have "\<dots> = set (snd (encode self requests))"
      by (simp add: dom_map_of_conv_image_fst encode_def encode_loop_eq host_frame_def image_comp comp_def)
    finally show ?thesis .
  qed
  ultimately show ?thesis using run by blast
qed

text \<open>
  C3: one batch, end to end. For a host whose programs answer as \<open>run\<close> says, with no answer
  holding the connection's nonce at the start of a line, the script \<open>encode\<close> writes is run by a
  POSIX shell to its end, and decoding what comes back gives for every distinct servable request
  exactly the exit status and output of its own program, and nothing for any other id.
\<close>

theorem batch_round_trip:
  assumes "nonce_ok self" "format_ok self" "quiet self junk"
    and "\<forall>argv. snd (run argv) < 256 \<and> quiet self (fst (run argv))"
  shows "\<exists>out. sh_run run (fst (encode self requests)) = Some out \<and>
    list_all (\<lambda>r. hm_get (decode self (junk @ out)) (request_id r) =
        Some \<lparr>exit_code = word_of_nat (snd (run (argv_of r))), rs_body = fst (run (argv_of r))\<rparr>)
      (first_by_id {} requests) \<and>
    hm_keys (decode self (junk @ out)) = set (snd (encode self requests))"
  by (rule batch_runs [OF assms])

theorem batch_round_trip_witness:
  "\<exists>out. sh_run (\<lambda>argv. if argv = [''cat'', ''--'', ''/p''] then (''x'', 0) else ([], 127))
       (fst (encode \<lparr>nonce = ''N''\<rparr> [ReadFile ''/p''])) = Some out \<and>
     hm_get (decode \<lparr>nonce = ''N''\<rparr> (''motd'' @ out)) (request_id (ReadFile ''/p'')) =
       Some \<lparr>exit_code = 0, rs_body = ''x''\<rparr>"
proof -
  let ?f = "\<lparr>nonce = ''N''\<rparr>"
    and ?run = "\<lambda>argv. if argv = [''cat'', ''--'', ''/p''] then (''x'', 0 :: nat) else ([], 127)"
  have "nonce_ok ?f" "format_ok ?f" "quiet ?f ''motd''"
    and "\<forall>argv. snd (?run argv) < 256 \<and> quiet ?f (fst (?run argv))"
    by (simp_all add: nonce_ok_def format_ok_def format_plain_def quiet_def contains_def)
  from batch_round_trip [OF this, of "[ReadFile ''/p'']"] show ?thesis by auto
qed

end
