(* ===== verification/Transport.thy ===== *)
theory Transport
  imports Shell
begin

text \<open>
  \<open>crates/sg-transport\<close>: the errors and which of them are worth retrying (\<open>error.rs\<close>), connection
  parameters (\<open>auth.rs\<close>), and from \<open>session.rs\<close> the host-key decision, authentication and the
  read loop of a batch. What russh, the file system and the clock answer are arguments; the order
  in which the code consults them is the code's.
\<close>

section \<open>Errors\<close>

datatype transport_error =
  Connect string u16 string
  | UnknownHostKey string u16 string
  | HostKeyMismatch string u16 string
  | HostKeyStorage string
  | OutputTooLarge nat
  | AuthFailed string string
  | KeyFileError string string
  | KeyTextError string
  | NoAgent string
  | AgentNoIdentity string string
  | ShellNotStarted
  | Closed
  | Timeout string u64
  | Ssh string
  | Io string

fun is_transient :: "transport_error \<Rightarrow> bool" where
  "is_transient (Connect _ _ _) \<longleftrightarrow> True"
| "is_transient Closed \<longleftrightarrow> True"
| "is_transient (Timeout _ _) \<longleftrightarrow> True"
| "is_transient ShellNotStarted \<longleftrightarrow> True"
| "is_transient (Io _) \<longleftrightarrow> True"
| "is_transient (Ssh _) \<longleftrightarrow> True"
| "is_transient (AuthFailed _ _) \<longleftrightarrow> False"
| "is_transient (UnknownHostKey _ _ _) \<longleftrightarrow> False"
| "is_transient (HostKeyMismatch _ _ _) \<longleftrightarrow> False"
| "is_transient (HostKeyStorage _) \<longleftrightarrow> False"
| "is_transient (OutputTooLarge _) \<longleftrightarrow> False"
| "is_transient (KeyFileError _ _) \<longleftrightarrow> False"
| "is_transient (KeyTextError _) \<longleftrightarrow> False"
| "is_transient (NoAgent _) \<longleftrightarrow> False"
| "is_transient (AgentNoIdentity _ _) \<longleftrightarrow> False"

definition show_word :: "'a::len word \<Rightarrow> string" where
  "show_word w = show_nat (unat w)"

definition em_dash :: string where
  "em_dash = [CHR 0xE2, CHR 0x80, CHR 0x94]"

fun transport_error_display :: "transport_error \<Rightarrow> string" where
  "transport_error_display (Connect host port source) =
     ''could not reach '' @ host @ '':'' @ show_word port @ '': '' @ source"
| "transport_error_display (UnknownHostKey host port _) =
     ''host key for '' @ host @ '':'' @ show_word port @ '' is not in known_hosts''"
| "transport_error_display (HostKeyMismatch host port fp) =
     ''host key for '' @ host @ '':'' @ show_word port @ '' CHANGED '' @ em_dash @
     '' possible interception (now '' @ fp @ '')''"
| "transport_error_display (HostKeyStorage detail) =
     ''could not read or save this server'' @ [CHR 39] @ ''s trusted identity: '' @ detail"
| "transport_error_display (OutputTooLarge limit) =
     ''the server'' @ [CHR 39] @ ''s response exceeded the '' @ show_nat limit @
     ''-byte output limit''"
| "transport_error_display (AuthFailed user host) =
     ''authentication failed for '' @ user @ ''@'' @ host"
| "transport_error_display (KeyFileError path detail) =
     ''could not read private key '' @ path @ '': '' @ detail"
| "transport_error_display (KeyTextError detail) =
     ''could not read the pasted private key: '' @ detail"
| "transport_error_display (NoAgent d) = ''no ssh-agent available: '' @ d"
| "transport_error_display (AgentNoIdentity user host) =
     ''ssh-agent holds no usable identity for '' @ user @ ''@'' @ host"
| "transport_error_display ShellNotStarted = ''the remote shell did not start''"
| "transport_error_display Closed = ''connection closed by the remote host''"
| "transport_error_display (Timeout what ms) =
     ''timed out after '' @ show_word ms @ ''ms waiting for '' @ what"
| "transport_error_display (Ssh d) = ''ssh protocol error: '' @ d"
| "transport_error_display (Io d) = ''io error: '' @ d"

section \<open>Connection parameters\<close>

datatype auth =
  Agent
  | KeyFile string "string option"
  | KeyText string "string option"
  | Password string

fun auth_describe :: "auth \<Rightarrow> string" where
  "auth_describe Agent = ''ssh-agent''"
| "auth_describe (KeyFile path _) = ''key '' @ path"
| "auth_describe (KeyText _ _) = ''pasted key''"
| "auth_describe (Password _) = ''password''"

datatype host_key_policy = Strict | AcceptNew | AcceptAny

record connection_spec =
  cs_host :: string
  cs_port :: u16
  cs_user :: string
  cs_auth :: auth
  cs_policy :: host_key_policy
  cs_connect_timeout_ms :: u64
  cs_batch_timeout_ms :: u64
  cs_keepalive_secs :: u64
  cs_known_hosts :: "string option"

definition connection_spec_new :: "string \<Rightarrow> string \<Rightarrow> connection_spec" where
  "connection_spec_new host user =
     \<lparr>cs_host = host, cs_port = 22, cs_user = user, cs_auth = Agent, cs_policy = Strict,
      cs_connect_timeout_ms = 15000, cs_batch_timeout_ms = 10000, cs_keepalive_secs = 30,
      cs_known_hosts = None\<rparr>"

definition spec_endpoint :: "connection_spec \<Rightarrow> string" where
  "spec_endpoint self =
     (if cs_port self = 22 then cs_user self @ ''@'' @ cs_host self
      else cs_user self @ ''@'' @ cs_host self @ '':'' @ show_word (cs_port self))"

section \<open>Host keys\<close>

datatype host_key_verdict =
  Accepted | StorageFailed string | Unknown string | Changed string

text \<open>
  What the pin store answers for the key that was presented: opening a file, looking the key up there under
  a host and a port, and learning it there.
\<close>

datatype open_result = Opened | NotFound | OpenFailed string
datatype known_result = Known | NotKnown | KeyChanged | CheckFailed string

record pin_store =
  ps_home :: "string option"
  ps_open :: "string \<Rightarrow> open_result"
  ps_check :: "string \<Rightarrow> u16 \<Rightarrow> string \<Rightarrow> known_result"
  ps_learn :: "string \<Rightarrow> u16 \<Rightarrow> string \<Rightarrow> string + unit"

text \<open>
  The verdict recorded, whether the key is accepted, and whether a new pin was written: the path
  is chosen from the connection first and the home directory second.
\<close>

definition check_server_key ::
  "connection_spec \<Rightarrow> pin_store \<Rightarrow> string \<Rightarrow> host_key_verdict \<times> bool \<times> bool" where
  "check_server_key spec ps fingerprint =
     (if cs_policy spec = AcceptAny then (Accepted, True, False)
      else
        (case (case cs_known_hosts spec of Some p \<Rightarrow> Some p
               | None \<Rightarrow> map_option (\<lambda>h. h @ ''/.ssh/known_hosts'') (ps_home ps)) of
           None \<Rightarrow> (StorageFailed ''No home directory for known_hosts.'', False, False)
         | Some path \<Rightarrow>
             (case ps_open ps path of
                OpenFailed e \<Rightarrow> (StorageFailed e, False, False)
              | _ \<Rightarrow>
                  (case ps_check ps (cs_host spec) (cs_port spec) path of
                     Known \<Rightarrow> (Accepted, True, False)
                   | KeyChanged \<Rightarrow> (Changed fingerprint, False, False)
                   | CheckFailed e \<Rightarrow> (StorageFailed e, False, False)
                   | NotKnown \<Rightarrow>
                       if cs_policy spec = AcceptNew then
                         (case ps_learn ps (cs_host spec) (cs_port spec) path of
                            Inl e \<Rightarrow> (StorageFailed e, False, False)
                          | Inr _ \<Rightarrow> (Accepted, True, True))
                       else (Unknown fingerprint, False, False)))))"

text \<open>How \<open>connect\<close> reports a handshake failure, given the recorded verdict.\<close>

fun connect_failure :: "connection_spec \<Rightarrow> host_key_verdict option \<Rightarrow> string \<Rightarrow> transport_error" where
  "connect_failure spec (Some (Unknown fp)) err = UnknownHostKey (cs_host spec) (cs_port spec) fp"
| "connect_failure spec (Some (Changed fp)) err = HostKeyMismatch (cs_host spec) (cs_port spec) fp"
| "connect_failure spec (Some (StorageFailed d)) err = HostKeyStorage d"
| "connect_failure spec _ err = Ssh err"

text \<open>The one file a connection trusts: its own, or that of the home directory.\<close>

definition pin_file :: "connection_spec \<Rightarrow> pin_store \<Rightarrow> string \<Rightarrow> bool" where
  "pin_file spec ps path \<longleftrightarrow> cs_known_hosts spec = Some path
     \<or> cs_known_hosts spec = None \<and> (\<exists>home. ps_home ps = Some home \<and> path = home @ ''/.ssh/known_hosts'')"

lemma pin_file_choice:
  "pin_file spec ps path \<longleftrightarrow>
     (case cs_known_hosts spec of Some p \<Rightarrow> Some p
      | None \<Rightarrow> map_option (\<lambda>h. h @ ''/.ssh/known_hosts'') (ps_home ps)) = Some path"
  by (auto simp: pin_file_def split: option.splits)

text \<open>
  C6: under every checking policy a key is accepted exactly if the one pin file of the connection,
  its own or else the home directory's, can be opened or does not exist yet, and it either holds
  the key for this host and port, or holds none for them, the policy is \<open>AcceptNew\<close> and the pin has
  been written to that file. A key that differs from the one pinned there is refused, and reaches the
  user as a mismatch; a file that cannot be opened is a storage failure and never counts as a new
  host. No refusal is retried, and none writes a pin.
\<close>

theorem host_key_policy_safe:
  assumes "cs_policy spec \<noteq> AcceptAny"
    and "check_server_key spec ps fp = (verdict, accepted, learned)"
  shows "(accepted \<longleftrightarrow> verdict = Accepted)
    \<and> (accepted \<longleftrightarrow> (\<exists>path. pin_file spec ps path \<and> ps_open ps path \<in> {Opened, NotFound} \<and>
           (ps_check ps (cs_host spec) (cs_port spec) path = Known \<or>
            ps_check ps (cs_host spec) (cs_port spec) path = NotKnown \<and> cs_policy spec = AcceptNew \<and>
              ps_learn ps (cs_host spec) (cs_port spec) path = Inr ())))
    \<and> (learned \<longleftrightarrow> accepted \<and>
           (\<exists>path. pin_file spec ps path \<and> ps_check ps (cs_host spec) (cs_port spec) path = NotKnown))
    \<and> (\<forall>path. pin_file spec ps path \<and> ps_open ps path \<in> {Opened, NotFound} \<and>
           ps_check ps (cs_host spec) (cs_port spec) path = KeyChanged \<longrightarrow>
         verdict = Changed fp \<and>
         connect_failure spec (Some verdict) err = HostKeyMismatch (cs_host spec) (cs_port spec) fp)
    \<and> (\<forall>path e. pin_file spec ps path \<and> ps_open ps path = OpenFailed e \<longrightarrow> verdict = StorageFailed e)
    \<and> (\<not> accepted \<longrightarrow> \<not> is_transient (connect_failure spec (Some verdict) err) \<and> \<not> learned)"
  using assms unfolding pin_file_choice
  by (auto simp: check_server_key_def split: option.splits open_result.splits known_result.splits
      if_splits sum.splits)

theorem host_key_policy_safe_witness:
  "check_server_key ((connection_spec_new ''h'' ''u'')\<lparr>cs_policy := AcceptNew\<rparr>)
     \<lparr>ps_home = Some ''/r'', ps_open = \<lambda>_. Opened, ps_check = \<lambda>_ _ _. KeyChanged,
      ps_learn = \<lambda>_ _ _. Inr ()\<rparr> ''fp'' = (Changed ''fp'', False, False)
   \<and> connect_failure ((connection_spec_new ''h'' ''u'')\<lparr>cs_policy := AcceptNew\<rparr>)
       (Some (Changed ''fp'')) ''e'' = HostKeyMismatch ''h'' 22 ''fp''"
proof -
  let ?spec = "(connection_spec_new ''h'' ''u'')\<lparr>cs_policy := AcceptNew\<rparr>"
    and ?ps = "\<lparr>ps_home = Some ''/r'', ps_open = \<lambda>_. Opened, ps_check = \<lambda>_ _ _. KeyChanged,
      ps_learn = \<lambda>_ _ _. Inr ()\<rparr>"
  have eq: "check_server_key ?spec ?ps ''fp'' = (Changed ''fp'', False, False)"
    by (simp add: check_server_key_def connection_spec_new_def)
  moreover have "cs_policy ?spec \<noteq> AcceptAny" by simp
  ultimately show ?thesis
    using host_key_policy_safe [of ?spec ?ps "''fp''" "Changed ''fp''" False False "''e''"]
    by (simp add: connection_spec_new_def)
qed

section \<open>Authentication\<close>

text \<open>
  One attempt's answer from the server: an error of the protocol, a refusal or success. The
  agent's identities are public keys or certificates; the certificates are skipped.
\<close>

datatype auth_result = AuthError string | Refused | Success
datatype identity = PublicKey string | Certificate string

record auth_server =
  as_password :: "string \<Rightarrow> string \<Rightarrow> auth_result"
  as_publickey :: "string \<Rightarrow> string \<Rightarrow> auth_result"
  as_agent_key :: "string \<Rightarrow> string \<Rightarrow> auth_result"
  as_rsa_hash :: "string + unit"
  as_load_file :: "string \<Rightarrow> string option \<Rightarrow> string + string"
  as_decode :: "string \<Rightarrow> string option \<Rightarrow> string + string"
  as_agent :: "string + unit"
  as_identities :: "string + identity list"

fun try_identities :: "auth_server \<Rightarrow> string \<Rightarrow> identity list \<Rightarrow> bool" where
  "try_identities srv user [] = False"
| "try_identities srv user (Certificate _ # ids) = try_identities srv user ids"
| "try_identities srv user (PublicKey k # ids) =
     (as_agent_key srv user k = Success \<or> try_identities srv user ids)"

definition authenticate_with_agent ::
  "auth_server \<Rightarrow> connection_spec \<Rightarrow> transport_error + unit" where
  "authenticate_with_agent srv spec =
     (case as_identities srv of
        Inl e \<Rightarrow> Inl (NoAgent e)
      | Inr ids \<Rightarrow>
          (case as_rsa_hash srv of
             Inl e \<Rightarrow> Inl (Ssh e)
           | Inr _ \<Rightarrow>
               if try_identities srv (cs_user spec) ids then Inr ()
               else Inl (AgentNoIdentity (cs_user spec) (cs_host spec))))"

definition judge :: "connection_spec \<Rightarrow> auth_result \<Rightarrow> transport_error + unit" where
  "judge spec r =
     (case r of
        AuthError e \<Rightarrow> Inl (Ssh e)
      | Refused \<Rightarrow> Inl (AuthFailed (cs_user spec) (cs_host spec))
      | Success \<Rightarrow> Inr ())"

definition authenticate :: "auth_server \<Rightarrow> connection_spec \<Rightarrow> transport_error + unit" where
  "authenticate srv spec =
     (let with_key = (\<lambda>key. case as_rsa_hash srv of
                        Inl e \<Rightarrow> Inl (Ssh e)
                      | Inr _ \<Rightarrow> judge spec (as_publickey srv (cs_user spec) key))
      in case cs_auth spec of
           Password p \<Rightarrow> judge spec (as_password srv (cs_user spec) p)
         | KeyFile path pass \<Rightarrow>
             (case as_load_file srv path pass of
                Inl e \<Rightarrow> Inl (KeyFileError path e) | Inr key \<Rightarrow> with_key key)
         | KeyText key pass \<Rightarrow>
             (case as_decode srv (trim key) pass of
                Inl e \<Rightarrow> Inl (KeyTextError e) | Inr key \<Rightarrow> with_key key)
         | Agent \<Rightarrow>
             (case as_agent srv of
                Inl e \<Rightarrow> Inl (NoAgent e) | Inr _ \<Rightarrow> authenticate_with_agent srv spec))"

lemma try_identities_iff:
  "try_identities srv user ids \<longleftrightarrow> (\<exists>k. PublicKey k \<in> set ids \<and> as_agent_key srv user k = Success)"
  by (induction srv user ids rule: try_identities.induct) auto
section \<open>A batch\<close>

definition find_bytes :: "string \<Rightarrow> string \<Rightarrow> nat option" where
  "find_bytes haystack needle =
     (if needle = [] \<or> length haystack < length needle then None else find_str needle haystack)"

definition generate_nonce :: "u64 \<Rightarrow> u64 \<Rightarrow> string" where
  "generate_nonce h1 h2 = ''__SG'' @ hex16 h1 @ hex16 h2 @ ''__''"

text \<open>A generated nonce meets what the framing needs of it.\<close>

lemma generate_nonce_ok:
  "nonce_ok (framing_new (generate_nonce h1 h2)) \<and> format_ok (framing_new (generate_nonce h1 h2))"
proof -
  have "c \<noteq> nl \<and> c \<noteq> CHR 92 \<and> c \<noteq> CHR ''%''" if "c \<in> set (hex16 h)" for c h
    using hex16_chars [OF that] by (auto simp: is_digit_def)
  then show ?thesis
    by (fastforce simp: nonce_ok_def format_ok_def format_plain_def framing_new_def generate_nonce_def)
qed

text \<open>What waiting for the channel gives: the deadline, the end of the channel or a message.\<close>

datatype channel_msg = Data string | ExtendedData | Eof | Close | ExitStatus | OtherMsg
datatype channel_wait = Elapsed | ChannelEnd | Msg channel_msg

definition max_batch_bytes :: nat where
  "max_batch_bytes = 16 * 1024 * 1024"

text \<open>The read loop; \<open>None\<close> while it is still waiting for the next event.\<close>

fun read_reply ::
  "connection_spec \<Rightarrow> string \<Rightarrow> string \<Rightarrow> channel_wait list \<Rightarrow> (transport_error + string) option" where
  "read_reply spec term buf [] = None"
| "read_reply spec term buf (Elapsed # ws) =
     Some (Inl (Timeout ''collection batch'' (cs_batch_timeout_ms spec)))"
| "read_reply spec term buf (ChannelEnd # ws) = Some (Inl Closed)"
| "read_reply spec term buf (Msg (Data d) # ws) =
     (if max_batch_bytes - length buf < length d then Some (Inl (OutputTooLarge max_batch_bytes))
      else
        (let buf' = buf @ d;
             start = length buf' - (length d + length term)
         in if find_bytes (drop start buf') term \<noteq> None then Some (Inr buf')
            else read_reply spec term buf' ws))"
| "read_reply spec term buf (Msg Eof # ws) = Some (Inl Closed)"
| "read_reply spec term buf (Msg Close # ws) = Some (Inl Closed)"
| "read_reply spec term buf (Msg ExitStatus # ws) = Some (Inl Closed)"
| "read_reply spec term buf (Msg ExtendedData # ws) = read_reply spec term buf ws"
| "read_reply spec term buf (Msg OtherMsg # ws) = read_reply spec term buf ws"

datatype write_result = WriteElapsed | WriteError string | Written

record ssh_session =
  ss_spec :: connection_spec
  ss_framing :: framing
  ss_round_trips :: u64

text \<open>
  \<open>batch\<close>, with \<open>String::from_utf8_lossy\<close> as an argument: the bytes of a reply need not be text.
\<close>

definition batch ::
  "(string \<Rightarrow> string) \<Rightarrow> write_result \<Rightarrow> channel_wait list \<Rightarrow> request list \<Rightarrow> ssh_session
    \<Rightarrow> ssh_session \<times> (transport_error + responses) option" where
  "batch lossy wr ws requests self =
     (let spec = ss_spec self; (script, ids) = encode (ss_framing self) requests
      in if ids = [] then (self, Some (Inr []))
         else
           (let self' = self\<lparr>ss_round_trips := ss_round_trips self + 1\<rparr>
            in case wr of
                 WriteElapsed \<Rightarrow>
                   (self', Some (Inl (Timeout ''collection batch'' (cs_batch_timeout_ms spec))))
               | WriteError e \<Rightarrow> (self', Some (Inl (Ssh e)))
               | Written \<Rightarrow>
                   (self',
                    map_option (map_sum id (\<lambda>buf. decode (ss_framing self) (lossy buf)))
                      (read_reply spec (terminator (ss_framing self)) [] ws))))"

subsection \<open>Searching the tail is enough\<close>

lemma find_bytes_iff: "term \<noteq> [] \<Longrightarrow> find_bytes s term \<noteq> None \<longleftrightarrow> sublist term s"
proof -
  assume "term \<noteq> []"
  then have "find_bytes s term \<noteq> None \<longleftrightarrow> length term \<le> length s \<and> contains term s"
    by (auto simp: find_bytes_def contains_def)
  then show ?thesis
    by (auto simp: contains_sublist dest: sublist_length_le)
qed

lemma sublist_tail:
  assumes "\<not> sublist term buf" "term \<noteq> []"
  shows "sublist term (drop (length (buf @ d) - (length d + length term)) (buf @ d)) \<longleftrightarrow>
           sublist term (buf @ d)"
proof
  show "sublist term (drop n (buf @ d)) \<Longrightarrow> sublist term (buf @ d)" for n
    by (rule sublist_order.order.trans [OF _ sublist_drop])
next
  assume "sublist term (buf @ d)"
  then obtain a b where ab: "buf @ d = a @ term @ b" by (auto simp: sublist_def)
  have "length (buf @ d) - (length d + length term) \<le> length a"
  proof (rule ccontr)
    assume "\<not> ?thesis"
    then have "length (a @ term) \<le> length buf" by simp
    then have "take (length (a @ term)) buf = a @ term"
      using arg_cong [OF ab, of "take (length (a @ term))"] by simp
    then have "sublist term (take (length (a @ term)) buf)" by simp
    then have "sublist term buf" by (rule sublist_order.order.trans [OF _ sublist_take])
    with assms(1) show False by simp
  qed
  then show "sublist term (drop (length (buf @ d) - (length d + length term)) (buf @ d))"
    unfolding ab by (auto simp: drop_append)
qed

text \<open>The bytes a list of events has delivered.\<close>

fun delivered :: "channel_wait list \<Rightarrow> string" where
  "delivered [] = []"
| "delivered (Msg (Data d) # ws) = d @ delivered ws"
| "delivered (_ # ws) = delivered ws"

text \<open>The events after which the loop waits for the next one, as long as the terminator is not there.\<close>

fun goes_on :: "channel_wait \<Rightarrow> bool" where
  "goes_on (Msg (Data _)) \<longleftrightarrow> True"
| "goes_on (Msg ExtendedData) \<longleftrightarrow> True"
| "goes_on (Msg OtherMsg) \<longleftrightarrow> True"
| "goes_on _ \<longleftrightarrow> False"

definition waiting :: "string \<Rightarrow> string \<Rightarrow> channel_wait list \<Rightarrow> bool" where
  "waiting term buf used \<longleftrightarrow> list_all goes_on used \<and> \<not> sublist term (buf @ delivered used)
     \<and> length (buf @ delivered used) \<le> max_batch_bytes"

text \<open>How the loop ends at an event, with \<open>buf\<close> already read.\<close>

fun reply_ends ::
  "connection_spec \<Rightarrow> string \<Rightarrow> string \<Rightarrow> channel_wait \<Rightarrow> (transport_error + string) option" where
  "reply_ends spec term buf Elapsed = Some (Inl (Timeout ''collection batch'' (cs_batch_timeout_ms spec)))"
| "reply_ends spec term buf (Msg (Data d)) =
     (if max_batch_bytes < length (buf @ d) then Some (Inl (OutputTooLarge max_batch_bytes))
      else if sublist term (buf @ d) then Some (Inr (buf @ d)) else None)"
| "reply_ends spec term buf w = (if goes_on w then None else Some (Inl Closed))"

lemma not_sublist_left: "\<not> sublist t (a @ b) \<Longrightarrow> \<not> sublist t a"
  by (auto simp: sublist_append)

lemma waiting_Cons:
  "waiting term buf (w # used) \<Longrightarrow> waiting term buf [w] \<and> waiting term (buf @ delivered [w]) used"
  by (cases w rule: goes_on.cases) (auto simp: waiting_def simp flip: append_assoc dest: not_sublist_left)

lemma waiting_ends: "waiting term buf [w] \<Longrightarrow> reply_ends spec term buf w = None"
  by (cases w rule: goes_on.cases) (simp_all add: waiting_def)

lemma reply_ends_None: "waiting term buf [] \<Longrightarrow> reply_ends spec term buf w = None \<Longrightarrow> waiting term buf [w]"
  by (cases w rule: goes_on.cases) (auto simp: waiting_def split: if_splits)

text \<open>One turn of the loop: the tail that is searched decides as the whole buffer would.\<close>

lemma read_reply_turn:
  assumes "term \<noteq> []" "waiting term buf []"
  shows "read_reply spec term buf (w # ws) =
    (case reply_ends spec term buf w of Some r \<Rightarrow> Some r | None \<Rightarrow> read_reply spec term (buf @ delivered [w]) ws)"
proof (cases w rule: goes_on.cases)
  case (1 d)
  let ?tail = "drop (length (buf @ d) - (length d + length term)) (buf @ d)"
  have "find_bytes ?tail term \<noteq> None \<longleftrightarrow> sublist term (buf @ d)"
    using assms by (intro trans [OF find_bytes_iff sublist_tail]) (simp_all add: waiting_def)
  moreover have "max_batch_bytes - length buf < length d \<longleftrightarrow> max_batch_bytes < length (buf @ d)"
    using assms(2) by (auto simp: waiting_def)
  ultimately show ?thesis by (simp add: 1 Let_def)
qed simp_all

lemma read_reply_waits:
  assumes "term \<noteq> []"
  shows "waiting term buf used \<Longrightarrow>
    read_reply spec term buf (used @ ws) = read_reply spec term (buf @ delivered used) ws"
proof (induction used arbitrary: buf)
  case (Cons w used)
  have w: "waiting term buf [w]" "waiting term (buf @ delivered [w]) used"
    using waiting_Cons [OF Cons.prems] by simp_all
  then have "waiting term buf []" by (auto simp: waiting_def dest: not_sublist_left)
  moreover have "delivered (w # used) = delivered [w] @ delivered used"
    by (cases w rule: goes_on.cases) simp_all
  ultimately show ?case
    using read_reply_turn [OF assms, of buf spec w "used @ ws"] waiting_ends [OF w(1)] Cons.IH [OF w(2)]
    by simp
qed simp

text \<open>The loop ends at the first event that ends it.\<close>

lemma read_reply_iff:
  assumes "term \<noteq> []"
  shows "waiting term buf [] \<Longrightarrow> read_reply spec term buf ws = Some r \<longleftrightarrow>
    (\<exists>used w rest. ws = used @ w # rest \<and> waiting term buf used
       \<and> reply_ends spec term (buf @ delivered used) w = Some r)"
    (is "_ \<Longrightarrow> _ \<longleftrightarrow> ?ends buf ws")
proof
  assume buf: "waiting term buf []"
  show "?ends buf ws" if "read_reply spec term buf ws = Some r"
    using that buf
  proof (induction ws arbitrary: buf)
    case (Cons w ws)
    note turn = read_reply_turn [OF assms Cons.prems(2), of spec w ws]
    show ?case
    proof (cases "reply_ends spec term buf w")
      case (Some r')
      then have "w # ws = [] @ w # ws \<and> waiting term buf []
          \<and> reply_ends spec term (buf @ delivered []) w = Some r"
        using turn Cons.prems by simp
      then show ?thesis by blast
    next
      case None
      then have w: "waiting term buf [w]" by (rule reply_ends_None [OF Cons.prems(2)])
      then have "waiting term (buf @ delivered [w]) []" by (simp add: waiting_def)
      with Cons.IH [of "buf @ delivered [w]"] Cons.prems(1) None turn
      obtain used v rest where u: "ws = used @ v # rest" "waiting term (buf @ delivered [w]) used"
        "reply_ends spec term ((buf @ delivered [w]) @ delivered used) v = Some r" by auto
      have "delivered (w # used) = delivered [w] @ delivered used"
        by (cases w rule: goes_on.cases) simp_all
      then have "waiting term buf (w # used)" "reply_ends spec term (buf @ delivered (w # used)) v = Some r"
        using u w by (simp_all add: waiting_def)
      with u(1) show ?thesis by (metis append_Cons)
    qed
  qed simp
next
  assume "?ends buf ws"
  then obtain used w rest where u: "ws = used @ w # rest" "waiting term buf used"
    "reply_ends spec term (buf @ delivered used) w = Some r" by blast
  then have "waiting term (buf @ delivered used) []" by (simp add: waiting_def)
  then show "read_reply spec term buf ws = Some r"
    using u by (simp add: read_reply_waits [OF assms] read_reply_turn [OF assms])
qed

lemma read_reply_returns: "Elapsed \<in> set ws \<Longrightarrow> \<exists>r. read_reply spec term buf ws = Some r"
  by (induction spec "term" buf ws rule: read_reply.induct) (auto simp: Let_def)

text \<open>
  C8: searching only the tail of the buffer finds the terminator exactly when it first arrives. A
  reply is returned if and only if some chunk completes the terminator, within 16 MiB, before the
  deadline or the end of the channel, and what is returned is then everything delivered up to that
  chunk; each failure is returned if and only if its event comes first. Where the deadline is
  among the events, the loop returns, whatever the host sends.
\<close>

theorem read_reply_spec:
  "(read_reply spec (terminator f) [] ws = Some (Inr out) \<longleftrightarrow>
      (\<exists>used d rest. ws = used @ Msg (Data d) # rest \<and> list_all goes_on used \<and> out = delivered used @ d
        \<and> sublist (terminator f) out \<and> \<not> sublist (terminator f) (delivered used)
        \<and> length out \<le> max_batch_bytes))
   \<and> (read_reply spec (terminator f) [] ws = Some (Inl e) \<longleftrightarrow>
      (\<exists>used w rest. ws = used @ w # rest \<and> list_all goes_on used
        \<and> \<not> sublist (terminator f) (delivered used) \<and> length (delivered used) \<le> max_batch_bytes
        \<and> (w = Elapsed \<and> e = Timeout ''collection batch'' (cs_batch_timeout_ms spec)
           \<or> w \<in> {ChannelEnd, Msg Eof, Msg Close, Msg ExitStatus} \<and> e = Closed
           \<or> (\<exists>d. w = Msg (Data d) \<and> max_batch_bytes < length (delivered used @ d)
                \<and> e = OutputTooLarge max_batch_bytes))))
   \<and> (Elapsed \<in> set ws \<longrightarrow> (\<exists>r. read_reply spec (terminator f) [] ws = Some r))"
proof -
  have t: "terminator f \<noteq> []" by (simp add: terminator_def)
  then have start: "waiting (terminator f) [] []" by (simp add: waiting_def)
  have found: "reply_ends spec term buf w = Some (Inr out) \<longleftrightarrow>
      (\<exists>d. w = Msg (Data d) \<and> out = buf @ d \<and> sublist term out \<and> length out \<le> max_batch_bytes)" for "term" buf w
    by (cases w rule: goes_on.cases) auto
  have failed: "reply_ends spec term buf w = Some (Inl e) \<longleftrightarrow>
      w = Elapsed \<and> e = Timeout ''collection batch'' (cs_batch_timeout_ms spec)
      \<or> w \<in> {ChannelEnd, Msg Eof, Msg Close, Msg ExitStatus} \<and> e = Closed
      \<or> (\<exists>d. w = Msg (Data d) \<and> max_batch_bytes < length (buf @ d) \<and> e = OutputTooLarge max_batch_bytes)"
    for "term" buf w
    by (cases w rule: goes_on.cases) auto
  note ends = read_reply_iff [OF t start, of spec ws, unfolded waiting_def append_Nil]
  have "length (delivered used) \<le> max_batch_bytes" if "length (delivered used @ d) \<le> max_batch_bytes" for used d
    using that by simp
  then have "read_reply spec (terminator f) [] ws = Some (Inr out) \<longleftrightarrow>
      (\<exists>used d rest. ws = used @ Msg (Data d) # rest \<and> list_all goes_on used \<and> out = delivered used @ d
        \<and> sublist (terminator f) out \<and> \<not> sublist (terminator f) (delivered used)
        \<and> length out \<le> max_batch_bytes)"
    unfolding ends found by blast
  moreover note ends [of "Inl e", unfolded failed conj_assoc]
  ultimately show ?thesis using read_reply_returns by (intro conjI impI)
qed

theorem read_reply_spec_witness:
  "read_reply (connection_spec_new ''h'' ''u'') (terminator \<lparr>nonce = ''N''\<rparr>) []
     [Msg (Data [CHR 10, CHR ''N'']), Msg (Data [CHR ''Z'', CHR 10]), Elapsed] =
   Some (Inr [CHR 10, CHR ''N'', CHR ''Z'', CHR 10])
   \<and> sublist (terminator \<lparr>nonce = ''N''\<rparr>) [CHR 10, CHR ''N'', CHR ''Z'', CHR 10]"
proof -
  have "read_reply (connection_spec_new ''h'' ''u'') (terminator \<lparr>nonce = ''N''\<rparr>) []
     [Msg (Data [CHR 10, CHR ''N'']), Msg (Data [CHR ''Z'', CHR 10]), Elapsed] =
   Some (Inr [CHR 10, CHR ''N'', CHR ''Z'', CHR 10])"
    by (simp add: terminator_def find_bytes_def max_batch_bytes_def Let_def)
  then show ?thesis
    using read_reply_spec [of "connection_spec_new ''h'' ''u''" "\<lparr>nonce = ''N''\<rparr>"] by blast
qed

text \<open>Once the deadline is among the events, a batch has an answer.\<close>

lemma batch_answers: "Elapsed \<in> set ws \<Longrightarrow> snd (batch lossy wr ws requests self) \<noteq> None"
  using read_reply_returns [of ws "ss_spec self" "terminator (ss_framing self)" "[]"]
  by (auto simp: batch_def Let_def split: prod.split write_result.split)

text \<open>
  One exchange: how the bytes are read as text, how the write went, and the events up to the
  deadline, which is the last one there can be.
\<close>

record link =
  lk_lossy :: "string \<Rightarrow> string"
  lk_write :: write_result
  lk_events :: "channel_wait list"

definition session_batch ::
  "link \<Rightarrow> request list \<Rightarrow> ssh_session \<Rightarrow> ssh_session \<times> (transport_error + responses)" where
  "session_batch lk requests self =
     (case batch (lk_lossy lk) (lk_write lk) (lk_events lk @ [Elapsed]) requests self of
        (self', r) \<Rightarrow> (self', the r))"

lemma session_batch_state:
  "fst (session_batch lk requests self) =
     (if snd (encode (ss_framing self) requests) = [] then self
      else self\<lparr>ss_round_trips := ss_round_trips self + 1\<rparr>)"
  by (auto simp: session_batch_def batch_def Let_def split: prod.split write_result.split)

text \<open>What the wire gives once a script is on its way: the bytes of the reply, or the failure.\<close>

definition reply_of :: "link \<Rightarrow> ssh_session \<Rightarrow> transport_error + string" where
  "reply_of lk s =
     (case lk_write lk of
        WriteElapsed \<Rightarrow> Inl (Timeout ''collection batch'' (cs_batch_timeout_ms (ss_spec s)))
      | WriteError e \<Rightarrow> Inl (Ssh e)
      | Written \<Rightarrow>
          the (read_reply (ss_spec s) (terminator (ss_framing s)) [] (lk_events lk @ [Elapsed])))"

lemma session_batch_reply:
  "snd (session_batch lk requests s) =
     (if snd (encode (ss_framing s) requests) = [] then Inr []
      else map_sum id (\<lambda>buf. decode (ss_framing s) (lk_lossy lk buf)) (reply_of lk s))"
proof -
  obtain r where "read_reply (ss_spec s) (terminator (ss_framing s)) [] (lk_events lk @ [Elapsed]) = Some r"
    using read_reply_returns [of "lk_events lk @ [Elapsed]"] by fastforce
  then show ?thesis
    by (auto simp: session_batch_def batch_def reply_of_def Let_def split: prod.split write_result.split)
qed

text \<open>A reply that arrives, in whatever pieces.\<close>

lemma delivered_chunks: "delivered (map (\<lambda>d. Msg (Data d)) chunks) = concat chunks"
  by (induction chunks) simp_all

lemma read_reply_delivers:
  assumes "term \<noteq> []" "chunks \<noteq> []" "\<not> sublist term (buf @ concat (butlast chunks))"
    "sublist term (buf @ concat chunks)" "length (buf @ concat chunks) \<le> max_batch_bytes"
  shows "read_reply spec term buf (map (\<lambda>d. Msg (Data d)) chunks @ ws) = Some (Inr (buf @ concat chunks))"
proof -
  let ?ds = "butlast chunks" and ?d = "last chunks" and ?msg = "\<lambda>d. Msg (Data d)"
  have chunks: "chunks = ?ds @ [?d]" using assms(2) by simp
  have all: "concat chunks = concat ?ds @ ?d" by (subst chunks) simp
  have events: "map ?msg chunks @ ws = map ?msg ?ds @ ?msg ?d # ws" by (subst chunks) simp
  have w: "waiting term buf (map ?msg ?ds)"
    using assms(3,5) by (simp add: waiting_def delivered_chunks list.pred_map list_all_iff all)
  then have "waiting term (buf @ concat ?ds) []" by (simp add: waiting_def delivered_chunks)
  then show ?thesis
    using assms(4,5) w unfolding events
    by (simp add: read_reply_waits [OF assms(1)] read_reply_turn [OF assms(1)] delivered_chunks all del: read_reply.simps)
qed

definition delivers :: "link \<Rightarrow> framing \<Rightarrow> string \<Rightarrow> bool" where
  "delivers lk f out \<longleftrightarrow> lk_write lk = Written \<and> lk_lossy lk out = out \<and> length out \<le> max_batch_bytes
     \<and> (\<exists>chunks. chunks \<noteq> [] \<and> lk_events lk = map (\<lambda>d. Msg (Data d)) chunks \<and> concat chunks = out
          \<and> sublist (terminator f) out \<and> \<not> sublist (terminator f) (concat (butlast chunks)))"

lemma session_batch_delivers:
  assumes "delivers lk (ss_framing self) out" "snd (encode (ss_framing self) requests) \<noteq> []"
  shows "session_batch lk requests self =
    (self\<lparr>ss_round_trips := ss_round_trips self + 1\<rparr>, Inr (decode (ss_framing self) out))"
proof -
  have "terminator (ss_framing self) \<noteq> []" by (simp add: terminator_def)
  then show ?thesis
    using assms read_reply_delivers [of "terminator (ss_framing self)" _ "[]"]
    by (auto simp: delivers_def session_batch_def batch_def Let_def split: prod.split)
qed

section \<open>Closing a session\<close>

text \<open>Whether the end of input could be sent makes no difference; the arguments are what the library answers.\<close>

definition session_close :: "string + unit \<Rightarrow> string + unit \<Rightarrow> transport_error + unit" where
  "session_close eof disconnect = (case disconnect of Inl e \<Rightarrow> Inl (Ssh e) | Inr _ \<Rightarrow> Inr ())"

lemma session_close_ignores_eof: "session_close eof disconnect = session_close eof' disconnect"
  by (simp add: session_close_def)

section \<open>Opening a session\<close>

text \<open>
  \<open>learn\<close>: make the directory of the pin file, restrict it if it is new, and write the pin. The
  arguments are what the file system answers to each step.
\<close>

record learn_fs =
  lf_parent :: bool
  lf_existed :: bool
  lf_mkdir :: "string + unit"
  lf_chmod :: "string + unit"
  lf_write :: "string + unit"

definition learn :: "learn_fs \<Rightarrow> string + unit" where
  "learn fs =
     (if lf_parent fs then
        (case lf_mkdir fs of
           Inl e \<Rightarrow> Inl e
         | Inr _ \<Rightarrow>
             if lf_existed fs then lf_write fs
             else (case lf_chmod fs of Inl e \<Rightarrow> Inl e | Inr _ \<Rightarrow> lf_write fs))
      else lf_write fs)"

text \<open>
  What happens outside the program during \<open>connect\<close>: whether each of the two deadlines passes,
  the key the server offers and the error the handshake ends in, the pin store and the server's
  answers, and the results of opening the channel, starting the shell and writing to it.
\<close>

record connect_env =
  ce_elapsed :: bool
  ce_key :: "string option"
  ce_error :: "string option"
  ce_pins :: pin_store
  ce_startup_elapsed :: bool
  ce_server :: auth_server
  ce_channel :: "string + unit"
  ce_exec :: "string + unit"
  ce_write :: "string + unit"
  ce_hashes :: "u64 \<times> u64"

definition session_connect :: "connect_env \<Rightarrow> connection_spec \<Rightarrow> transport_error + ssh_session" where
  "session_connect env spec =
     (if ce_elapsed env then Inl (Timeout ''connect'' (cs_connect_timeout_ms spec))
      else
        (let checked = map_option (check_server_key spec (ce_pins env)) (ce_key env);
             accepted = (case checked of Some (_, a, _) \<Rightarrow> a | None \<Rightarrow> False)
         in if \<not> accepted \<or> ce_error env \<noteq> None then
              Inl (connect_failure spec (map_option fst checked)
                     (case ce_error env of Some e \<Rightarrow> e | None \<Rightarrow> ''Unknown server key''))
            else if ce_startup_elapsed env then
              Inl (Timeout ''authentication and shell startup'' (cs_connect_timeout_ms spec))
            else
              (case authenticate (ce_server env) spec of
                 Inl e \<Rightarrow> Inl e
               | Inr _ \<Rightarrow>
                   (case ce_channel env of
                      Inl e \<Rightarrow> Inl (Ssh e)
                    | Inr _ \<Rightarrow>
                        (case ce_exec env of
                           Inl e \<Rightarrow> Inl (Ssh e)
                         | Inr _ \<Rightarrow>
                             (case ce_write env of
                                Inl e \<Rightarrow> Inl (Ssh e)
                              | Inr _ \<Rightarrow>
                                  Inr \<lparr>ss_spec = spec,
                                       ss_framing = framing_new
                                         (generate_nonce (fst (ce_hashes env)) (snd (ce_hashes env))),
                                       ss_round_trips = 0\<rparr>))))))"

text \<open>
  C7: a session exists only if the server offered a key that the policy accepts and then accepted
  the credentials; its framing is usable, so batches over it decode to what the host printed.
\<close>

theorem session_connect_safe:
  assumes "session_connect env spec = Inr session"
  shows "\<exists>fp. ce_key env = Some fp
      \<and> fst (snd (check_server_key spec (ce_pins env) fp))
      \<and> authenticate (ce_server env) spec = Inr ()
      \<and> ss_spec session = spec \<and> ss_round_trips session = 0
      \<and> nonce_ok (ss_framing session) \<and> format_ok (ss_framing session)"
proof -
  have "ce_key env \<noteq> None" using assms
    by (auto simp: session_connect_def split: if_splits option.splits)
  then obtain fp where fp: "ce_key env = Some fp" by blast
  from assms have "fst (snd (check_server_key spec (ce_pins env) fp))"
    "authenticate (ce_server env) spec = Inr ()" "ss_spec session = spec" "ss_round_trips session = 0"
    "ss_framing session = framing_new (generate_nonce (fst (ce_hashes env)) (snd (ce_hashes env)))"
    by (auto simp: session_connect_def fp Let_def split: if_splits prod.splits sum.splits)
  then show ?thesis using fp generate_nonce_ok by simp
qed

definition demo_server :: auth_server where
  "demo_server =
     \<lparr>as_password = \<lambda>u p. if p = ''pw'' then Success else Refused, as_publickey = \<lambda>_ _. Refused,
      as_agent_key = \<lambda>_ _. Refused, as_rsa_hash = Inr (), as_load_file = \<lambda>_ _. Inl ''no'',
      as_decode = \<lambda>_ _. Inl ''no'', as_agent = Inl ''no'', as_identities = Inr []\<rparr>"

definition demo_env :: connect_env where
  "demo_env =
     \<lparr>ce_elapsed = False, ce_key = Some ''fp'', ce_error = None,
      ce_pins = \<lparr>ps_home = Some ''/r'', ps_open = \<lambda>_. Opened, ps_check = \<lambda>_ _ _. Known,
                 ps_learn = \<lambda>_ _ _. Inr ()\<rparr>,
      ce_startup_elapsed = False, ce_server = demo_server, ce_channel = Inr (), ce_exec = Inr (),
      ce_write = Inr (), ce_hashes = (1, 2)\<rparr>"

theorem session_connect_safe_witness:
  "\<exists>session. session_connect demo_env ((connection_spec_new ''h'' ''u'')\<lparr>cs_auth := Password ''pw''\<rparr>) = Inr session
     \<and> nonce_ok (ss_framing session)"
proof -
  let ?spec = "(connection_spec_new ''h'' ''u'')\<lparr>cs_auth := Password ''pw''\<rparr>"
  obtain session where s: "session_connect demo_env ?spec = Inr session"
    by (simp add: session_connect_def demo_env_def demo_server_def check_server_key_def
        connection_spec_new_def authenticate_def judge_def)
  from session_connect_safe [OF s] s show ?thesis by blast
qed

end
