(* ===== verification/Probe.thy ===== *)
theory Probe
  imports Frame
begin

text \<open>
  Capability detection (\<open>crates/sg-transport/src/probe.rs\<close>): the requests of the one batch that is
  issued on connecting, and what is concluded from the answers.
\<close>

section \<open>What is asked\<close>

definition probed_binaries :: "string list" where
  "probed_binaries =
     [''busybox'', ''docker'', ''podman'', ''kubectl'', ''nvidia-smi'', ''rocm-smi'', ''smartctl'',
      ''zpool'', ''mdadm'', ''systemctl'', ''journalctl'', ''ss'', ''ip'', ''lsblk'', ''virsh'',
      ''qm'', ''upsc'', ''sensors'', ''fail2ban-client'', ''nft'', ''iptables'']"

definition probed_paths :: "string list" where
  "probed_paths =
     [''/proc/stat'', ''/proc/meminfo'', ''/proc/loadavg'', ''/proc/uptime'', ''/proc/net/dev'',
      ''/proc/net/snmp'', ''/proc/net/sockstat'', ''/proc/diskstats'', ''/proc/mounts'',
      ''/proc/pressure/cpu'', ''/sys/class/hwmon'', ''/sys/class/thermal'', ''/sys/block'',
      ''/sys/fs/cgroup/cgroup.controllers'', ''/sys/fs/cgroup/cpu'']"

definition kernel_request :: request where "kernel_request = Exec [''uname'', ''-r'']"
definition arch_request :: request where "arch_request = Exec [''uname'', ''-m'']"
definition hostname_request :: request where "hostname_request = Exec [''uname'', ''-n'']"
definition os_release_request :: request where "os_release_request = ReadFile ''/etc/os-release''"
definition clock_ticks_request :: request where
  "clock_ticks_request = Exec [''getconf'', ''CLK_TCK'']"
definition page_size_request :: request where
  "page_size_request = Exec [''getconf'', ''PAGESIZE'']"
definition stat_request :: request where "stat_request = ReadFile ''/proc/stat''"
definition coreutils_request :: request where "coreutils_request = Exec [''ls'', ''--version'']"

definition binaries_request :: request where
  "binaries_request =
     Exec [''sh'', ''-c'',
       ''for b in '' @ join '' '' probed_binaries @
       ''; do command -v \"$b\" >/dev/null 2>&1 && echo \"$b\"; done; exit 0'']"

definition paths_request :: request where
  "paths_request =
     Exec [''sh'', ''-c'',
       ''for p in '' @ join '' '' probed_paths @
       ''; do [ -r \"$p\" ] && echo \"$p\"; done; exit 0'']"

definition probe_requests :: "request list" where
  "probe_requests =
     [kernel_request, arch_request, hostname_request, os_release_request, clock_ticks_request,
      page_size_request, stat_request, coreutils_request, binaries_request, paths_request]"

section \<open>What is concluded\<close>

text \<open>\<open>trim_matches('"')\<close>.\<close>

definition trim_quotes :: "string \<Rightarrow> string" where
  "trim_quotes s = rev (dropWhile ((=) (CHR 34)) (rev (dropWhile ((=) (CHR 34)) s)))"

fun first_pretty_name :: "string list \<Rightarrow> string option" where
  "first_pretty_name [] = None"
| "first_pretty_name (l # ls) =
     (case strip_prefix ''PRETTY_NAME='' l of
        Some v \<Rightarrow> Some (trim_quotes (trim v))
      | None \<Rightarrow> first_pretty_name ls)"

definition parse_pretty_name :: "string \<Rightarrow> string option" where
  "parse_pretty_name os_release = first_pretty_name (lines os_release)"

definition is_cpu_line :: "string \<Rightarrow> bool" where
  "is_cpu_line l \<longleftrightarrow> prefix ''cpu'' l \<and> 3 < length l \<and> is_digit (l ! 3)"

definition count_cpus :: "string \<Rightarrow> u32" where
  "count_cpus stat = word_of_nat (length (filter is_cpu_line (lines stat)))"

definition nonempty_lines :: "string \<Rightarrow> string set" where
  "nonempty_lines t = set (filter (\<lambda>l. l \<noteq> []) (map trim (lines t)))"

text \<open>The closure \<open>line\<close>: a trimmed answer that is not empty.\<close>

definition probe_line :: "responses \<Rightarrow> request \<Rightarrow> string option" where
  "probe_line responses r =
     (case responses_text responses r of
        Some t \<Rightarrow> if trim t = [] then None else Some (trim t)
      | None \<Rightarrow> None)"

definition unwrap_or :: "'a \<Rightarrow> 'a option \<Rightarrow> 'a" where
  "unwrap_or d x = (case x of Some v \<Rightarrow> v | None \<Rightarrow> d)"

definition probe_parse :: "responses \<Rightarrow> capabilities" where
  "probe_parse responses =
     (let caps =
        \<lparr>cap_kernel = unwrap_or [] (probe_line responses kernel_request),
         cap_distro = unwrap_or []
           (Option.bind (responses_text responses os_release_request) parse_pretty_name),
         cap_arch = unwrap_or [] (probe_line responses arch_request),
         cap_hostname = unwrap_or [] (probe_line responses hostname_request),
         cap_coreutils = CuUnknown,
         cap_cgroup = CgUnknown,
         cap_cpu_count =
           unwrap_or 0 (map_option count_cpus (responses_text responses stat_request)),
         cap_clock_ticks =
           unwrap_or 100 (Option.bind (probe_line responses clock_ticks_request) parse_u64),
         cap_page_size =
           unwrap_or 4096 (Option.bind (probe_line responses page_size_request) parse_u64),
         cap_binaries =
           unwrap_or {} (map_option nonempty_lines (responses_text responses binaries_request)),
         cap_paths =
           unwrap_or {} (map_option nonempty_lines (responses_text responses paths_request))\<rparr>;
       gnu = (case responses_text responses coreutils_request of
                Some t \<Rightarrow> contains ''GNU coreutils'' t | None \<Rightarrow> False)
      in caps\<lparr>cap_coreutils :=
                if gnu then Gnu else if caps_has caps ''busybox'' then Busybox else CuUnknown,
              cap_cgroup :=
                if caps_has_path caps ''/sys/fs/cgroup/cgroup.controllers'' then V2
                else if caps_has_path caps ''/sys/fs/cgroup/cpu'' then V1 else CgUnknown\<rparr>)"

section \<open>Facts\<close>

lemma probe_line_Nil [simp]: "probe_line [] r = None"
  by (simp add: probe_line_def responses_text_def)

text \<open>The words the fragments are built from need no quoting inside \<open>sh -c\<close>.\<close>

definition bare_word :: "string \<Rightarrow> bool" where
  "bare_word w \<longleftrightarrow> list_all (\<lambda>c. is_digit c \<or> 97 \<le> byte c \<and> byte c \<le> 122
     \<or> c \<in> set ''-_./'') w"

lemma probed_words_bare: "list_all bare_word (probed_binaries @ probed_paths)"
  by (simp add: probed_binaries_def probed_paths_def bare_word_def is_digit_def)

lemma trim_quotes_quoted:
  "CHR 34 \<notin> set s \<Longrightarrow> trim_quotes (CHR 34 # s @ [CHR 34]) = s"
proof -
  assume "CHR 34 \<notin> set s"
  then have "dropWhile ((=) (CHR 34)) (s @ [CHR 34]) = s @ [CHR 34] \<or> s = []"
    by (cases s) auto
  moreover have "dropWhile ((=) (CHR 34)) (rev s) = rev s"
    using \<open>CHR 34 \<notin> set s\<close> by (cases "rev s") (auto simp: in_set_conv_decomp)
  ultimately show ?thesis by (auto simp: trim_quotes_def)
qed

lemma count_cpus_app: "length (filter is_cpu_line (xs @ ys)) =
    length (filter is_cpu_line xs) + length (filter is_cpu_line ys)"
  by simp

text \<open>The lines \<open>/proc/stat\<close> has for \<open>n\<close> cores.\<close>

definition core_line :: "nat \<Rightarrow> string \<Rightarrow> string" where
  "core_line i rest = ''cpu'' @ show_nat i @ '' '' @ rest"

lemma core_line_is_cpu: "is_cpu_line (core_line i rest)"
proof -
  obtain d ds where "show_nat i = d # ds" "is_digit d"
    using show_nat_digits [of i] by (cases "show_nat i") auto
  then show ?thesis by (simp add: is_cpu_line_def core_line_def)
qed

section \<open>A host that answers\<close>

lemma trim_line: "ws_free s \<Longrightarrow> trim (s @ [nl]) = s"
proof -
  assume s: "ws_free s"
  have nl: "ws_len [nl] = 1" by (simp add: ws_len.simps)
  have all: "all_ws [nl]" by (simp add: all_ws.simps nl)
  have "trim_end (s @ [nl]) = s" if "ws_free s" for s
    using that
  proof (induction s)
    case Nil
    then show ?case using all by simp
  next
    case (Cons c s)
    then have "ws_len (c # s @ [nl]) = 0"
      using ws_len_append_ascii [of c s nl "[]"] by simp
    then have "\<not> all_ws (c # s @ [nl])" by (simp add: all_ws.simps)
    with Cons show ?case by simp
  qed
  moreover have "trim_start (s @ [nl]) = (if s = [] then [] else s @ [nl])"
  proof (cases s)
    case Nil
    then show ?thesis using nl by (simp add: trim_start.simps)
  next
    case (Cons c cs)
    then have "ws_len (s @ [nl]) = 0"
      using s ws_len_append_ascii [of c cs nl "[]"] by simp
    then show ?thesis using Cons by (simp add: trim_start.simps)
  qed
  ultimately show ?thesis using s by (simp add: trim_def)
qed

lemma bare_word_ws_free: "bare_word w \<Longrightarrow> ws_free w"
  by (rule ws_free_ascii) (auto simp: bare_word_def list_all_iff is_digit_def is_ascii_ws_def)

lemma bare_word_no_nl: "bare_word w \<Longrightarrow> nl \<notin> set w \<and> cr \<notin> set w"
  by (auto simp: bare_word_def list_all_iff is_digit_def)

lemma nonempty_lines_words:
  assumes "set ws \<subseteq> set (probed_binaries @ probed_paths)"
  shows "nonempty_lines (unlines ws) = set ws"
proof -
  have bare: "bare_word w \<and> w \<noteq> []" if "w \<in> set ws" for w
    using assms that probed_words_bare
    by (auto simp: list_all_iff probed_binaries_def probed_paths_def)
  then have "lines (unlines ws) = map strip_cr ws"
    using bare_word_no_nl by (intro lines_unlines) blast
  moreover have "map trim (map strip_cr ws) = ws"
    unfolding map_map
    using bare bare_word_no_nl bare_word_ws_free by (intro map_idI) (simp add: strip_cr_id trim_ws_free)
  ultimately show ?thesis using bare by (auto simp: nonempty_lines_def)
qed

lemma count_cpus_lines:
  assumes "list_all (\<lambda>l. nl \<notin> set l \<and> cr \<notin> set l) ls" "length (filter is_cpu_line ls) = n"
  shows "count_cpus (unlines ls) = word_of_nat n"
proof -
  have "lines (unlines ls) = map strip_cr ls"
    using assms(1) by (intro lines_unlines) (simp add: list_all_iff)
  also have "\<dots> = ls"
    using assms(1) by (intro map_idI strip_cr_id) (simp add: list_all_iff)
  finally show ?thesis using assms(2) by (simp add: count_cpus_def)
qed

text \<open>
  C13: what detection concludes from a host that answers is what the host said: its kernel, its
  architecture and its name; its tick rate and page size; one CPU for each numbered line of
  \<open>/proc/stat\<close>, whatever the numbers are, and none for the aggregate line before them or for the lines
  of other counters after them; the programs and paths it listed and no others; the cgroup version
  those paths imply, with the unified hierarchy first; and the flavour of its tools, by their own
  word first and by the programs present second.
\<close>

theorem probe_parse_answers:
  assumes "responses_text rs kernel_request = Some (release @ [nl])" "ws_free release"
    and "responses_text rs arch_request = Some (arch @ [nl])" "ws_free arch"
    and "responses_text rs hostname_request = Some (host @ [nl])" "ws_free host"
    and "responses_text rs clock_ticks_request = Some (show_nat (unat t) @ [nl])"
    and "responses_text rs page_size_request = Some (show_nat (unat p) @ [nl])"
    and "responses_text rs stat_request =
      Some (unlines (agg # map (\<lambda>(i, rest). core_line i rest) cores @ counters))"
    and "prefix ''cpu '' agg" "\<forall>l \<in> set counters. \<not> prefix ''cpu'' l"
    and "\<forall>l \<in> set (agg # map snd cores @ counters). nl \<notin> set l \<and> cr \<notin> set l"
    and "responses_text rs binaries_request = Some (unlines bs)" "set bs \<subseteq> set probed_binaries"
    and "responses_text rs paths_request = Some (unlines ps)" "set ps \<subseteq> set probed_paths"
  shows "cap_kernel (probe_parse rs) = release \<and> cap_arch (probe_parse rs) = arch
    \<and> cap_hostname (probe_parse rs) = host
    \<and> cap_clock_ticks (probe_parse rs) = t \<and> cap_page_size (probe_parse rs) = p
    \<and> cap_cpu_count (probe_parse rs) = word_of_nat (length cores)
    \<and> cap_binaries (probe_parse rs) = set bs \<and> cap_paths (probe_parse rs) = set ps
    \<and> cap_cgroup (probe_parse rs) =
        (if ''/sys/fs/cgroup/cgroup.controllers'' \<in> set ps then V2
         else if ''/sys/fs/cgroup/cpu'' \<in> set ps then V1 else CgUnknown)
    \<and> cap_coreutils (probe_parse rs) =
        (if \<exists>v. responses_text rs coreutils_request = Some v \<and> sublist ''GNU coreutils'' v then Gnu
         else if ''busybox'' \<in> set bs then Busybox else CuUnknown)"
proof -
  have num: "Option.bind (probe_line rs r) parse_u64 = Some w"
    if "responses_text rs r = Some (show_nat (unat w) @ [nl])" for r w
    using that show_nat_digits [of "unat w"]
    by (simp add: probe_line_def trim_line ws_free_show_nat parse_u64_show)
  have word: "unwrap_or [] (probe_line rs r) = w"
    if "responses_text rs r = Some (w @ [nl])" "ws_free w" for r w
    using that by (simp add: probe_line_def trim_line unwrap_or_def)
  let ?ls = "agg # map (\<lambda>(i, rest). core_line i rest) cores @ counters"
  have digits: "nl \<notin> set (show_nat i) \<and> cr \<notin> set (show_nat i)" for i
    using show_nat_ascii [of nl i] show_nat_ascii [of cr i] by (auto simp: is_digit_def)
  have core: "nl \<notin> set (core_line i l) \<and> cr \<notin> set (core_line i l)" if "(i, l) \<in> set cores" for i l
  proof -
    have "l \<in> set (agg # map snd cores @ counters)" using that by force
    with assms(12) have "nl \<notin> set l \<and> cr \<notin> set l" by (rule bspec)
    then show ?thesis using digits by (simp add: core_line_def)
  qed
  have "list_all (\<lambda>l. nl \<notin> set l \<and> cr \<notin> set l) ?ls"
    using assms(12) core by (auto simp: list_all_iff)
  moreover have "length (filter is_cpu_line ?ls) = length cores"
  proof -
    have "filter is_cpu_line counters = []" using assms(11) by (auto simp: filter_empty_conv is_cpu_line_def)
    moreover have "\<not> is_cpu_line agg" using assms(10) by (auto simp: is_cpu_line_def is_digit_def prefix_def)
    moreover have "filter is_cpu_line (map (\<lambda>(i, rest). core_line i rest) cores) =
        map (\<lambda>(i, rest). core_line i rest) cores"
      by (auto simp: filter_id_conv core_line_is_cpu)
    ultimately show ?thesis by simp
  qed
  ultimately have "count_cpus (unlines ?ls) = word_of_nat (length cores)" by (rule count_cpus_lines)
  then have cpus: "unwrap_or 0 (map_option count_cpus (responses_text rs stat_request)) = word_of_nat (length cores)"
    by (simp add: assms(9) unwrap_or_def)
  have sets: "nonempty_lines (unlines bs) = set bs" "nonempty_lines (unlines ps) = set ps"
    using assms(14,16) by (auto intro!: nonempty_lines_words)
  show ?thesis
    unfolding probe_parse_def Let_def word [OF assms(1,2)] word [OF assms(3,4)] word [OF assms(5,6)] cpus
    using num [OF assms(7)] num [OF assms(8)]
    by (simp add: assms(13,15) sets unwrap_or_def caps_has_path_def caps_has_def contains_sublist
        split: option.split)
qed

text \<open>The ids of the detection batch are distinct, so each answer reaches its own reader.\<close>

lemma kernel_low: "low_byte kernel_request = 0x2e"
  by code_simp

lemma arch_low: "low_byte arch_request = 0x89"
  by code_simp

lemma hostname_low: "low_byte hostname_request = 0xb2"
  by code_simp

lemma os_release_low: "low_byte os_release_request = 0x21"
  by code_simp

lemma clock_ticks_low: "low_byte clock_ticks_request = 0x9c"
  by code_simp

lemma page_size_low: "low_byte page_size_request = 0x33"
  by code_simp

lemma stat_low: "low_byte stat_request = 0x0b"
  by code_simp

lemma coreutils_low: "low_byte coreutils_request = 0xbe"
  by code_simp

lemma binaries_low: "low_byte binaries_request = 0xd2"
  by code_simp

lemma paths_low: "low_byte paths_request = 0xe7"
  by code_simp

lemmas probe_low_bytes = kernel_low arch_low hostname_low os_release_low clock_ticks_low page_size_low
  stat_low coreutils_low binaries_low paths_low

lemma probe_ids_distinct: "distinct (map request_id probe_requests)"
  by (rule distinct_request_ids) (simp add: probe_requests_def probe_low_bytes)

definition answers :: "(request \<times> string) list \<Rightarrow> responses" where
  "answers xs = map (\<lambda>(r, t). (request_id r, response_ok t)) xs"

lemma responses_text_answers:
  "distinct (map (request_id \<circ> fst) xs) \<Longrightarrow> (r, t) \<in> set xs \<Longrightarrow> responses_text (answers xs) r = Some t"
proof -
  assume d: "distinct (map (request_id \<circ> fst) xs)" and rt: "(r, t) \<in> set xs"
  have "distinct (map fst (answers xs))"
    using d by (simp add: answers_def comp_def split_beta)
  moreover have "(request_id r, response_ok t) \<in> set (answers xs)"
    using rt by (force simp: answers_def)
  ultimately have "hm_get (answers xs) (request_id r) = Some (response_ok t)"
    by (rule map_of_is_SomeI)
  then show ?thesis by (simp add: responses_text_def is_ok_def response_ok_def)
qed

definition demo_answers :: responses where
  "demo_answers = answers
      [(kernel_request, ''6.1.0'' @ [nl]), (arch_request, ''aarch64'' @ [nl]), (hostname_request, ''web-01'' @ [nl]),
       (clock_ticks_request, ''250'' @ [nl]), (page_size_request, ''4096'' @ [nl]),
       (stat_request, unlines [''cpu  4 5'', ''cpu0 2 3'', ''cpu3 2 2'', ''intr 5'']),
       (binaries_request, unlines [''docker'', ''ss'']),
       (paths_request, unlines [''/proc/stat'', ''/sys/fs/cgroup/cpu''])]"

theorem probe_parse_answers_witness:
  "cap_hostname (probe_parse demo_answers) = ''web-01'' \<and> cap_clock_ticks (probe_parse demo_answers) = 250
   \<and> cap_cpu_count (probe_parse demo_answers) = 2 \<and> cap_binaries (probe_parse demo_answers) = {''docker'', ''ss''}
   \<and> cap_cgroup (probe_parse demo_answers) = V1"
proof -
  have d: "distinct (map (request_id \<circ> fst)
      [(kernel_request, ''6.1.0'' @ [nl]), (arch_request, ''aarch64'' @ [nl]), (hostname_request, ''web-01'' @ [nl]),
       (clock_ticks_request, ''250'' @ [nl]), (page_size_request, ''4096'' @ [nl]),
       (stat_request, unlines [''cpu  4 5'', ''cpu0 2 3'', ''cpu3 2 2'', ''intr 5'']),
       (binaries_request, unlines [''docker'', ''ss'']),
       (paths_request, unlines [''/proc/stat'', ''/sys/fs/cgroup/cpu''])])"
    using probe_ids_distinct by (simp add: probe_requests_def)
  have num: "show_nat 250 = ''250''" "show_nat 4096 = ''4096''"
    "show_nat 0 = ''0''" "show_nat 3 = ''3''"
    by code_simp+
  have words: "ws_free ''6.1.0''" "ws_free ''aarch64''" "ws_free ''web-01''"
    by (rule ws_free_ascii, simp add: is_ascii_ws_def)+
  note txts = responses_text_answers [OF d, folded demo_answers_def]
  have "responses_text demo_answers kernel_request = Some (''6.1.0'' @ [nl])"
    "responses_text demo_answers arch_request = Some (''aarch64'' @ [nl])"
    "responses_text demo_answers hostname_request = Some (''web-01'' @ [nl])"
    "responses_text demo_answers clock_ticks_request = Some (show_nat (unat (250 :: u64)) @ [nl])"
    "responses_text demo_answers page_size_request = Some (show_nat (unat (4096 :: u64)) @ [nl])"
    "responses_text demo_answers stat_request = Some (unlines (''cpu  4 5'' #
       map (\<lambda>(i, rest). core_line i rest) [(0, ''2 3''), (3, ''2 2'')] @ [''intr 5'']))"
    "responses_text demo_answers binaries_request = Some (unlines [''docker'', ''ss''])"
    "responses_text demo_answers paths_request = Some (unlines [''/proc/stat'', ''/sys/fs/cgroup/cpu''])"
    by (rule txts, simp add: num core_line_def)+
  note a = this
  show ?thesis
    using probe_parse_answers [OF a(1) words(1) a(2) words(2) a(3) words(3) a(4-6) _ _ _ a(7) _ a(8)]
    by (simp add: probed_binaries_def probed_paths_def)
qed

text \<open>Every detection request can be served, so detection always asks the host.\<close>

lemma probe_requests_servable: "snd (encode f probe_requests) \<noteq> []"
  by (simp add: encode_def encode_loop_eq probe_requests_def kernel_request_def)

end
