(* ===== verification/Store.thy ===== *)
theory Store
  imports Model "HOL-Library.Multiset"
begin

text \<open>
  The bounded in-memory store of one target (\<open>crates/sg-core/src/store.rs\<close>): a window of points
  per series, and the current descriptors, entities and texts.
\<close>

section \<open>The store\<close>

definition default_window :: nat where
  "default_window = 300"

record point =
  pt_at :: i64
  pt_value :: f64

record live_store =
  st_window :: nat
  st_history :: "(series_id, point list) hmap"
  st_descriptors :: "(series_id, series_descriptor) hmap"
  st_entities :: "(entity_id, entity) hmap"
  st_text :: "(series_id, string) hmap"

definition with_window :: "nat \<Rightarrow> live_store" where
  "with_window window =
     \<lparr>st_window = max window 1, st_history = [], st_descriptors = [], st_entities = [],
      st_text = []\<rparr>"

definition store_default :: live_store where
  "store_default = with_window default_window"

text \<open>\<open>while series.len() > window { series.pop_front() }\<close>\<close>

fun trim_front :: "nat \<Rightarrow> 'a list \<Rightarrow> 'a list" where
  "trim_front window [] = []"
| "trim_front window (x # xs) = (if window < length (x # xs) then trim_front window xs else x # xs)"

definition entry_or_default :: "series_id \<Rightarrow> live_store \<Rightarrow> point list" where
  "entry_or_default sid self = (case hm_get (st_history self) sid of Some h \<Rightarrow> h | None \<Rightarrow> [])"

definition ingest_sample :: "sample \<Rightarrow> live_store \<Rightarrow> live_store" where
  "ingest_sample s self =
     (case as_f64 (sam_value s) of
        Some v \<Rightarrow>
          if is_finite v then
            self\<lparr>st_history := hm_insert (sam_series s)
              (trim_front (st_window self)
                (entry_or_default (sam_series s) self @ [\<lparr>pt_at = sam_at s, pt_value = v\<rparr>]))
              (st_history self)\<rparr>
          else self
      | None \<Rightarrow>
          (case sam_value s of
             Text t \<Rightarrow> self\<lparr>st_text := hm_insert (sam_series s) t (st_text self)\<rparr>
           | _ \<Rightarrow> self))"

definition ingest ::
  "entity list \<Rightarrow> series_descriptor list \<Rightarrow> sample list \<Rightarrow> live_store \<Rightarrow> live_store" where
  "ingest entities descriptors samples self =
     fold ingest_sample samples
       (self\<lparr>st_entities := fold (\<lambda>e m. hm_insert (ent_id e) e m) entities (st_entities self),
             st_descriptors :=
               fold (\<lambda>d m. hm_insert (ser_id d) d m) descriptors (st_descriptors self)\<rparr>)"

definition retain_series :: "series_descriptor list \<Rightarrow> live_store \<Rightarrow> live_store" where
  "retain_series descriptors self =
     (let present = (\<lambda>sid. sid \<in> set (map ser_id descriptors))
      in self\<lparr>st_descriptors := hm_retain present (st_descriptors self),
              st_history := hm_retain present (st_history self),
              st_text := hm_retain present (st_text self)\<rparr>)"

definition drop_series :: "series_id \<Rightarrow> live_store \<Rightarrow> live_store" where
  "drop_series sid self =
     self\<lparr>st_descriptors := hm_remove sid (st_descriptors self),
          st_history := hm_remove sid (st_history self),
          st_text := hm_remove sid (st_text self)\<rparr>"

definition retain_entities :: "entity_id list \<Rightarrow> live_store \<Rightarrow> live_store" where
  "retain_entities present self =
     (let self' = self\<lparr>st_entities := hm_retain (\<lambda>e. e \<in> set present) (st_entities self)\<rparr>;
          dropped = map fst (filter (\<lambda>(_, d). ser_entity d \<notin> set present) (st_descriptors self'))
      in fold drop_series dropped self')"

definition latest :: "live_store \<Rightarrow> series_id \<Rightarrow> point option" where
  "latest self sid =
     (case hm_get (st_history self) sid of
        Some h \<Rightarrow> if h = [] then None else Some (last h)
      | None \<Rightarrow> None)"

definition history_vec :: "live_store \<Rightarrow> series_id \<Rightarrow> point list" where
  "history_vec self sid = (case hm_get (st_history self) sid of Some h \<Rightarrow> h | None \<Rightarrow> [])"

definition series_text :: "live_store \<Rightarrow> series_id \<Rightarrow> string option" where
  "series_text self sid = hm_get (st_text self) sid"

definition store_descriptor :: "live_store \<Rightarrow> series_id \<Rightarrow> series_descriptor option" where
  "store_descriptor self sid = hm_get (st_descriptors self) sid"

definition store_entity :: "live_store \<Rightarrow> entity_id \<Rightarrow> entity option" where
  "store_entity self eid = hm_get (st_entities self) eid"

definition series_for :: "live_store \<Rightarrow> entity_id \<Rightarrow> series_descriptor list" where
  "series_for self entity =
     sort_key ser_metric (filter (\<lambda>d. ser_entity d = entity) (map snd (st_descriptors self)))"

definition children_of :: "live_store \<Rightarrow> entity_id \<Rightarrow> entity list" where
  "children_of self parent =
     sort_key ent_display (filter (\<lambda>e. ent_parent e = Some parent) (map snd (st_entities self)))"

definition point_count :: "live_store \<Rightarrow> nat" where
  "point_count self = sum_list (map (\<lambda>(_, h). length h) (st_history self))"

definition series_count :: "live_store \<Rightarrow> nat" where
  "series_count self = length (st_history self)"

definition store_clear :: "live_store \<Rightarrow> live_store" where
  "store_clear self =
     self\<lparr>st_history := [], st_descriptors := [], st_entities := [], st_text := []\<rparr>"

section \<open>The window\<close>

lemma trim_front_eq: "trim_front w xs = drop (length xs - w) xs"
  by (induction xs) (auto simp: Suc_diff_le)

text \<open>The store's invariant.\<close>

definition store_inv :: "live_store \<Rightarrow> bool" where
  "store_inv self \<longleftrightarrow> 1 \<le> st_window self
     \<and> hm_wf (st_history self) \<and> hm_wf (st_descriptors self) \<and> hm_wf (st_entities self)
     \<and> hm_wf (st_text self)
     \<and> (\<forall>(sid, h) \<in> set (st_history self). h \<noteq> [] \<and> length h \<le> st_window self
           \<and> list_all (\<lambda>p. is_finite (pt_value p)) h)
     \<and> (\<forall>(sid, d) \<in> set (st_descriptors self). ser_id d = sid)
     \<and> (\<forall>(eid, e) \<in> set (st_entities self). ent_id e = eid)"

text \<open>The last \<open>w\<close> elements: what the window keeps of an unbounded log.\<close>

definition last_n :: "nat \<Rightarrow> 'a list \<Rightarrow> 'a list" where
  "last_n w xs = drop (length xs - w) xs"

lemma last_n_append: "last_n w (last_n w xs @ ys) = last_n w (xs @ ys)"
proof (cases "length xs \<le> w")
  case False
  then have "length xs + length ys - (length xs - w + w) + (length xs - w) = length xs + length ys - w"
    by simp
  then show ?thesis using False by (simp add: last_n_def)
qed (simp add: last_n_def)

text \<open>The points a list of samples adds to one series.\<close>

definition points_of :: "series_id \<Rightarrow> sample list \<Rightarrow> point list" where
  "points_of sid samples =
     map (\<lambda>s. \<lparr>pt_at = sam_at s, pt_value = the (as_f64 (sam_value s))\<rparr>)
       (filter (\<lambda>s. sam_series s = sid \<and> (\<exists>v \<in> set_option (as_f64 (sam_value s)). is_finite v)) samples)"

lemma history_ingest_sample:
  assumes "length (history_vec self sid) \<le> st_window self"
  shows "history_vec (ingest_sample s self) sid =
           last_n (st_window self) (history_vec self sid @ points_of sid [s])"
    and "st_window (ingest_sample s self) = st_window self"
proof -
  have "last_n (st_window self) (history_vec self sid) = history_vec self sid"
    using assms by (simp add: last_n_def)
  then show "history_vec (ingest_sample s self) sid =
           last_n (st_window self) (history_vec self sid @ points_of sid [s])"
    by (auto simp: ingest_sample_def history_vec_def points_of_def entry_or_default_def map_simps
        trim_front_eq last_n_def split: option.splits val.splits)
  show "st_window (ingest_sample s self) = st_window self"
    by (auto simp: ingest_sample_def split: option.splits val.splits)
qed

lemma last_n_length: "length (last_n w xs) \<le> w"
  by (simp add: last_n_def)

lemma points_of_Cons: "points_of sid (s # ss) = points_of sid [s] @ points_of sid ss"
  by (simp add: points_of_def)

lemma history_ingest_samples:
  assumes "length (history_vec self sid) \<le> st_window self"
  shows "history_vec (fold ingest_sample samples self) sid =
           last_n (st_window self) (history_vec self sid @ points_of sid samples)
    \<and> st_window (fold ingest_sample samples self) = st_window self"
  using assms
proof (induction samples arbitrary: self)
  case Nil
  then show ?case by (simp add: last_n_def points_of_def)
next
  case (Cons s samples)
  note h = history_ingest_sample [OF Cons.prems, of s]
  have "length (history_vec (ingest_sample s self) sid) \<le> st_window (ingest_sample s self)"
    unfolding h by (rule last_n_length)
  from Cons.IH [OF this] show ?case
    by (simp add: h last_n_append points_of_Cons [of _ s samples])
qed

lemma history_vec_update [simp]:
  "history_vec (self\<lparr>st_entities := es, st_descriptors := ds\<rparr>) = history_vec self"
  by (rule ext) (simp add: history_vec_def)

section \<open>The invariant\<close>

lemma store_inv_history:
  "store_inv self \<Longrightarrow> length (history_vec self sid) \<le> st_window self
     \<and> list_all (\<lambda>p. is_finite (pt_value p)) (history_vec self sid)"
  by (auto simp: store_inv_def history_vec_def split: option.splits dest!: map_of_SomeD)

lemma hm_insert_set: "set (hm_insert k v m) \<subseteq> insert (k, v) (set m)"
  by (induction m) auto

lemma store_inv_with_window: "store_inv (with_window w)"
  by (simp add: store_inv_def with_window_def)

lemma store_inv_ingest_sample: "store_inv self \<Longrightarrow> store_inv (ingest_sample s self)"
proof -
  assume inv: "store_inv self"
  show ?thesis
  proof (cases "\<exists>v. as_f64 (sam_value s) = Some v \<and> is_finite v")
    case True
    then obtain v where v: "as_f64 (sam_value s) = Some v" "is_finite v" by blast
    let ?h = "trim_front (st_window self)
        (entry_or_default (sam_series s) self @ [\<lparr>pt_at = sam_at s, pt_value = v\<rparr>])"
    have "list_all (\<lambda>p. is_finite (pt_value p)) (entry_or_default (sam_series s) self)"
      using store_inv_history [OF inv, of "sam_series s"] by (simp add: history_vec_def entry_or_default_def)
    then have "list_all (\<lambda>p. is_finite (pt_value p)) ?h"
      using v(2) unfolding list_all_iff trim_front_eq by (auto dest!: in_set_dropD)
    moreover have "?h \<noteq> []" "length ?h \<le> st_window self"
      using inv by (auto simp: trim_front_eq store_inv_def)
    moreover have eq: "ingest_sample s self = self\<lparr>st_history := hm_insert (sam_series s) ?h (st_history self)\<rparr>"
      using v by (simp add: ingest_sample_def)
    ultimately show ?thesis
      using inv hm_insert_set [of "sam_series s" ?h "st_history self"]
      unfolding eq store_inv_def by (auto intro!: hm_wf_insert)
  next
    case False
    then have "ingest_sample s self = self \<or>
        (\<exists>t. ingest_sample s self = self\<lparr>st_text := hm_insert (sam_series s) t (st_text self)\<rparr>)"
      by (auto simp: ingest_sample_def split: option.splits val.splits)
    then show ?thesis using inv by (auto simp: store_inv_def intro!: hm_wf_insert)
  qed
qed

lemma fold_insert_inv:
  "hm_wf m \<Longrightarrow> \<forall>(k, x) \<in> set m. f x = k \<Longrightarrow>
     hm_wf (fold (\<lambda>x m. hm_insert (f x) x m) xs m) \<and>
     (\<forall>(k, x) \<in> set (fold (\<lambda>x m. hm_insert (f x) x m) xs m). f x = k)"
proof (induction xs arbitrary: m)
  case (Cons x xs)
  have "\<forall>(k, y) \<in> set (hm_insert (f x) x m). f y = k"
    using Cons.prems(2) hm_insert_set [of "f x" x m] by auto
  with Cons.IH [of "hm_insert (f x) x m"] Cons.prems(1) show ?case by auto
qed simp

lemma store_inv_ingest: "store_inv self \<Longrightarrow> store_inv (ingest es ds ss self)"
proof -
  assume inv: "store_inv self"
  let ?self = "self\<lparr>st_entities := fold (\<lambda>e m. hm_insert (ent_id e) e m) es (st_entities self),
             st_descriptors := fold (\<lambda>d m. hm_insert (ser_id d) d m) ds (st_descriptors self)\<rparr>"
  have "store_inv ?self"
    using inv fold_insert_inv [of "st_entities self" ent_id es] fold_insert_inv [of "st_descriptors self" ser_id ds]
    by (simp add: store_inv_def)
  moreover have "store_inv s \<Longrightarrow> store_inv (fold ingest_sample ss s)" for s
    by (induction ss arbitrary: s) (auto intro: store_inv_ingest_sample)
  ultimately show ?thesis by (simp add: ingest_def)
qed

lemma hm_retain_subset: "set (hm_retain P m) \<subseteq> set m"
  by (auto simp: hm_retain_def)

lemma hm_remove_subset: "set (hm_remove k m) \<subseteq> set m"
  by (auto simp: AList.delete_eq)

lemma store_inv_retain_series: "store_inv self \<Longrightarrow> store_inv (retain_series ds self)"
  using hm_retain_subset
  by (auto simp: store_inv_def retain_series_def Let_def hm_retain_def intro!: hm_wf_retain [unfolded hm_retain_def])

lemma store_inv_drop_series: "store_inv self \<Longrightarrow> store_inv (drop_series sid self)"
  by (auto simp: store_inv_def drop_series_def intro!: hm_wf_remove dest!: set_mp [OF hm_remove_subset])

lemma store_inv_retain_entities: "store_inv self \<Longrightarrow> store_inv (retain_entities present self)"
proof -
  assume "store_inv self"
  then have "store_inv (self\<lparr>st_entities := hm_retain (\<lambda>e. e \<in> set present) (st_entities self)\<rparr>)"
    by (auto simp: store_inv_def intro!: hm_wf_retain dest!: set_mp [OF hm_retain_subset])
  moreover have "store_inv s \<Longrightarrow> store_inv (fold drop_series ids s)" for ids s
    by (induction ids arbitrary: s) (auto intro: store_inv_drop_series)
  ultimately show ?thesis by (simp add: retain_entities_def Let_def)
qed

lemma store_inv_clear: "store_inv self \<Longrightarrow> store_inv (store_clear self)"
  by (simp add: store_inv_def store_clear_def)

section \<open>What is kept\<close>

lemma drop_series_get:
  "hm_get (st_descriptors (fold drop_series ids self)) sid =
     (if sid \<in> set ids then None else hm_get (st_descriptors self) sid)
   \<and> hm_get (st_history (fold drop_series ids self)) sid =
     (if sid \<in> set ids then None else hm_get (st_history self) sid)
   \<and> hm_get (st_text (fold drop_series ids self)) sid =
     (if sid \<in> set ids then None else hm_get (st_text self) sid)
   \<and> st_entities (fold drop_series ids self) = st_entities self
   \<and> st_window (fold drop_series ids self) = st_window self"
  by (induction ids arbitrary: self) (auto simp: drop_series_def map_simps)

text \<open>The series \<open>retain_entities\<close> drops: those whose descriptor names an absent entity.\<close>

definition orphaned :: "live_store \<Rightarrow> entity_id list \<Rightarrow> series_id \<Rightarrow> bool" where
  "orphaned self present sid \<longleftrightarrow>
     (case hm_get (st_descriptors self) sid of Some d \<Rightarrow> ser_entity d \<notin> set present | None \<Rightarrow> False)"

lemma retain_entities_get:
  assumes "hm_wf (st_descriptors self)"
  shows "hm_get (st_descriptors (retain_entities present self)) sid =
      (if orphaned self present sid then None else hm_get (st_descriptors self) sid)
    \<and> hm_get (st_history (retain_entities present self)) sid =
      (if orphaned self present sid then None else hm_get (st_history self) sid)
    \<and> hm_get (st_text (retain_entities present self)) sid =
      (if orphaned self present sid then None else hm_get (st_text self) sid)
    \<and> hm_get (st_entities (retain_entities present self)) eid =
      (if eid \<in> set present then hm_get (st_entities self) eid else None)
    \<and> st_window (retain_entities present self) = st_window self"
proof -
  have "sid \<in> set (map fst (filter (\<lambda>(_, d). ser_entity d \<notin> set present) (st_descriptors self)))
      \<longleftrightarrow> orphaned self present sid"
    using assms by (auto simp: orphaned_def image_iff split: option.splits dest: map_of_SomeD)
      (metis map_of_is_SomeI option.distinct(1) option.inject)+
  then show ?thesis
    by (simp add: retain_entities_def Let_def drop_series_get map_simps)
qed

lemma retain_series_get:
  "hm_get (st_descriptors (retain_series ds self)) sid =
      (if sid \<in> ser_id ` set ds then hm_get (st_descriptors self) sid else None)"
  "hm_get (st_history (retain_series ds self)) sid =
      (if sid \<in> ser_id ` set ds then hm_get (st_history self) sid else None)"
  "hm_get (st_text (retain_series ds self)) sid =
      (if sid \<in> ser_id ` set ds then hm_get (st_text self) sid else None)"
  "st_entities (retain_series ds self) = st_entities self"
  "st_window (retain_series ds self) = st_window self"
  by (simp_all add: retain_series_def Let_def map_simps)

text \<open>Recording samples leaves descriptors and entities as they were.\<close>

lemma ingest_samples_frame:
  "st_descriptors (fold ingest_sample ss self) = st_descriptors self
   \<and> st_entities (fold ingest_sample ss self) = st_entities self"
proof (induction ss arbitrary: self)
  case (Cons s ss)
  have "st_descriptors (ingest_sample s self) = st_descriptors self
      \<and> st_entities (ingest_sample s self) = st_entities self"
    by (simp add: ingest_sample_def split: option.split val.split)
  with Cons show ?case by simp
qed simp

lemma ingest_descriptors:
  "hm_get (st_descriptors (ingest es ds ss self)) =
     hm_get (st_descriptors self) ++ map_of (rev (map (\<lambda>d. (ser_id d, d)) ds))"
proof -
  have "fold (\<lambda>d m. hm_insert (ser_id d) d m) ds m =
      fold (\<lambda>(k, v) m. hm_insert k v m) (map (\<lambda>d. (ser_id d, d)) ds) m" for m
    by (induction ds arbitrary: m) auto
  then show ?thesis by (simp add: ingest_def ingest_samples_frame hm_get_fold_insert)
qed

lemma ingest_entities:
  "hm_get (st_entities (ingest es ds ss self)) =
     hm_get (st_entities self) ++ map_of (rev (map (\<lambda>e. (ent_id e, e)) es))"
proof -
  have "fold (\<lambda>e m. hm_insert (ent_id e) e m) es m =
      fold (\<lambda>(k, v) m. hm_insert k v m) (map (\<lambda>e. (ent_id e, e)) es) m" for m
    by (induction es arbitrary: m) auto
  then show ?thesis by (simp add: ingest_def ingest_samples_frame hm_get_fold_insert)
qed

text \<open>The texts that samples give a series, oldest first.\<close>

fun texts_of :: "series_id \<Rightarrow> sample list \<Rightarrow> string list" where
  "texts_of sid [] = []"
| "texts_of sid (s # ss) =
     (case sam_value s of
        Text t \<Rightarrow> if sam_series s = sid then t # texts_of sid ss else texts_of sid ss
      | _ \<Rightarrow> texts_of sid ss)"

lemma ingest_samples_text:
  "hm_get (st_text (fold ingest_sample ss self)) sid =
     (if texts_of sid ss = [] then hm_get (st_text self) sid else Some (last (texts_of sid ss)))"
proof (induction ss arbitrary: self)
  case (Cons s ss)
  have "hm_get (st_text (ingest_sample s self)) sid =
      (if texts_of sid [s] = [] then hm_get (st_text self) sid else Some (last (texts_of sid [s])))"
    by (cases "sam_value s") (auto simp: ingest_sample_def map_simps)
  moreover have "texts_of sid (s # ss) = texts_of sid [s] @ texts_of sid ss"
    by (simp split: val.split)
  ultimately show ?case by (simp add: Cons.IH)
qed simp

text \<open>What a refresh does to the store (the second half of \<open>TargetRuntime::tick\<close>).\<close>

definition store_tick ::
  "entity list \<Rightarrow> series_descriptor list \<Rightarrow> sample list \<Rightarrow> entity_id \<Rightarrow> live_store \<Rightarrow> live_store" where
  "store_tick es ds ss host self =
     retain_entities (map ent_id es @ [host]) (retain_series ds (ingest es ds ss self))"

lemma history_ingest:
  assumes "store_inv self"
  shows "history_vec (ingest es ds ss self) sid =
           last_n (st_window self) (history_vec self sid @ points_of sid ss)"
  using history_ingest_samples [of "self\<lparr>st_entities := _, st_descriptors := _\<rparr>" sid ss]
    store_inv_history [OF assms, of sid]
  by (simp add: ingest_def)

text \<open>The operations that change a store, and runs of them.\<close>

datatype store_op =
  Ingest "entity list" "series_descriptor list" "sample list"
  | RetainSeries "series_descriptor list"
  | RetainEntities "entity_id list"
  | Clear

fun store_exec :: "store_op \<Rightarrow> live_store \<Rightarrow> live_store" where
  "store_exec (Ingest es ds ss) = ingest es ds ss"
| "store_exec (RetainSeries ds) = retain_series ds"
| "store_exec (RetainEntities present) = retain_entities present"
| "store_exec Clear = store_clear"

lemma store_window_exec: "store_inv self \<Longrightarrow> st_window (store_exec op self) = st_window self"
proof (cases op)
  case (Ingest es ds ss)
  assume "store_inv self"
  then show ?thesis
    using Ingest history_ingest_samples [of "self\<lparr>st_entities := _, st_descriptors := _\<rparr>" "[]" ss]
      store_inv_history [of self "[]"]
    by (simp add: ingest_def)
next
  case (RetainEntities p)
  assume "store_inv self"
  then show ?thesis using RetainEntities by (simp add: retain_entities_get store_inv_def)
qed (simp_all add: retain_series_get store_clear_def)

lemma store_inv_exec: "store_inv self \<Longrightarrow> store_inv (store_exec op self)"
  by (cases op)
    (simp_all add: store_inv_ingest store_inv_retain_series store_inv_retain_entities store_inv_clear)

lemma store_runs:
  "store_inv self \<Longrightarrow>
     store_inv (fold store_exec ops self) \<and> st_window (fold store_exec ops self) = st_window self"
  by (induction ops arbitrary: self) (simp_all add: store_inv_exec store_window_exec)

text \<open>
  C10: whatever sequence of refreshes, prunings and clears a store goes through, no series ever
  holds more points than the window, every point is a finite number, and so the whole store holds
  at most the window times its number of series.
\<close>

theorem store_bounded:
  "store_inv (fold store_exec ops (with_window w))
   \<and> list_all (\<lambda>(sid, h). length h \<le> max w 1 \<and> list_all (\<lambda>p. is_finite (pt_value p)) h)
       (st_history (fold store_exec ops (with_window w)))
   \<and> point_count (fold store_exec ops (with_window w))
       \<le> max w 1 * series_count (fold store_exec ops (with_window w))"
proof -
  let ?s = "fold store_exec ops (with_window w)"
  have inv: "store_inv ?s" and win: "st_window ?s = max w 1"
    using store_runs [OF store_inv_with_window, of ops w] by (simp_all add: with_window_def)
  then have all: "\<forall>(sid, h) \<in> set (st_history ?s).
      length h \<le> max w 1 \<and> list_all (\<lambda>p. is_finite (pt_value p)) h"
    by (auto simp: store_inv_def)
  have "sum_list (map (\<lambda>(_, h). length h) xs) \<le> n * length xs"
    if "\<forall>(sid, h) \<in> set xs. length h \<le> n" for n and xs :: "(series_id \<times> point list) list"
    using that by (induction xs) fastforce+
  with all have "point_count ?s \<le> max w 1 * series_count ?s"
    by (fastforce simp: point_count_def series_count_def)
  with inv all show ?thesis by (auto simp: list_all_iff)
qed

text \<open>The descriptor a tick leaves in force for a series: its last one, if its entity is there.\<close>

definition kept_descriptor ::
  "entity list \<Rightarrow> series_descriptor list \<Rightarrow> entity_id \<Rightarrow> series_id \<Rightarrow> series_descriptor option" where
  "kept_descriptor es ds host sid =
     (case map_of (rev (map (\<lambda>d. (ser_id d, d)) ds)) sid of
        Some d \<Rightarrow> if ser_entity d \<in> set (map ent_id es @ [host]) then Some d else None
      | None \<Rightarrow> None)"

text \<open>The entity a tick leaves in force: reported last under its id, or the host as it was known.\<close>

definition kept_entity :: "entity list \<Rightarrow> entity_id \<Rightarrow> live_store \<Rightarrow> entity_id \<Rightarrow> entity option" where
  "kept_entity es host self eid =
     (case map_of (rev (map (\<lambda>e. (ent_id e, e)) es)) eid of
        Some e \<Rightarrow> Some e
      | None \<Rightarrow> if eid = host then store_entity self host else None)"

lemma store_ticked:
  assumes "store_inv self"
  shows "store_descriptor (store_tick es ds ss host self) sid = kept_descriptor es ds host sid"
    and "history_vec (store_tick es ds ss host self) sid =
        (if kept_descriptor es ds host sid \<noteq> None
         then last_n (st_window self) (history_vec self sid @ points_of sid ss) else [])"
    and "series_text (store_tick es ds ss host self) sid =
        (if kept_descriptor es ds host sid = None then None
         else if texts_of sid ss = [] then series_text self sid else Some (last (texts_of sid ss)))"
    and "store_entity (store_tick es ds ss host self) eid = kept_entity es host self eid"
proof -
  let ?s1 = "ingest es ds ss self" and ?m = "map_of (rev (map (\<lambda>d. (ser_id d, d)) ds))"
  let ?s2 = "retain_series ds ?s1" and ?p = "map ent_id es @ [host]"
  have inv2: "store_inv ?s2" by (intro store_inv_retain_series store_inv_ingest assms)
  then have wf: "hm_wf (st_descriptors ?s2)" by (simp add: store_inv_def)
  have dom: "?m sid = None \<longleftrightarrow> sid \<notin> ser_id ` set ds"
    by (simp add: map_of_eq_None_iff image_comp comp_def)
  have d2: "hm_get (st_descriptors ?s2) sid = ?m sid"
    using dom by (auto simp: retain_series_get ingest_descriptors map_add_def split: option.splits)
  have h2: "history_vec ?s2 sid =
      (if ?m sid = None then [] else last_n (st_window self) (history_vec self sid @ points_of sid ss))"
    using history_ingest [OF assms, of es ds ss sid] dom
    by (simp add: history_vec_def retain_series_get)
  have t2: "hm_get (st_text ?s2) sid = (if ?m sid = None then None
      else if texts_of sid ss = [] then hm_get (st_text self) sid else Some (last (texts_of sid ss)))"
    using dom by (simp add: retain_series_get ingest_def ingest_samples_text)
  note r = retain_entities_get [OF wf, of ?p]
  note defs = store_tick_def store_descriptor_def store_entity_def kept_descriptor_def orphaned_def
    history_vec_def series_text_def
  show "store_descriptor (store_tick es ds ss host self) sid = kept_descriptor es ds host sid"
    and "history_vec (store_tick es ds ss host self) sid =
        (if kept_descriptor es ds host sid \<noteq> None
         then last_n (st_window self) (history_vec self sid @ points_of sid ss) else [])"
    and "series_text (store_tick es ds ss host self) sid =
        (if kept_descriptor es ds host sid = None then None
         else if texts_of sid ss = [] then series_text self sid else Some (last (texts_of sid ss)))"
    using d2 h2 t2 r [of sid eid] by (auto simp: defs split: option.splits)
  have "map_of (rev (map (\<lambda>e. (ent_id e, e)) es)) eid = None \<longleftrightarrow> eid \<notin> ent_id ` set es"
    by (simp add: map_of_eq_None_iff image_comp comp_def)
  then show "store_entity (store_tick es ds ss host self) eid = kept_entity es host self eid"
    using r [of sid eid]
    by (auto simp: store_tick_def store_entity_def kept_entity_def retain_series_get ingest_entities map_add_def
        split: option.splits)
qed

text \<open>
  C11: after a refresh the store holds exactly what the refresh reported. A series is present, with
  the newest descriptor, exactly if this tick described it on an entity that this tick reported or
  on the host; its history is then the window's worth of its old points followed by this tick's
  finite readings, and its text is the last one this tick gave it, or else the one it had; every
  other series is forgotten with its points and its text. An entity is present exactly as this
  tick reported it last, every other one is gone, and only the host stays as it was known.
\<close>

theorem store_tick_spec:
  assumes "store_inv self"
  shows "store_descriptor (store_tick es ds ss host self) sid = kept_descriptor es ds host sid
    \<and> history_vec (store_tick es ds ss host self) sid =
        (if kept_descriptor es ds host sid \<noteq> None
         then last_n (st_window self) (history_vec self sid @ points_of sid ss) else [])
    \<and> series_text (store_tick es ds ss host self) sid =
        (if kept_descriptor es ds host sid = None then None
         else if texts_of sid ss = [] then series_text self sid else Some (last (texts_of sid ss)))
    \<and> store_entity (store_tick es ds ss host self) eid = kept_entity es host self eid"
  by (intro conjI store_ticked assms)

theorem store_tick_spec_witness:
  "history_vec (store_tick [] [gauge ''t'' ''host'' ''a'' ''A'' Percent]
      [sample_new ''host#a'' 5 (BoolV True), sample_new ''host#b'' 5 (BoolV True)] ''host''
      (with_window 3)) ''host#a'' = [\<lparr>pt_at = 5, pt_value = f_of_nat 1\<rparr>]
   \<and> history_vec (store_tick [] [gauge ''t'' ''host'' ''a'' ''A'' Percent]
      [sample_new ''host#a'' 5 (BoolV True), sample_new ''host#b'' 5 (BoolV True)] ''host''
      (with_window 3)) ''host#b'' = []"
proof -
  have "is_finite (f_of_nat 1)" by (simp add: float_eval)
  note spec = store_tick_spec [OF store_inv_with_window, THEN conjunct2, THEN conjunct1]
  from \<open>is_finite (f_of_nat 1)\<close> show ?thesis
    unfolding spec
    by (simp add: kept_descriptor_def gauge_def
        series_of_def history_vec_def with_window_def points_of_def sample_new_def last_n_def)
qed

text \<open>
  The order in which the UI lists an entity's series does not depend on the iteration order of
  the hash map that holds them: two stores with the same descriptors list the same series in the
  same order, sorted by metric, as long as ids are built by \<open>SeriesId::of\<close>.
\<close>

theorem series_for_order:
  assumes "mset (st_descriptors s) = mset (st_descriptors t)" "store_inv s"
    and "\<forall>(sid, d) \<in> set (st_descriptors s). sid = series_of (ser_entity d) (ser_metric d)"
  shows "series_for s entity = series_for t entity
    \<and> sorted (map ser_metric (series_for s entity))
    \<and> set (series_for s entity) = {d. \<exists>sid. (sid, d) \<in> set (st_descriptors s) \<and> ser_entity d = entity}"
proof -
  let ?of = "\<lambda>s. filter (\<lambda>d. ser_entity d = entity) (map snd (st_descriptors s))"
  have "mset (map snd (st_descriptors s)) = mset (map snd (st_descriptors t))"
    using assms(1) by (simp only: mset_map)
  then have ms: "mset (?of s) = mset (?of t)" by (simp only: mset_filter)
  have wf: "hm_wf (st_descriptors s)" using assms(2) by (simp add: store_inv_def)
  have "inj_on ser_metric (set (?of s))"
  proof (rule inj_onI)
    fix d e
    assume d: "d \<in> set (?of s)" and e: "e \<in> set (?of s)" and eq: "ser_metric d = ser_metric e"
    from d e obtain i j where ij: "(i, d) \<in> set (st_descriptors s)" "(j, e) \<in> set (st_descriptors s)"
      and ent: "ser_entity d = entity" "ser_entity e = entity" by auto
    have "i = series_of entity (ser_metric d)" "j = series_of entity (ser_metric e)"
      using bspec [OF assms(3) ij(1)] bspec [OF assms(3) ij(2)] ent by simp_all
    then have "i = j" by (simp only: eq)
    then have "Some d = Some e"
      using map_of_is_SomeI [OF wf ij(1)] map_of_is_SomeI [OF wf ij(2)] by (simp only:)
    then show "d = e" by (simp only: option.inject)
  qed
  then have "sort_key ser_metric (?of s) = sort_key ser_metric (?of t)"
    using ms by (intro sort_key_inj_key_eq) simp_all
  moreover have "set (st_descriptors s) = set (st_descriptors t)"
    using assms(1) by (rule mset_eq_setD)
  ultimately show ?thesis by (force simp: series_for_def)
qed

theorem series_for_order_witness:
  "series_for (ingest [] [gauge ''t'' ''host'' ''b'' ''B'' Percent, gauge ''t'' ''host'' ''a'' ''A'' Percent]
      [] (with_window 1)) ''host'' =
   series_for (ingest [] [gauge ''t'' ''host'' ''a'' ''A'' Percent, gauge ''t'' ''host'' ''b'' ''B'' Percent]
      [] (with_window 1)) ''host''"
proof -
  let ?a = "gauge ''t'' ''host'' ''a'' ''A'' Percent" and ?b = "gauge ''t'' ''host'' ''b'' ''B'' Percent"
  have "store_inv (ingest [] [?b, ?a] [] (with_window 1))"
    by (intro store_inv_ingest store_inv_with_window)
  then show ?thesis
    by (intro series_for_order [THEN conjunct1])
      (simp_all add: ingest_def with_window_def gauge_def series_of_def)
qed

end
