(* ===== verification/Rate.thy ===== *)
theory Rate
  imports Model
begin

text \<open>
  Counters into rates (\<open>crates/sg-core/src/rate.rs\<close>). The engine's only memory is one reading per
  counter series; a tick's samples are taken in order, and the map is updated as they are read.
\<close>

section \<open>The engine\<close>

record previous =
  pv_at :: i64
  pv_raw :: u64

record rate_engine =
  re_previous :: "(series_id, previous) hmap"

definition rate_new :: rate_engine where
  "rate_new = \<lparr>re_previous = []\<rparr>"

definition by_id :: "series_descriptor list \<Rightarrow> (series_id, series_descriptor) hmap" where
  "by_id descriptors = hm_collect (map (\<lambda>d. (ser_id d, d)) descriptors)"

definition is_counter :: "(series_id, series_descriptor) hmap \<Rightarrow> series_id \<Rightarrow> bool" where
  "is_counter ds sid = (case hm_get ds sid of Some d \<Rightarrow> ser_kind d = Counter | None \<Rightarrow> False)"

text \<open>\<open>(raw - previous.raw) as f64 / (elapsed_ms as f64 / 1000.0) * scale\<close>\<close>

definition rate_value :: "u64 \<Rightarrow> u64 \<Rightarrow> i64 \<Rightarrow> f64 \<Rightarrow> f64" where
  "rate_value raw prev_raw elapsed scale =
     f_mul (f_div (f_of_nat (unat (raw - prev_raw)))
                  (f_div (f_of_int (sint elapsed)) (f_of_nat 1000))) scale"

text \<open>One round of the loop: the map after the reading, and what it puts out.\<close>

definition rate_step ::
  "(series_id, series_descriptor) hmap \<Rightarrow> sample \<Rightarrow> (series_id, previous) hmap
    \<Rightarrow> (series_id, previous) hmap \<times> sample list" where
  "rate_step ds s prev =
     (case hm_get ds (sam_series s) of
        None \<Rightarrow> (prev, [])
      | Some d \<Rightarrow>
          if ser_kind d \<noteq> Counter then (prev, [s])
          else
            (case as_counter (sam_value s) of
               None \<Rightarrow> (prev, [])
             | Some raw \<Rightarrow>
                 (hm_insert (sam_series s) \<lparr>pv_at = sam_at s, pv_raw = raw\<rparr> prev,
                  (case hm_get prev (sam_series s) of
                     None \<Rightarrow> []
                   | Some p \<Rightarrow>
                       (let elapsed = i64_sat_sub (sam_at s) (pv_at p)
                        in if sint elapsed \<le> 0 \<or> raw < pv_raw p then []
                           else [s\<lparr>sam_value :=
                             Float (rate_value raw (pv_raw p) elapsed (ser_scale d))\<rparr>])))))"

fun rate_loop ::
  "(series_id, series_descriptor) hmap \<Rightarrow> sample list \<Rightarrow> (series_id, previous) hmap \<Rightarrow> sample list
    \<Rightarrow> (series_id, previous) hmap \<times> sample list" where
  "rate_loop ds [] prev out = (prev, out)"
| "rate_loop ds (s # ss) prev out =
     (case rate_step ds s prev of (prev', o1) \<Rightarrow> rate_loop ds ss prev' (out @ o1))"

definition process ::
  "rate_engine \<Rightarrow> series_descriptor list \<Rightarrow> sample list \<Rightarrow> rate_engine \<times> sample list" where
  "process self descriptors samples =
     (let ds = by_id descriptors;
          kept = hm_retain (is_counter ds) (re_previous self);
          (prev, out) = rate_loop ds samples kept []
      in (self\<lparr>re_previous := prev\<rparr>, out))"

definition rate_reset :: "rate_engine \<Rightarrow> rate_engine" where
  "rate_reset self = self\<lparr>re_previous := []\<rparr>"

definition tracked :: "rate_engine \<Rightarrow> nat" where
  "tracked self = length (re_previous self)"

section \<open>What a tick puts out\<close>

lemma rate_step_keys:
  "hm_keys (fst (rate_step ds s prev)) \<subseteq> hm_keys prev \<union> {sid. is_counter ds sid}"
  by (auto simp: rate_step_def is_counter_def map_simps split: option.splits)

lemma rate_step_wf: "hm_wf prev \<Longrightarrow> hm_wf (fst (rate_step ds s prev))"
  by (auto simp: rate_step_def split: option.splits)

lemma rate_step_other:
  "sid \<noteq> sam_series s \<Longrightarrow> hm_get (fst (rate_step ds s prev)) sid = hm_get prev sid"
  by (auto simp: rate_step_def map_simps split: option.splits)

lemma rate_loop_out: "rate_loop ds ss prev out =
    (fst (rate_loop ds ss prev []), out @ snd (rate_loop ds ss prev []))"
proof (induction ss arbitrary: prev out)
  case (Cons s ss)
  show ?case
    by (simp add: split_beta Cons [of _ "out @ _"] Cons [of _ "snd (rate_step ds s prev)"])
qed simp

lemma rate_loop_keys:
  "hm_keys prev \<subseteq> {sid. is_counter ds sid} \<Longrightarrow>
     hm_keys (fst (rate_loop ds ss prev out)) \<subseteq> {sid. is_counter ds sid}"
proof (induction ss arbitrary: prev out)
  case (Cons s ss)
  have "hm_keys (fst (rate_step ds s prev)) \<subseteq> {sid. is_counter ds sid}"
    using rate_step_keys [of ds s prev] Cons.prems by blast
  from Cons.IH [OF this] show ?case by (simp add: split_beta)
qed simp

lemma rate_loop_wf: "hm_wf prev \<Longrightarrow> hm_wf (fst (rate_loop ds ss prev out))"
  by (induction ss arbitrary: prev out) (auto simp: split_beta rate_step_wf)

text \<open>
  The specification of one sample: a gauge passes through; a counter gives its rate over the time
  since the reading remembered for its own series, and nothing when there is no such reading, no
  time has passed or the count went down.
\<close>

definition rate_spec ::
  "(series_id \<rightharpoonup> series_descriptor) \<Rightarrow> (series_id \<rightharpoonup> previous) \<Rightarrow> sample \<Rightarrow> sample list" where
  "rate_spec ds prev s =
     (case ds (sam_series s) of
        None \<Rightarrow> []
      | Some d \<Rightarrow>
          if ser_kind d \<noteq> Counter then [s]
          else
            (case (as_counter (sam_value s), prev (sam_series s)) of
               (Some raw, Some p) \<Rightarrow>
                 if sint (pv_at p) < sint (sam_at s) \<and> pv_raw p \<le> raw
                 then [s\<lparr>sam_value := Float (rate_value raw (pv_raw p)
                          (i64_sat_sub (sam_at s) (pv_at p)) (ser_scale d))\<rparr>]
                 else []
             | _ \<Rightarrow> []))"

lemma elapsed_pos: "sint (i64_sat_sub a b) \<le> 0 \<longleftrightarrow> sint a \<le> sint b"
  by (auto simp: sint_i64_sat_sub)

lemma rate_step_spec: "snd (rate_step ds s prev) = rate_spec (hm_get ds) (hm_get prev) s"
  by (simp add: rate_step_def rate_spec_def elapsed_pos Let_def not_le [symmetric] disj_commute
      split: option.split)

lemma rate_spec_local:
  "prev (sam_series s) = prev' (sam_series s) \<Longrightarrow> rate_spec ds prev s = rate_spec ds prev' s"
  by (simp add: rate_spec_def split: option.splits)

lemma rate_loop_spec:
  "distinct (map sam_series ss) \<Longrightarrow>
     snd (rate_loop ds ss prev []) = concat (map (rate_spec (hm_get ds) (hm_get prev)) ss)"
proof (induction ss arbitrary: prev)
  case (Cons s ss)
  have same: "map (rate_spec (hm_get ds) (hm_get (fst (rate_step ds s prev)))) ss =
      map (rate_spec (hm_get ds) (hm_get prev)) ss"
    using Cons.prems by (intro map_cong rate_spec_local rate_step_other) (force simp: image_iff)+
  have "rate_loop ds (s # ss) prev [] =
      (fst (rate_loop ds ss (fst (rate_step ds s prev)) []),
       snd (rate_step ds s prev) @ snd (rate_loop ds ss (fst (rate_step ds s prev)) []))"
    by (simp add: split_beta) (rule rate_loop_out)
  moreover have "snd (rate_loop ds ss (fst (rate_step ds s prev)) []) =
      concat (map (rate_spec (hm_get ds) (hm_get (fst (rate_step ds s prev)))) ss)"
    using Cons by simp
  ultimately show ?case
    unfolding same by (simp add: rate_step_spec)
qed simp

text \<open>The readings remembered for the next tick: the ones of this tick's counters.\<close>

lemma rate_step_remembers:
  "is_counter ds (sam_series s) \<Longrightarrow> as_counter (sam_value s) = Some raw \<Longrightarrow>
     hm_get (fst (rate_step ds s prev)) (sam_series s) = Some \<lparr>pv_at = sam_at s, pv_raw = raw\<rparr>"
  by (auto simp: rate_step_def is_counter_def map_simps split: option.splits)

lemma rate_loop_other:
  "sid \<notin> sam_series ` set ss \<Longrightarrow> hm_get (fst (rate_loop ds ss prev out)) sid = hm_get prev sid"
  by (induction ss arbitrary: prev out) (auto simp: split_beta rate_step_other)

lemma rate_loop_remembers:
  "distinct (map sam_series ss) \<Longrightarrow> s \<in> set ss \<Longrightarrow> is_counter ds (sam_series s) \<Longrightarrow>
     as_counter (sam_value s) = Some raw \<Longrightarrow>
     hm_get (fst (rate_loop ds ss prev out)) (sam_series s) = Some \<lparr>pv_at = sam_at s, pv_raw = raw\<rparr>"
proof (induction ss arbitrary: prev out)
  case (Cons t ss)
  show ?case
  proof (cases "s = t")
    case True
    then have "sam_series s \<notin> sam_series ` set ss" using Cons.prems(1) by simp
    then show ?thesis
      using Cons.prems(3,4) by (simp add: split_beta rate_loop_other rate_step_remembers True)
  next
    case False
    then show ?thesis using Cons by (simp add: split_beta)
  qed
qed simp

text \<open>Every sample put out is one that came in, with perhaps another value.\<close>

lemma rate_spec_source:
  "out \<in> set (rate_spec ds prev s) \<Longrightarrow> sam_series out = sam_series s \<and> sam_at out = sam_at s"
  by (auto simp: rate_spec_def split: option.splits if_splits)

lemma rate_loop_source:
  "x \<in> set (snd (rate_loop ds ss prev out)) \<Longrightarrow>
     x \<in> set out \<or> (\<exists>s \<in> set ss. sam_series x = sam_series s \<and> sam_at x = sam_at s)"
proof (induction ss arbitrary: prev out)
  case (Cons s ss)
  then have "x \<in> set (snd (rate_loop ds ss (fst (rate_step ds s prev)) (out @ snd (rate_step ds s prev))))"
    by (simp add: split_beta)
  from Cons.IH [OF this] show ?case
    using rate_spec_source by (auto simp: rate_step_spec)
qed simp

lemma rate_spec_value:
  "x \<in> set (rate_spec ds prev s) \<Longrightarrow> x = s \<or> (\<exists>v. sam_value x = Float v)"
  by (auto simp: rate_spec_def Let_def split: option.splits if_splits)

lemma rate_loop_value:
  "x \<in> set (snd (rate_loop ds ss prev out)) \<Longrightarrow>
     x \<in> set out \<or> x \<in> set ss \<or> (\<exists>v. sam_value x = Float v)"
proof (induction ss arbitrary: prev out)
  case (Cons s ss)
  then have "x \<in> set (snd (rate_loop ds ss (fst (rate_step ds s prev)) (out @ snd (rate_step ds s prev))))"
    by (simp add: split_beta)
  from Cons.IH [OF this] show ?case
    using rate_spec_value by (auto simp: rate_step_spec)
qed simp

text \<open>What the engine remembers as a map.\<close>

definition baseline :: "rate_engine \<Rightarrow> series_descriptor list \<Rightarrow> series_id \<rightharpoonup> previous" where
  "baseline self descriptors sid =
     (if is_counter (by_id descriptors) sid then hm_get (re_previous self) sid else None)"

lemma baseline_retain:
  "hm_get (hm_retain (is_counter (by_id descriptors)) (re_previous self)) = baseline self descriptors"
  by (rule ext) (simp add: baseline_def map_simps)

lemma process_eq:
  "process self descriptors samples =
     (self\<lparr>re_previous := fst (rate_loop (by_id descriptors) samples
        (hm_retain (is_counter (by_id descriptors)) (re_previous self)) [])\<rparr>,
      snd (rate_loop (by_id descriptors) samples
        (hm_retain (is_counter (by_id descriptors)) (re_previous self)) []))"
  by (simp add: process_def Let_def split_beta)

lemma process_source:
  "x \<in> set (snd (process self descriptors samples)) \<Longrightarrow>
     \<exists>s \<in> set samples. sam_series x = sam_series s \<and> sam_at x = sam_at s"
  using rate_loop_source by (fastforce simp: process_eq)

lemma process_value:
  "x \<in> set (snd (process self descriptors samples)) \<Longrightarrow>
     x \<in> set samples \<or> (\<exists>v. sam_value x = Float v)"
  using rate_loop_value by (fastforce simp: process_eq)

text \<open>
  C9: a tick with one sample per series puts out, in order, exactly what each sample's own
  descriptor and its series' previous reading say: gauges unchanged, a counter's increase over the
  measured time between the two readings times its scale, and nothing for a counter seen for the
  first time, gone backwards or read twice in one millisecond. Every counter reading is then the
  baseline of the next tick.
\<close>

theorem process_spec:
  assumes "distinct (map sam_series samples)"
  shows "snd (process self descriptors samples) =
      concat (map (rate_spec (hm_get (by_id descriptors)) (baseline self descriptors)) samples)
    \<and> (\<forall>s \<in> set samples. \<forall>raw. is_counter (by_id descriptors) (sam_series s) \<longrightarrow>
        as_counter (sam_value s) = Some raw \<longrightarrow>
        hm_get (re_previous (fst (process self descriptors samples))) (sam_series s) =
          Some \<lparr>pv_at = sam_at s, pv_raw = raw\<rparr>)"
  using assms
  by (simp add: process_eq rate_loop_spec baseline_retain rate_loop_remembers)

text \<open>
  The engine never remembers more than one reading for each counter of the last tick: a series
  that is absent from a tick, or is not a counter, is forgotten with it, whatever was remembered
  before, and after a reset nothing is remembered.
\<close>

theorem process_tracked:
  assumes "hm_wf (re_previous self)"
  shows "hm_wf (re_previous (fst (process self descriptors samples)))
    \<and> hm_keys (re_previous (fst (process self descriptors samples)))
        \<subseteq> {ser_id d | d. d \<in> set descriptors \<and> ser_kind d = Counter}
    \<and> tracked (fst (process self descriptors samples)) \<le> length descriptors
    \<and> tracked (rate_reset self) = 0"
proof -
  let ?ds = "by_id descriptors" and ?e = "fst (process self descriptors samples)"
  have wf: "hm_wf (re_previous ?e)"
    using assms by (auto simp: process_eq intro!: rate_loop_wf hm_wf_retain)
  have "hm_keys (re_previous ?e) \<subseteq> {sid. is_counter ?ds sid}"
    using rate_loop_keys [of "hm_retain (is_counter ?ds) (re_previous self)" ?ds samples "[]"]
    by (auto simp: process_eq map_simps)
  also have "\<dots> \<subseteq> {ser_id d | d. d \<in> set descriptors \<and> ser_kind d = Counter}"
  proof
    fix sid
    assume "sid \<in> {sid. is_counter ?ds sid}"
    then obtain d where "hm_get (rev (map (\<lambda>d. (ser_id d, d)) descriptors)) sid = Some d" "ser_kind d = Counter"
      by (auto simp: is_counter_def by_id_def map_simps split: option.splits)
    then show "sid \<in> {ser_id d | d. d \<in> set descriptors \<and> ser_kind d = Counter}"
      by (auto dest!: map_of_SomeD)
  qed
  finally have keys: "hm_keys (re_previous ?e) \<subseteq> {ser_id d | d. d \<in> set descriptors \<and> ser_kind d = Counter}" .
  have "tracked ?e = card (hm_keys (re_previous ?e))"
    unfolding tracked_def by (rule hm_length_keys [OF wf])
  also have "\<dots> \<le> card (ser_id ` set descriptors)"
    using keys by (intro card_mono) auto
  also have "\<dots> \<le> length descriptors"
    by (rule order.trans [OF card_image_le card_length]) simp
  finally show ?thesis using wf keys by (simp add: tracked_def rate_reset_def)
qed

section \<open>Rates are numbers\<close>

lemma rate_value_upto:
  assumes "prev \<le> raw" "0 < sint elapsed" "f_upto (2 ^ k) scale" "k \<le> 800"
  shows "f_upto (2 ^ (74 + k)) (rate_value raw prev elapsed scale)"
proof -
  define x where "x = f_of_nat (unat (raw - prev))"
  define e where "e = f_of_nat (nat (sint elapsed))"
  define t where "t = f_of_nat 1000"
  have x: "f_upto (2 ^ 64) x"
    unfolding x_def by (rule f_of_nat_u64) (rule unsigned_less [where 'a = nat, THEN order.strict_trans2], simp)
  have "sint elapsed < 2 ^ 63" using sint_range_size [of elapsed] by (simp add: word_size)
  then have n: "nat (sint elapsed) < 2 ^ 64" by simp
  have e: "f_upto (2 ^ 64) e" unfolding e_def by (rule f_of_nat_u64 [OF n])
  have e1: "1 \<le> fval e"
    using f_of_nat_mono [of 1 "nat (sint elapsed)"] n assms(2) fval_of_nat_exact [of 1] by (simp add: e_def)
  have t: "f_upto 1000 t" "fval t = 1000"
    using f_of_nat_upto [OF float_real_nat [of 1000], of 1000] fval_of_nat_exact [of 1000]
    by (simp_all add: t_def)
  obtain m f where em: "e = Fin False m f" using e by (auto simp: f_upto_def)
  obtain k' f' where tk: "t = Fin False k' f'" using t(1) by (auto simp: f_upto_def)
  define y where "y = f_div e t"
  have y: "f_upto (2 ^ 64) y"
    unfolding y_def
  proof (rule f_div_upto [OF e tk])
    show "float_real (2 ^ 64)" by (rule float_real_pow) simp
    show "fval e \<le> 2 ^ 64 * fval t" using e by (simp add: t(2) f_upto_def)
  qed (simp add: t(2))
  then have yfin: "is_finite y" by (auto simp: f_upto_def)
  have ylow: "1 / 2 ^ 10 \<le> fval y"
    unfolding y_def
  proof (rule f_div_ge [OF em tk])
    show "float_real (1 / 2 ^ 10)" by (rule float_real_inv_pow) simp
  qed (use e1 t(2) yfin in \<open>simp_all add: y_def\<close>)
  obtain k2 f2 where yk: "y = Fin False k2 f2" using y by (auto simp: f_upto_def)
  have q: "f_upto (2 ^ 74) (f_div x y)"
  proof (rule f_div_upto [OF x yk])
    show "0 < fval y" using ylow by (rule less_le_trans [rotated]) simp
    show "float_real (2 ^ 74)" by (rule float_real_pow) simp
    have "fval x \<le> 2 ^ 64" using x by (simp add: f_upto_def)
    also have "(2::real) ^ 64 = 2 ^ 74 * (1 / 2 ^ 10)" by simp
    also have "\<dots> \<le> 2 ^ 74 * fval y" using ylow by (rule mult_left_mono) simp
    finally show "fval x \<le> 2 ^ 74 * fval y" .
  qed
  have "f_upto (2 ^ (74 + k)) (f_mul (f_div x y) scale)"
  proof (rule f_mul_upto [OF q assms(3)])
    show "float_real (2 ^ (74 + k))" using assms(4) by (intro float_real_pow) simp
    have "fval (f_div x y) * fval scale \<le> 2 ^ 74 * 2 ^ k"
      using q assms(3) by (intro mult_mono) (auto elim!: f_uptoE)
    then show "fval (f_div x y) * fval scale \<le> 2 ^ (74 + k)" by (simp only: power_add)
  qed
  then show ?thesis
    using f_of_int_nat [of "sint elapsed"] assms(2) by (simp add: rate_value_def x_def y_def e_def t_def)
qed

text \<open>
  A rate is never negative, infinite or NaN: for every counter whose scale is a finite number
  from 0 to \<open>2 ^ 64\<close>, what the engine puts out is a finite number from 0 to \<open>2 ^ 138\<close>, whatever
  the two readings and however short the time between them.
\<close>

theorem rate_spec_finite:
  assumes "ds (sam_series s) = Some d" "ser_kind d = Counter" "f_upto (2 ^ 64) (ser_scale d)"
    "out \<in> set (rate_spec ds prev s)"
  shows "\<exists>v. sam_value out = Float v \<and> f_upto (2 ^ 138) v"
proof -
  obtain raw p where rp: "as_counter (sam_value s) = Some raw" "prev (sam_series s) = Some p"
    using assms by (cases "as_counter (sam_value s)"; cases "prev (sam_series s)")
      (auto simp: rate_spec_def)
  have p: "sint (pv_at p) < sint (sam_at s)" "pv_raw p \<le> raw"
    "out = s\<lparr>sam_value := Float (rate_value raw (pv_raw p) (i64_sat_sub (sam_at s) (pv_at p)) (ser_scale d))\<rparr>"
    using assms(4) by (simp_all add: rate_spec_def assms(1,2) rp split: if_splits)
  have "0 < sint (i64_sat_sub (sam_at s) (pv_at p))"
    using p(1) elapsed_pos [of "sam_at s" "pv_at p"] by linarith
  from rate_value_upto [OF p(2) this assms(3)] show ?thesis using p(3) by simp
qed

text \<open>A gauge of two ticks a second apart, and a counter that grows by 100 in two seconds.\<close>

definition demo_counter :: series_descriptor where
  "demo_counter = counter ''test'' ''host'' ''rx'' ''rx'' Bytes"

lemma demo_counter_simps:
  "ser_id demo_counter = ''host#rx''" "ser_kind demo_counter = Counter"
  "ser_scale demo_counter = f_of_nat 1"
  by (simp_all add: demo_counter_def ser_defs series_of_def unit_scale_def)

theorem rate_spec_finite_witness:
  "\<exists>v. rate_spec [''host#rx'' \<mapsto> demo_counter] [''host#rx'' \<mapsto> \<lparr>pv_at = 0, pv_raw = 5\<rparr>]
        (sample_new ''host#rx'' 2000 (Uint 105)) =
      [sample_new ''host#rx'' 2000 (Float v)] \<and> f_upto (2 ^ 138) v"
proof -
  let ?s = "sample_new ''host#rx'' 2000 (Uint 105)"
  let ?ds = "[''host#rx'' \<mapsto> demo_counter]" and ?prev = "[''host#rx'' \<mapsto> \<lparr>pv_at = 0, pv_raw = 5\<rparr>]"
  obtain v where v: "rate_spec ?ds ?prev ?s = [sample_new ''host#rx'' 2000 (Float v)]"
    by (simp add: rate_spec_def sample_new_def demo_counter_simps)
  have "f_upto (2 ^ 64) (f_of_nat 1)" by (rule f_of_nat_u64) simp
  then have "\<exists>w. sam_value (sample_new ''host#rx'' 2000 (Float v)) = Float w \<and> f_upto (2 ^ 138) w"
    by (intro rate_spec_finite [of ?ds ?s demo_counter _ ?prev])
      (simp_all add: v, simp_all add: sample_new_def demo_counter_simps)
  with v show ?thesis by (simp add: sample_new_def)
qed

theorem process_spec_witness:
  "snd (process \<lparr>re_previous = [(''host#rx'', \<lparr>pv_at = 1000, pv_raw = 500\<rparr>)]\<rparr> [demo_counter]
      [sample_new ''host#rx'' 2000 (Uint 400)]) = []
    \<and> hm_get (re_previous (fst (process \<lparr>re_previous = [(''host#rx'', \<lparr>pv_at = 1000, pv_raw = 500\<rparr>)]\<rparr>
        [demo_counter] [sample_new ''host#rx'' 2000 (Uint 400)]))) ''host#rx'' =
      Some \<lparr>pv_at = 2000, pv_raw = 400\<rparr>"
proof -
  have c: "is_counter (by_id [demo_counter]) ''host#rx''"
    by (simp add: is_counter_def by_id_def hm_collect_def demo_counter_simps)
  then show ?thesis
    using process_spec [of "[sample_new ''host#rx'' 2000 (Uint 400)]"
        "\<lparr>re_previous = [(''host#rx'', \<lparr>pv_at = 1000, pv_raw = 500\<rparr>)]\<rparr>" "[demo_counter]"]
    by (simp add: rate_spec_def baseline_def by_id_def hm_collect_def demo_counter_simps sample_new_def)
qed

theorem process_tracked_witness:
  "hm_keys (re_previous (fst (process \<lparr>re_previous = [(''gone'', \<lparr>pv_at = 0, pv_raw = 5\<rparr>)]\<rparr>
     [demo_counter] []))) \<subseteq> {''host#rx''}"
  using process_tracked [of "\<lparr>re_previous = [(''gone'', \<lparr>pv_at = 0, pv_raw = 5\<rparr>)]\<rparr>" "[demo_counter]" "[]"]
  by (auto simp: demo_counter_simps)

end
