(* ===== verification/Collector.thy ===== *)
theory Collector
  imports Frame Rate
begin

text \<open>
  Request merging and tick assembly (\<open>crates/sg-core/src/collector.rs\<close>), the contract a source
  keeps towards it as a locale, and what a tick looks like when every source keeps it.
\<close>

section \<open>The collector\<close>

record tick =
  tk_entities :: "entity list"
  tk_descriptors :: "series_descriptor list"
  tk_samples :: "sample list"
  tk_errors :: "parse_error list"

definition entity_ids :: "tick \<Rightarrow> entity_id list" where
  "entity_ids self = map ent_id (tk_entities self)"

record collector =
  co_sources :: "source list"
  co_disabled :: "source_id set"
  co_rate :: rate_engine

definition collector_new :: "source list \<Rightarrow> collector" where
  "collector_new sources =
     \<lparr>co_sources = sources,
      co_disabled = set (map (\<lambda>s. sd_id (src_descriptor s))
        (filter (\<lambda>s. \<not> sd_default_enabled (src_descriptor s)) sources)),
      co_rate = rate_new\<rparr>"

definition set_enabled :: "source_id \<Rightarrow> bool \<Rightarrow> collector \<Rightarrow> collector" where
  "set_enabled source enabled self =
     (if enabled then self\<lparr>co_disabled := co_disabled self - {source}\<rparr>
      else self\<lparr>co_disabled := insert source (co_disabled self)\<rparr>)"

definition is_enabled :: "collector \<Rightarrow> source_id \<Rightarrow> bool" where
  "is_enabled self source \<longleftrightarrow> source \<notin> co_disabled self"

definition applicable :: "collector \<Rightarrow> capabilities \<Rightarrow> source list" where
  "applicable self caps =
     filter (\<lambda>s. satisfied_by (sd_requires (src_descriptor s)) caps)
       (filter (\<lambda>s. is_enabled self (sd_id (src_descriptor s))) (co_sources self))"

text \<open>The merge of all sources' requests, by id and in the order they are first wanted.\<close>

fun merge_requests :: "string set \<Rightarrow> request list \<Rightarrow> request list" where
  "merge_requests seen [] = []"
| "merge_requests seen (r # rs) =
     (if request_id r \<in> seen then merge_requests seen rs
      else r # merge_requests (insert (request_id r) seen) rs)"

definition requests :: "collector \<Rightarrow> target_ctx \<Rightarrow> request list" where
  "requests self ctx =
     merge_requests {} (concat (map (\<lambda>s. src_requests s ctx) (applicable self (ctx_caps ctx))))"

definition dedup_step ::
  "entity \<Rightarrow> (entity_id, entity) hmap \<times> entity_id list \<Rightarrow> (entity_id, entity) hmap \<times> entity_id list" where
  "dedup_step e = (\<lambda>(merged, order).
     case hm_get merged (ent_id e) of
       Some x \<Rightarrow>
         (hm_insert (ent_id e) (x\<lparr>ent_labels := bt_extend (ent_labels x) (ent_labels e)\<rparr>) merged, order)
     | None \<Rightarrow> (hm_insert (ent_id e) e merged, order @ [ent_id e]))"

fun take_in_order :: "entity_id list \<Rightarrow> (entity_id, entity) hmap \<Rightarrow> entity list" where
  "take_in_order [] merged = []"
| "take_in_order (i # is) merged =
     (case hm_get merged i of
        None \<Rightarrow> take_in_order is merged
      | Some e \<Rightarrow> e # take_in_order is (hm_remove i merged))"

definition dedup_entities :: "entity list \<Rightarrow> entity list" where
  "dedup_entities entities =
     (let (merged, order) = fold dedup_step entities ([], []) in take_in_order order merged)"

fun parse_all ::
  "target_ctx \<Rightarrow> responses \<Rightarrow> i64 \<Rightarrow> source list \<Rightarrow> sample_sink \<Rightarrow> parse_error list
    \<Rightarrow> sample_sink \<times> parse_error list" where
  "parse_all ctx responses at_ms [] sink errors = (sink, errors)"
| "parse_all ctx responses at_ms (s # ss) sink errors =
     (case src_parse s ctx responses (sink_new at_ms) of
        (per_source, Inr _) \<Rightarrow>
          parse_all ctx responses at_ms ss (sink_absorb sink per_source) errors
      | (_, Inl e) \<Rightarrow> parse_all ctx responses at_ms ss sink (errors @ [e]))"

definition collect :: "target_ctx \<Rightarrow> responses \<Rightarrow> i64 \<Rightarrow> collector \<Rightarrow> collector \<times> tick" where
  "collect ctx responses at_ms self =
     (let (sink, errors) =
            parse_all ctx responses at_ms
              (filter (\<lambda>s. satisfied_by (sd_requires (src_descriptor s)) (ctx_caps ctx))
                (filter (\<lambda>s. sd_id (src_descriptor s) \<notin> co_disabled self) (co_sources self)))
              (sink_new at_ms) [];
          (rate, samples) = process (co_rate self) (sk_descriptors sink) (sk_samples sink)
      in (self\<lparr>co_rate := rate\<rparr>,
          \<lparr>tk_entities = dedup_entities (sk_entities sink), tk_descriptors = sk_descriptors sink,
           tk_samples = samples, tk_errors = errors\<rparr>))"

definition reset_rates :: "collector \<Rightarrow> collector" where
  "reset_rates self = self\<lparr>co_rate := rate_reset (co_rate self)\<rparr>"

section \<open>The merged request set\<close>

interpretation merge_ids: first_seen request_id "\<lambda>_. True" merge_requests
  by unfold_locales simp_all

text \<open>
  The request set of a refresh holds no two requests with one id, lists them in the order the
  sources first asked for them, and answers for every request of every applicable source: each has
  one of its own id in the batch. Merging an already merged set changes nothing.
\<close>

theorem requests_spec:
  "distinct (map request_id (requests self ctx))
   \<and> subseq (requests self ctx)
       (concat (map (\<lambda>s. src_requests s ctx) (applicable self (ctx_caps ctx))))
   \<and> request_id ` set (requests self ctx) =
       request_id ` (\<Union>s \<in> set (applicable self (ctx_caps ctx)). set (src_requests s ctx))
   \<and> merge_requests {} (requests self ctx) = requests self ctx"
  using merge_ids.keys [of "{}" "concat (map (\<lambda>s. src_requests s ctx) (applicable self (ctx_caps ctx)))"]
  by (auto simp: requests_def merge_ids.distinct_keys merge_ids.in_order merge_ids.repeat)

section \<open>Merging entities\<close>

text \<open>
  The declarations of an id in order, and its labels: those of all its declarations, a later one
  replacing an earlier.
\<close>

definition declarations :: "entity_id \<Rightarrow> entity list \<Rightarrow> entity list" where
  "declarations i es = filter (\<lambda>e. ent_id e = i) es"

definition labels_of :: "entity_id \<Rightarrow> entity list \<Rightarrow> string \<rightharpoonup> string" where
  "labels_of i es =
     fold (\<lambda>e m. m ++ map_of (rev (ent_labels e))) (tl (declarations i es))
       (map_of (ent_labels (hd (declarations i es))))"

definition same_but_labels :: "entity \<Rightarrow> entity \<Rightarrow> bool" where
  "same_but_labels e f \<longleftrightarrow> e\<lparr>ent_labels := []\<rparr> = f\<lparr>ent_labels := []\<rparr>"

text \<open>What the loop has gathered from a list of declarations.\<close>

definition gathered_at :: "entity list \<Rightarrow> (entity_id, entity) hmap \<Rightarrow> entity_id \<Rightarrow> bool" where
  "gathered_at es merged i \<longleftrightarrow>
     (case hm_get merged i of
        None \<Rightarrow> declarations i es = []
      | Some e \<Rightarrow> declarations i es \<noteq> [] \<and> ent_id e = i
          \<and> same_but_labels e (hd (declarations i es)) \<and> map_of (ent_labels e) = labels_of i es)"

definition gathered :: "entity list \<Rightarrow> (entity_id, entity) hmap \<Rightarrow> entity_id list \<Rightarrow> bool" where
  "gathered es merged order \<longleftrightarrow>
     order = rev (remdups (rev (map ent_id es))) \<and> (\<forall>i. gathered_at es merged i)"

lemma declarations_snoc:
  "declarations i (es @ [e]) = declarations i es @ (if ent_id e = i then [e] else [])"
  by (simp add: declarations_def)

lemma declarations_Nil_iff: "declarations i es = [] \<longleftrightarrow> i \<notin> ent_id ` set es"
  by (auto simp: declarations_def filter_empty_conv)

lemma labels_of_snoc:
  "labels_of i (es @ [e]) =
     (if ent_id e \<noteq> i then labels_of i es
      else if declarations i es = [] then map_of (ent_labels e)
      else labels_of i es ++ map_of (rev (ent_labels e)))"
  by (cases "declarations i es") (simp_all add: labels_of_def declarations_snoc)

lemma gathered_None:
  "gathered es merged order \<Longrightarrow> hm_get merged i = None \<Longrightarrow> declarations i es = []"
  unfolding gathered_def gathered_at_def by (drule conjunct2, drule spec [of _ i]) simp

lemma gathered_Some:
  "gathered es merged order \<Longrightarrow> hm_get merged i = Some e \<Longrightarrow> declarations i es \<noteq> [] \<and> ent_id e = i
     \<and> same_but_labels e (hd (declarations i es)) \<and> map_of (ent_labels e) = labels_of i es"
  unfolding gathered_def gathered_at_def by (drule conjunct2, drule spec [of _ i]) simp

lemma gathered_at_other:
  "i \<noteq> ent_id e \<Longrightarrow> gathered_at (es @ [e]) (hm_insert (ent_id e) x merged) i = gathered_at es merged i"
  by (auto simp: gathered_at_def map_simps declarations_snoc labels_of_snoc split: option.split)

lemma gathered_step:
  assumes g: "gathered es merged order"
  shows "gathered (es @ [e]) (fst (dedup_step e (merged, order))) (snd (dedup_step e (merged, order)))"
proof -
  let ?m = "fst (dedup_step e (merged, order))" and ?o = "snd (dedup_step e (merged, order))"
  have order: "order = rev (remdups (rev (map ent_id es)))" using g by (simp add: gathered_def)
  obtain x where m: "?m = hm_insert (ent_id e) x merged"
    by (cases "hm_get merged (ent_id e)") (auto simp: dedup_step_def)
  have at: "gathered_at (es @ [e]) ?m (ent_id e) \<and> ?o = rev (remdups (rev (map ent_id (es @ [e]))))"
  proof (cases "hm_get merged (ent_id e)")
    case None
    then have new: "declarations (ent_id e) es = []" by (rule gathered_None [OF g])
    then have "ent_id e \<notin> ent_id ` set es" by (simp add: declarations_Nil_iff)
    with None new show ?thesis
      by (simp add: order gathered_at_def dedup_step_def map_simps declarations_snoc labels_of_snoc
          same_but_labels_def)
  next
    case (Some y)
    note old = gathered_Some [OF g Some]
    then have "ent_id e \<in> ent_id ` set es" using declarations_Nil_iff [of "ent_id e" es] by simp
    with Some old show ?thesis
      by (simp add: order gathered_at_def dedup_step_def map_simps declarations_snoc labels_of_snoc
          same_but_labels_def)
  qed
  have "gathered_at (es @ [e]) ?m i" for i
  proof (cases "i = ent_id e")
    case False
    from gathered_at_other [OF this] show ?thesis unfolding m using g by (simp add: gathered_def)
  qed (use at in simp)
  with at show ?thesis by (simp add: gathered_def)
qed

lemma gathered_fold:
  "case fold dedup_step es ([], []) of (merged, order) \<Rightarrow> gathered es merged order"
proof (induction es rule: rev_induct)
  case Nil
  show ?case by (simp add: gathered_def gathered_at_def declarations_def)
next
  case (snoc e es)
  then show ?case
    using gathered_step [of es "fst (fold dedup_step es ([], []))" "snd (fold dedup_step es ([], []))" e]
    by (simp add: split_beta)
qed

lemma take_in_order_eq:
  "distinct order \<Longrightarrow> \<forall>i \<in> set order. hm_get merged i \<noteq> None \<Longrightarrow>
     take_in_order order merged = map (\<lambda>i. the (hm_get merged i)) order"
proof (induction order arbitrary: merged)
  case (Cons i order)
  then obtain e where e: "hm_get merged i = Some e" by auto
  have "\<forall>j \<in> set order. hm_get (hm_remove i merged) j \<noteq> None"
    using Cons.prems by (auto simp: map_simps)
  moreover have "map (\<lambda>j. the (hm_get (hm_remove i merged) j)) order = map (\<lambda>j. the (hm_get merged j)) order"
    using Cons.prems(1) by (auto simp: map_simps)
  ultimately show ?case using Cons e by simp
qed simp

lemma dedup_entities_facts:
  "map ent_id (dedup_entities es) = rev (remdups (rev (map ent_id es)))
   \<and> distinct (map ent_id (dedup_entities es))
   \<and> list_all (\<lambda>e. same_but_labels e (hd (declarations (ent_id e) es))
       \<and> map_of (ent_labels e) = labels_of (ent_id e) es) (dedup_entities es)"
proof -
  obtain merged order where mo: "fold dedup_step es ([], []) = (merged, order)" by fastforce
  then have g: "gathered es merged order" using gathered_fold [of es] by simp
  then have order: "order = rev (remdups (rev (map ent_id es)))" by (simp add: gathered_def)
  have ids: "set order = ent_id ` set es" by (simp add: order)
  have some: "\<exists>e. hm_get merged i = Some e \<and> ent_id e = i \<and> same_but_labels e (hd (declarations i es))
      \<and> map_of (ent_labels e) = labels_of i es" if "i \<in> set order" for i
  proof (cases "hm_get merged i")
    case None
    with gathered_None [OF g] that show ?thesis by (simp add: declarations_Nil_iff ids)
  qed (use gathered_Some [OF g] in blast)
  then have "\<forall>i \<in> set order. hm_get merged i \<noteq> None" by blast
  then have eq: "dedup_entities es = map (\<lambda>i. the (hm_get merged i)) order"
    by (simp add: dedup_entities_def mo take_in_order_eq order)
  have some': "ent_id (the (hm_get merged i)) = i
      \<and> same_but_labels (the (hm_get merged i)) (hd (declarations i es))
      \<and> map_of (ent_labels (the (hm_get merged i))) = labels_of i es" if "i \<in> set order" for i
    using some [OF that] by auto
  then have "map ent_id (dedup_entities es) = order"
    unfolding eq map_map by (intro map_idI) simp
  moreover have "distinct order" by (simp add: order)
  ultimately show ?thesis using some' by (simp add: order [symmetric] list_all_iff eq)
qed

text \<open>
  merging the entities of all sources leaves one entity per id, in the order the ids first
  appear; it is the first declaration with the labels of all of them, a key declared twice taking
  the later value.
\<close>

lemma dedup_entities_spec:
  "map ent_id (dedup_entities es) = rev (remdups (rev (map ent_id es)))
   \<and> distinct (map ent_id (dedup_entities es))
   \<and> list_all (\<lambda>e. same_but_labels e (hd (declarations (ent_id e) es))
       \<and> map_of (ent_labels e) = labels_of (ent_id e) es) (dedup_entities es)"
  by (rule dedup_entities_facts)

section \<open>One broken source costs only its own metrics\<close>

definition parses :: "target_ctx \<Rightarrow> responses \<Rightarrow> i64 \<Rightarrow> source \<Rightarrow> bool" where
  "parses ctx responses at_ms s \<longleftrightarrow>
     (case snd (src_parse s ctx responses (sink_new at_ms)) of Inl _ \<Rightarrow> False | Inr _ \<Rightarrow> True)"

definition failures :: "target_ctx \<Rightarrow> responses \<Rightarrow> i64 \<Rightarrow> source list \<Rightarrow> parse_error list" where
  "failures ctx responses at_ms ss =
     concat (map (\<lambda>s. case snd (src_parse s ctx responses (sink_new at_ms)) of Inl e \<Rightarrow> [e] | Inr _ \<Rightarrow> []) ss)"

lemma parse_all_eq:
  "parse_all ctx responses at_ms ss sink errors =
     (fold (\<lambda>s sink. sink_absorb sink (fst (src_parse s ctx responses (sink_new at_ms))))
        (filter (parses ctx responses at_ms) ss) sink,
      errors @ failures ctx responses at_ms ss)"
  by (induction ss arbitrary: sink errors)
    (auto simp: parses_def failures_def split: prod.split sum.split)

lemma collect_eq:
  "collect ctx responses at_ms self =
     (let sink = fold (\<lambda>s sink. sink_absorb sink (fst (src_parse s ctx responses (sink_new at_ms))))
            (filter (parses ctx responses at_ms) (applicable self (ctx_caps ctx))) (sink_new at_ms);
          (rate, samples) = process (co_rate self) (sk_descriptors sink) (sk_samples sink)
      in (self\<lparr>co_rate := rate\<rparr>,
          \<lparr>tk_entities = dedup_entities (sk_entities sink), tk_descriptors = sk_descriptors sink,
           tk_samples = samples,
           tk_errors = failures ctx responses at_ms (applicable self (ctx_caps ctx))\<rparr>))"
  unfolding collect_def parse_all_eq applicable_def is_enabled_def by (simp add: Let_def split_beta)

text \<open>
  C12: a source whose parser fails costs a refresh exactly its own metrics: apart from the errors
  reported, which are those of the failing sources in order, the tick and the rate state are those
  of the collector that never had the failing sources.
\<close>

theorem collect_isolates_failures:
  "collect ctx responses at_ms self =
     (let working = filter (parses ctx responses at_ms) (co_sources self);
          (self', t) = collect ctx responses at_ms (self\<lparr>co_sources := working\<rparr>)
      in (self'\<lparr>co_sources := co_sources self\<rparr>,
          t\<lparr>tk_errors := failures ctx responses at_ms (applicable self (ctx_caps ctx))\<rparr>))"
proof -
  let ?w = "filter (parses ctx responses at_ms) (co_sources self)"
  have "filter (parses ctx responses at_ms) (applicable (self\<lparr>co_sources := ?w\<rparr>) (ctx_caps ctx)) =
      filter (parses ctx responses at_ms) (applicable self (ctx_caps ctx))"
    by (simp add: applicable_def is_enabled_def conj_ac)
  then show ?thesis
    unfolding collect_eq by (simp add: Let_def split_beta)
qed

section \<open>The contract of a source\<close>

text \<open>
  What a sink holds of one source: every sample is of a described series and carries the tick's
  time, every series is the source's own, is named by \<open>SeriesId::of\<close> and sits on the host or on an
  entity the source declares, and every entity hangs below the host or another declared entity.
\<close>

definition sink_sound :: "source_id set \<Rightarrow> entity_id \<Rightarrow> i64 \<Rightarrow> sample_sink \<Rightarrow> bool" where
  "sink_sound sids host at_ms out \<longleftrightarrow>
     list_all (\<lambda>s. sam_at s = at_ms \<and> sam_series s \<in> ser_id ` set (sk_descriptors out)) (sk_samples out)
     \<and> list_all (\<lambda>d. ser_source d \<in> sids \<and> ser_id d = series_of (ser_entity d) (ser_metric d)
          \<and> ser_entity d \<in> insert host (ent_id ` set (sk_entities out))) (sk_descriptors out)
     \<and> list_all (\<lambda>e. \<exists>p \<in> insert host (ent_id ` set (sk_entities out)). ent_parent e = Some p)
          (sk_entities out)"

lemma sink_sound_new: "sink_sound sids host at_ms (sink_new t)"
  by (simp add: sink_sound_def)

lemma sink_sound_absorb:
  "sink_sound sids host at_ms a \<Longrightarrow> sink_sound sids host at_ms b \<Longrightarrow>
     sink_sound sids host at_ms (sink_absorb a b)"
  by (auto simp: sink_sound_def list_all_iff image_Un)

lemma sink_sound_mono: "sink_sound sids host at_ms a \<Longrightarrow> sids \<subseteq> sids' \<Longrightarrow> sink_sound sids' host at_ms a"
  by (auto simp: sink_sound_def list_all_iff)

locale sound_source =
  fixes src :: source
  assumes remote: "r \<in> set (src_requests src ctx) \<Longrightarrow> is_remote r \<and> r \<noteq> Exec []"
    and sound: "sink_sound {sd_id (src_descriptor src)} (ent_id (ctx_host ctx)) at_ms
        (fst (src_parse src ctx responses (sink_new at_ms)))"
    and local: "(\<And>r. r \<in> set (src_requests src ctx) \<Longrightarrow>
          responses_get responses r = responses_get responses' r) \<Longrightarrow>
        src_parse src ctx responses (sink_new at_ms) = src_parse src ctx responses' (sink_new at_ms)"
    and silent: "src_parse src ctx [] (sink_new at_ms) = (sink_new at_ms, Inr ())"
begin

lemma silent_without_answers:
  "(\<And>r. r \<in> set (src_requests src ctx) \<Longrightarrow> responses_get responses r = None) \<Longrightarrow>
     src_parse src ctx responses (sink_new at_ms) = (sink_new at_ms, Inr ())"
  using local [of ctx responses "[]"] silent by (simp add: responses_get_def)

end

text \<open>A collector all of whose sources keep the contract.\<close>

locale sound_sources =
  fixes sources :: "source list"
  assumes each: "s \<in> set sources \<Longrightarrow> sound_source s"
begin

lemma sound_fold:
  "set ss \<subseteq> set sources \<Longrightarrow>
   sink_sound (sd_id ` src_descriptor ` set sources) (ent_id (ctx_host ctx)) at_ms sink \<Longrightarrow>
   sink_sound (sd_id ` src_descriptor ` set sources) (ent_id (ctx_host ctx)) at_ms
     (fold (\<lambda>s sink. sink_absorb sink (fst (src_parse s ctx responses (sink_new at_ms)))) ss sink)"
proof (induction ss arbitrary: sink)
  case (Cons s ss)
  have "sink_sound (sd_id ` src_descriptor ` set sources) (ent_id (ctx_host ctx)) at_ms
      (fst (src_parse s ctx responses (sink_new at_ms)))"
    by (rule sink_sound_mono [OF sound_source.sound [OF each]]) (use Cons.prems(1) in simp_all)
  from sink_sound_absorb [OF Cons.prems(2) this] Cons.IH Cons.prems(1) show ?case by simp
qed simp

lemma all_remote:
  "co_sources self = sources \<Longrightarrow> r \<in> set (requests self ctx) \<Longrightarrow> is_remote r \<and> r \<noteq> Exec []"
proof -
  assume co: "co_sources self = sources" and r: "r \<in> set (requests self ctx)"
  from r merge_ids.members [of "{}"] obtain s where s: "s \<in> set (applicable self (ctx_caps ctx))"
    and rs: "r \<in> set (src_requests s ctx)"
    unfolding requests_def by fastforce
  from s have "s \<in> set sources" by (simp add: applicable_def co)
  from sound_source.remote [OF each [OF this] rs] show ?thesis .
qed

lemma tick_sound:
  assumes "co_sources self = sources" and c: "collect ctx responses at_ms self = (self', t)"
  shows "list_all (\<lambda>s. sam_at s = at_ms \<and> sam_series s \<in> ser_id ` set (tk_descriptors t)) (tk_samples t)
    \<and> list_all (\<lambda>d. ser_source d \<in> sd_id ` src_descriptor ` set sources
        \<and> ser_id d = series_of (ser_entity d) (ser_metric d)
        \<and> ser_entity d \<in> insert (ent_id (ctx_host ctx)) (set (entity_ids t))) (tk_descriptors t)
    \<and> list_all (\<lambda>e. \<exists>p \<in> insert (ent_id (ctx_host ctx)) (set (entity_ids t)). ent_parent e = Some p)
        (tk_entities t)"
proof -
  let ?host = "ent_id (ctx_host ctx)"
  let ?sink = "fold (\<lambda>s sink. sink_absorb sink (fst (src_parse s ctx responses (sink_new at_ms))))
      (filter (parses ctx responses at_ms) (applicable self (ctx_caps ctx))) (sink_new at_ms)"
  have "set (filter (parses ctx responses at_ms) (applicable self (ctx_caps ctx))) \<subseteq> set sources"
    using assms(1) by (auto simp: applicable_def)
  then have sound: "sink_sound (sd_id ` src_descriptor ` set sources) ?host at_ms ?sink"
    by (rule sound_fold [OF _ sink_sound_new])
  have t: "tk_entities t = dedup_entities (sk_entities ?sink)" "tk_descriptors t = sk_descriptors ?sink"
    "tk_samples t = snd (process (co_rate self) (sk_descriptors ?sink) (sk_samples ?sink))"
    using c by (auto simp: collect_eq Let_def split_beta)
  note d = dedup_entities_facts [of "sk_entities ?sink"]
  have ids: "set (entity_ids t) = ent_id ` set (sk_entities ?sink)"
    using arg_cong [OF d [THEN conjunct1], of set] by (simp add: entity_ids_def t)
  have "\<exists>p \<in> insert ?host (set (entity_ids t)). ent_parent e = Some p" if e: "e \<in> set (tk_entities t)" for e
  proof -
    let ?f = "hd (declarations (ent_id e) (sk_entities ?sink))"
    have "ent_id e \<in> ent_id ` set (sk_entities ?sink)"
      using e ids by (auto simp: entity_ids_def)
    then have ne: "declarations (ent_id e) (sk_entities ?sink) \<noteq> []" by (simp add: declarations_Nil_iff)
    then have f: "?f \<in> set (sk_entities ?sink)"
      using hd_in_set [OF ne] by (simp add: declarations_def)
    have "same_but_labels e ?f" using d e by (simp add: t list_all_iff)
    then have "ent_parent e = ent_parent ?f"
      by (auto simp: same_but_labels_def dest: arg_cong [where f = ent_parent])
    then show ?thesis using sound f by (simp add: sink_sound_def list_all_iff ids)
  qed
  then have "list_all (\<lambda>e. \<exists>p \<in> insert ?host (set (entity_ids t)). ent_parent e = Some p) (tk_entities t)"
    unfolding list_all_iff by blast
  moreover have "sam_at x = at_ms \<and> sam_series x \<in> ser_id ` set (tk_descriptors t)"
    if xt: "x \<in> set (tk_samples t)" for x
  proof -
    obtain s where s: "s \<in> set (sk_samples ?sink)" "sam_series x = sam_series s" "sam_at x = sam_at s"
      using process_source [OF xt [unfolded t(3)]] by (elim bexE conjE)
    have "list_all (\<lambda>s. sam_at s = at_ms \<and> sam_series s \<in> ser_id ` set (sk_descriptors ?sink)) (sk_samples ?sink)"
      using sound unfolding sink_sound_def by (elim conjE)
    then show ?thesis using s by (simp only: list_all_iff t(2))
  qed
  then have "list_all (\<lambda>s. sam_at s = at_ms \<and> sam_series s \<in> ser_id ` set (tk_descriptors t)) (tk_samples t)"
    unfolding list_all_iff by blast
  moreover have "list_all (\<lambda>d. ser_source d \<in> sd_id ` src_descriptor ` set sources
      \<and> ser_id d = series_of (ser_entity d) (ser_metric d)
      \<and> ser_entity d \<in> insert ?host (set (entity_ids t))) (tk_descriptors t)"
    using sound unfolding sink_sound_def t(2) ids by (elim conjE)
  ultimately show ?thesis by blast
qed

lemma tick_local:
  assumes "co_sources self = sources"
    and "\<And>r. r \<in> set (requests self ctx) \<Longrightarrow> responses_get responses r = responses_get responses' r"
  shows "collect ctx responses at_ms self = collect ctx responses' at_ms self"
proof -
  have same: "src_parse s ctx responses (sink_new at_ms) = src_parse s ctx responses' (sink_new at_ms)"
    if s: "s \<in> set (applicable self (ctx_caps ctx))" for s
  proof (rule sound_source.local)
    show "sound_source s" using s assms(1) each by (simp add: applicable_def)
    fix r
    assume "r \<in> set (src_requests s ctx)"
    with s have "r \<in> set (concat (map (\<lambda>s. src_requests s ctx) (applicable self (ctx_caps ctx))))" by auto
    then obtain q where "q \<in> set (requests self ctx)" "request_id q = request_id r"
      using merge_ids.covered unfolding requests_def by blast
    with assms(2) show "responses_get responses r = responses_get responses' r"
      by (fastforce simp: responses_get_def)
  qed
  have "failures ctx responses at_ms (applicable self (ctx_caps ctx)) =
      failures ctx responses' at_ms (applicable self (ctx_caps ctx))"
    unfolding failures_def by (intro arg_cong [where f = concat] map_cong refl) (simp add: same)
  moreover have "filter (parses ctx responses at_ms) (applicable self (ctx_caps ctx)) =
      filter (parses ctx responses' at_ms) (applicable self (ctx_caps ctx))"
    by (intro filter_cong refl) (simp add: parses_def same)
  moreover have "fold (\<lambda>s sink. sink_absorb sink (fst (src_parse s ctx responses (sink_new at_ms)))) ss k =
      fold (\<lambda>s sink. sink_absorb sink (fst (src_parse s ctx responses' (sink_new at_ms)))) ss k"
    if "set ss \<subseteq> set (applicable self (ctx_caps ctx))" for ss k
    using that by (induction ss arbitrary: k) (simp_all add: same)
  ultimately show ?thesis by (simp add: collect_eq)
qed

end

end
