(* ===== verification/Runtime.thy ===== *)
theory Runtime
  imports Shell Transport Probe Store Collector
begin

text \<open>
  One monitored host (\<open>crates/sg-core/src/runtime.rs\<close> and \<open>event.rs\<close>): connecting, refreshing,
  running a command, and what a lost connection does. The network is an argument of each
  operation: a \<open>connect_env\<close> for opening a session, a \<open>link\<close> for one batch, and the clock's
  reading.
\<close>

section \<open>What the interface is told\<close>

datatype target_state =
  Idle
  | Connecting
  | Online
  | Reconnecting u32 u64
  | Failed string bool

fun is_online :: "target_state \<Rightarrow> bool" where
  "is_online Online \<longleftrightarrow> True"
| "is_online _ \<longleftrightarrow> False"

datatype event =
  StateChanged target_id target_state
  | CapabilitiesDetected target_id capabilities
  | EntitiesChanged target_id "entity list"
  | Samples target_id "series_descriptor list" "sample list"
  | SourceError target_id string string

fun event_target :: "event \<Rightarrow> target_id" where
  "event_target (StateChanged t _) = t"
| "event_target (CapabilitiesDetected t _) = t"
| "event_target (EntitiesChanged t _) = t"
| "event_target (Samples t _ _) = t"
| "event_target (SourceError t _ _) = t"

section \<open>The backoff schedule\<close>

definition backoff_ms :: "u64 list" where
  "backoff_ms = [1000, 2000, 5000, 10000, 20000, 30000]"

text \<open>In milliseconds; the index saturates at both ends.\<close>

definition backoff_for :: "u32 \<Rightarrow> u64" where
  "backoff_for attempt = backoff_ms ! min (unat attempt - 1) (length backoff_ms - 1)"

section \<open>The runtime\<close>

record tick_summary =
  ts_entities :: nat
  ts_series :: nat
  ts_samples :: nat
  ts_errors :: nat
  ts_requests :: nat

record command_output =
  out_output :: string
  out_exit_code :: i32
  out_elapsed_ms :: u64

record target_runtime =
  tr_target :: target_id
  tr_spec :: connection_spec
  tr_session :: "ssh_session option"
  tr_ctx :: "target_ctx option"
  tr_collector :: collector
  tr_store :: live_store
  tr_state :: target_state
  tr_attempt :: u32

definition runtime_new :: "target_id \<Rightarrow> connection_spec \<Rightarrow> source list \<Rightarrow> target_runtime" where
  "runtime_new target spec sources =
     \<lparr>tr_target = target, tr_spec = spec, tr_session = None, tr_ctx = None,
      tr_collector = collector_new sources, tr_store = store_default, tr_state = Idle,
      tr_attempt = 0\<rparr>"

definition all_sources :: "target_runtime \<Rightarrow> source list" where
  "all_sources self = co_sources (tr_collector self)"

definition applicable_sources :: "target_runtime \<Rightarrow> source list" where
  "applicable_sources self =
     (case tr_ctx self of Some ctx \<Rightarrow> applicable (tr_collector self) (ctx_caps ctx) | None \<Rightarrow> [])"

definition set_source_enabled :: "source_id \<Rightarrow> bool \<Rightarrow> target_runtime \<Rightarrow> target_runtime" where
  "set_source_enabled source enabled self =
     self\<lparr>tr_collector := set_enabled source enabled (tr_collector self)\<rparr>"

definition rt_capabilities :: "target_runtime \<Rightarrow> capabilities option" where
  "rt_capabilities self = map_option ctx_caps (tr_ctx self)"

definition round_trips :: "target_runtime \<Rightarrow> u64" where
  "round_trips self = (case tr_session self of Some s \<Rightarrow> ss_round_trips s | None \<Rightarrow> 0)"

definition host_entity :: "target_runtime \<Rightarrow> entity option" where
  "host_entity self = map_option ctx_host (tr_ctx self)"

definition planned_requests :: "target_runtime \<Rightarrow> request list" where
  "planned_requests self =
     (case tr_ctx self of Some ctx \<Rightarrow> requests (tr_collector self) ctx | None \<Rightarrow> [])"

definition summarise :: "target_runtime \<Rightarrow> tick \<Rightarrow> tick_summary" where
  "summarise self t =
     \<lparr>ts_entities = length (tk_entities t), ts_series = length (tk_descriptors t),
      ts_samples = length (tk_samples t), ts_errors = length (tk_errors t),
      ts_requests = length (planned_requests self)\<rparr>"

definition on_disconnect :: "transport_error \<Rightarrow> target_runtime \<Rightarrow> target_runtime" where
  "on_disconnect error self0 =
     (let self = self0\<lparr>tr_session := None, tr_collector := reset_rates (tr_collector self0)\<rparr>
      in if is_transient error then
           (let attempt = tr_attempt self + 1
            in self\<lparr>tr_attempt := attempt, tr_state := Reconnecting attempt (backoff_for attempt)\<rparr>)
         else self\<lparr>tr_state := Failed (transport_error_display error) False\<rparr>)"

text \<open>The context and the clean slate of a fresh connection.\<close>

definition detected_host :: "connection_spec \<Rightarrow> capabilities \<Rightarrow> entity" where
  "detected_host spec caps =
     ent_with_label (ent_with_label (ent_with_label
       (entity_host (if cap_hostname caps = [] then cs_host spec else cap_hostname caps))
       ''kernel'' (cap_kernel caps)) ''distro'' (cap_distro caps)) ''arch'' (cap_arch caps)"

definition come_online :: "ssh_session \<Rightarrow> responses \<Rightarrow> target_runtime \<Rightarrow> target_runtime" where
  "come_online session responses self =
     (let caps = probe_parse responses
      in self\<lparr>tr_ctx := Some \<lparr>ctx_target = tr_target self,
                ctx_host = detected_host (tr_spec self) caps, ctx_caps = caps,
                ctx_interval_ms = 1000\<rparr>,
              tr_collector := reset_rates (tr_collector self),
              tr_store := store_clear (tr_store self),
              tr_session := Some session, tr_state := Online, tr_attempt := 0\<rparr>)"

definition rt_connect ::
  "connect_env \<Rightarrow> link \<Rightarrow> target_runtime \<Rightarrow> target_runtime \<times> (transport_error + unit)" where
  "rt_connect env lk self0 =
     (let self = self0\<lparr>tr_state := Connecting\<rparr>
      in case session_connect env (tr_spec self) of
           Inl error \<Rightarrow>
             (self\<lparr>tr_state := Failed (transport_error_display error) (is_transient error)\<rparr>, Inl error)
         | Inr session \<Rightarrow>
             (case session_batch lk probe_requests session of
                (_, Inl error) \<Rightarrow> (on_disconnect error self, Inl error)
              | (session', Inr responses) \<Rightarrow> (come_online session' responses self, Inr ())))"

definition rt_tick ::
  "link \<Rightarrow> i64 \<Rightarrow> target_runtime \<Rightarrow> target_runtime \<times> (transport_error + tick)" where
  "rt_tick lk now self =
     (case (tr_session self, tr_ctx self) of
        (Some session, Some ctx) \<Rightarrow>
          (let rs = requests (tr_collector self) ctx;
               (session', r) = (if rs = [] then (session, Inr []) else session_batch lk rs session)
           in case r of
                Inl error \<Rightarrow> (on_disconnect error self, Inl error)
              | Inr responses \<Rightarrow>
                  (let (c, t) = collect ctx responses now (tr_collector self)
                   in (self\<lparr>tr_session := Some session', tr_collector := c,
                           tr_store := store_tick (tk_entities t) (tk_descriptors t) (tk_samples t)
                             (ent_id (ctx_host ctx)) (tr_store self)\<rparr>,
                       Inr t)))
      | _ \<Rightarrow> (self, Inl Closed))"

definition command_request :: "string \<Rightarrow> request" where
  "command_request command = Exec [''sh'', ''-c'', ''{ '' @ command @ [nl] @ ''} 2>&1'']"

definition rt_run_command ::
  "link \<Rightarrow> u64 \<Rightarrow> string \<Rightarrow> target_runtime \<Rightarrow> target_runtime \<times> (transport_error + command_output)" where
  "rt_run_command lk elapsed command self =
     (case tr_session self of
        None \<Rightarrow> (self, Inl Closed)
      | Some session \<Rightarrow>
          (let request = command_request command
           in case session_batch lk [request] session of
                (_, Inl error) \<Rightarrow> (on_disconnect error self, Inl error)
              | (session', Inr responses) \<Rightarrow>
                  (self\<lparr>tr_session := Some session'\<rparr>,
                   Inr \<lparr>out_output = (case responses_get responses request of
                           Some r \<Rightarrow> rs_body r | None \<Rightarrow> []),
                        out_exit_code = (case responses_get responses request of
                           Some r \<Rightarrow> exit_code r | None \<Rightarrow> -1),
                        out_elapsed_ms = elapsed\<rparr>)))"

section \<open>What can happen to a runtime\<close>

inductive runtime_reachable ::
  "target_id \<Rightarrow> connection_spec \<Rightarrow> source list \<Rightarrow> target_runtime \<Rightarrow> bool"
  for target spec sources where
  created: "runtime_reachable target spec sources (runtime_new target spec sources)"
| connects: "runtime_reachable target spec sources r \<Longrightarrow>
    runtime_reachable target spec sources (fst (rt_connect env lk r))"
| ticks: "runtime_reachable target spec sources r \<Longrightarrow>
    runtime_reachable target spec sources (fst (rt_tick lk now r))"
| commands: "runtime_reachable target spec sources r \<Longrightarrow>
    runtime_reachable target spec sources (fst (rt_run_command lk elapsed command r))"
| toggles: "runtime_reachable target spec sources r \<Longrightarrow>
    runtime_reachable target spec sources (set_source_enabled source enabled r)"

text \<open>
  The invariant, in parts: what never changes; the store; and how state, session, context and
  rates agree.
\<close>

definition fixed_parts :: "target_id \<Rightarrow> connection_spec \<Rightarrow> source list \<Rightarrow> target_runtime \<Rightarrow> bool" where
  "fixed_parts target spec sources r \<longleftrightarrow>
     tr_target r = target \<and> tr_spec r = spec \<and> co_sources (tr_collector r) = sources"

definition store_part :: "target_runtime \<Rightarrow> bool" where
  "store_part r \<longleftrightarrow> store_inv (tr_store r) \<and> st_window (tr_store r) = default_window"

definition host_of :: "target_runtime \<Rightarrow> target_ctx \<Rightarrow> bool" where
  "host_of r ctx \<longleftrightarrow> ctx_target ctx = tr_target r \<and> ent_id (ctx_host ctx) = ''host''
     \<and> ctx_interval_ms ctx = 1000"

fun state_agrees :: "target_state \<Rightarrow> u32 \<Rightarrow> bool \<Rightarrow> bool" where
  "state_agrees Idle attempt linked \<longleftrightarrow> \<not> linked \<and> attempt = 0"
| "state_agrees Connecting attempt linked \<longleftrightarrow> False"
| "state_agrees Online attempt linked \<longleftrightarrow> linked \<and> attempt = 0"
| "state_agrees (Reconnecting n ms) attempt linked \<longleftrightarrow>
     \<not> linked \<and> n = attempt \<and> ms = backoff_for attempt"
| "state_agrees (Failed _ _) attempt linked \<longleftrightarrow> True"

definition connection_part :: "target_runtime \<Rightarrow> bool" where
  "connection_part r \<longleftrightarrow>
     state_agrees (tr_state r) (tr_attempt r) (tr_session r \<noteq> None)
     \<and> (tr_session r \<noteq> None \<longrightarrow> tr_ctx r \<noteq> None)
     \<and> (tr_session r = None \<longrightarrow> re_previous (co_rate (tr_collector r)) = [])
     \<and> pred_option (host_of r) (tr_ctx r)"

lemmas runtime_parts = fixed_parts_def store_part_def connection_part_def host_of_def

subsection \<open>Each operation keeps it\<close>

lemma collector_fields [simp]:
  "co_sources (reset_rates c) = co_sources c" "re_previous (co_rate (reset_rates c)) = []"
  "co_sources (set_enabled s b c) = co_sources c" "co_rate (set_enabled s b c) = co_rate c"
  "co_sources (collector_new ss) = ss" "re_previous (co_rate (collector_new ss)) = []"
  by (simp_all add: reset_rates_def rate_reset_def set_enabled_def collector_new_def rate_new_def)

lemma collect_sources [simp]: "co_sources (fst (collect ctx responses now c)) = co_sources c"
  by (simp add: collect_def Let_def split_beta)

lemma detected_host_id [simp]: "ent_id (detected_host spec caps) = ''host''"
  by (simp add: detected_host_def entity_host_def)

lemma store_tick_exec:
  "store_tick es ds ss host s =
     fold store_exec [Ingest es ds ss, RetainSeries ds, RetainEntities (map ent_id es @ [host])] s"
  by (simp add: store_tick_def)

lemma store_part_tick:
  "store_inv s \<and> st_window s = w \<Longrightarrow>
     store_inv (store_tick es ds ss host s) \<and> st_window (store_tick es ds ss host s) = w"
  unfolding store_tick_exec by (elim conjE) (simp only: store_runs simp_thms)

lemma store_part_clear:
  "store_inv s \<and> st_window s = w \<Longrightarrow> store_inv (store_clear s) \<and> st_window (store_clear s) = w"
  using store_runs [of s "[Clear]"] by auto

lemma store_part_default: "store_inv store_default \<and> st_window store_default = default_window"
  using store_inv_with_window [of default_window]
  by (simp add: store_default_def with_window_def default_window_def)

lemma on_disconnect_parts:
  assumes "fixed_parts target spec sources r" "store_part r" "pred_option (host_of r) (tr_ctx r)"
  shows "fixed_parts target spec sources (on_disconnect e r) \<and> store_part (on_disconnect e r)
    \<and> connection_part (on_disconnect e r)"
  using assms by (auto simp: on_disconnect_def Let_def runtime_parts pred_option_def)

lemma connect_parts:
  assumes "fixed_parts target spec sources r" "store_part r" "connection_part r"
  shows "fixed_parts target spec sources (fst (rt_connect env lk r))
    \<and> store_part (fst (rt_connect env lk r)) \<and> connection_part (fst (rt_connect env lk r))"
proof -
  let ?r = "r\<lparr>tr_state := Connecting\<rparr>"
  have k: "fixed_parts target spec sources ?r" "store_part ?r" "pred_option (host_of ?r) (tr_ctx ?r)"
    using assms by (auto simp: runtime_parts pred_option_def)
  have up: "fixed_parts target spec sources (come_online s rs ?r) \<and> store_part (come_online s rs ?r)
      \<and> connection_part (come_online s rs ?r)" for s rs
    using k store_part_clear [of "tr_store r" default_window]
    by (auto simp: come_online_def Let_def runtime_parts)
  have failed: "fixed_parts target spec sources (?r\<lparr>tr_state := Failed m b\<rparr>)
      \<and> store_part (?r\<lparr>tr_state := Failed m b\<rparr>) \<and> connection_part (?r\<lparr>tr_state := Failed m b\<rparr>)" for m b
    using assms by (auto simp: runtime_parts pred_option_def)
  show ?thesis
    using on_disconnect_parts [OF k] up failed
    by (simp add: rt_connect_def Let_def split: sum.split prod.split)
qed

lemma tick_parts:
  assumes "fixed_parts target spec sources r" "store_part r" "connection_part r"
  shows "fixed_parts target spec sources (fst (rt_tick lk now r))
    \<and> store_part (fst (rt_tick lk now r)) \<and> connection_part (fst (rt_tick lk now r))"
proof -
  have h: "pred_option (host_of r) (tr_ctx r)" using assms(3) by (simp add: connection_part_def)
  have ok: "fixed_parts target spec sources r' \<and> store_part r' \<and> connection_part r'"
    if "r' = r\<lparr>tr_session := Some s, tr_collector := fst (collect ctx rs now (tr_collector r)),
        tr_store := store_tick es ds ss host (tr_store r)\<rparr>"
      "tr_session r = Some s'" "tr_ctx r = Some ctx" for r' s s' ctx rs es ds ss host
    using assms store_part_tick [of "tr_store r" default_window] that
    by (simp add: runtime_parts)
  show ?thesis
    using on_disconnect_parts [OF assms(1,2) h] assms ok
    by (auto simp: rt_tick_def Let_def split_beta split: option.split sum.split)
qed

lemma command_parts:
  assumes "fixed_parts target spec sources r" "store_part r" "connection_part r"
  shows "fixed_parts target spec sources (fst (rt_run_command lk elapsed command r))
    \<and> store_part (fst (rt_run_command lk elapsed command r))
    \<and> connection_part (fst (rt_run_command lk elapsed command r))"
proof -
  have h: "pred_option (host_of r) (tr_ctx r)" using assms(3) by (simp add: connection_part_def)
  have ok: "fixed_parts target spec sources (r\<lparr>tr_session := Some s\<rparr>)
      \<and> store_part (r\<lparr>tr_session := Some s\<rparr>) \<and> connection_part (r\<lparr>tr_session := Some s\<rparr>)"
    if "tr_session r = Some s'" for s s'
    using assms that by (auto simp: runtime_parts pred_option_def)
  show ?thesis
    using on_disconnect_parts [OF assms(1,2) h] assms ok
    by (auto simp: rt_run_command_def Let_def split: option.split sum.split prod.split)
qed

lemma reachable_parts:
  "runtime_reachable target spec sources r \<Longrightarrow>
     fixed_parts target spec sources r \<and> store_part r \<and> connection_part r"
proof (induction rule: runtime_reachable.induct)
  case created
  show ?case using store_part_default by (simp add: runtime_new_def runtime_parts)
next
  case (connects r env lk)
  then show ?case by (intro connect_parts) simp_all
next
  case (ticks r lk now)
  then show ?case by (intro tick_parts) simp_all
next
  case (commands r lk elapsed command)
  then show ?case by (intro command_parts) simp_all
next
  case (toggles r source enabled)
  then show ?case by (auto simp: set_source_enabled_def runtime_parts pred_option_def)
qed

text \<open>
  C14: in every state a runtime can reach, through any connects, refreshes, commands and changes of
  source set, and whatever the network does: the target, the connection and the sources are the
  ones it was created with; the store is well-formed and keeps its window; no operation leaves the
  state at \<open>Connecting\<close>; \<open>Online\<close> means that there is a session and that no attempt is counted,
  \<open>Reconnecting\<close> that there is none and that the wait announced is the one of the attempt
  announced; a session never exists without what detection learnt; and without a session no
  counter reading is remembered, so no rate is ever derived across a gap.
\<close>

theorem runtime_invariant:
  assumes "runtime_reachable target spec sources r"
  shows "tr_target r = target \<and> tr_spec r = spec \<and> all_sources r = sources
    \<and> store_inv (tr_store r) \<and> st_window (tr_store r) = default_window
    \<and> state_agrees (tr_state r) (tr_attempt r) (tr_session r \<noteq> None)
    \<and> (if tr_session r = None then re_previous (co_rate (tr_collector r)) = [] else tr_ctx r \<noteq> None)"
  using reachable_parts [OF assms]
  by (simp add: fixed_parts_def store_part_def connection_part_def all_sources_def)

definition dead_network :: connect_env where
  "dead_network = demo_env\<lparr>ce_elapsed := True\<rparr>"

definition dead_link :: link where
  "dead_link = \<lparr>lk_lossy = id, lk_write = WriteElapsed, lk_events = []\<rparr>"

definition demo_spec :: connection_spec where
  "demo_spec = (connection_spec_new ''h'' ''u'')\<lparr>cs_auth := Password ''pw''\<rparr>"

theorem runtime_invariant_witness:
  "\<exists>r :: target_runtime. tr_state r = Reconnecting 1 1000 \<and> tr_session r = None
     \<and> state_agrees (tr_state r) (tr_attempt r) (tr_session r \<noteq> None)
     \<and> re_previous (co_rate (tr_collector r)) = []"
proof -
  let ?r = "fst (rt_connect demo_env dead_link (runtime_new ''t1'' demo_spec []))"
  have reach: "runtime_reachable ''t1'' demo_spec [] ?r"
    by (intro runtime_reachable.intros)
  obtain s where s: "session_connect demo_env demo_spec = Inr s"
    by (simp add: session_connect_def demo_env_def demo_server_def check_server_key_def demo_spec_def
        connection_spec_new_def authenticate_def judge_def)
  have lost: "snd (session_batch dead_link probe_requests s) = Inl (Timeout ''collection batch'' (cs_batch_timeout_ms (ss_spec s)))"
    using probe_requests_servable [of "ss_framing s"]
    by (auto simp: session_batch_def batch_def dead_link_def Let_def split: prod.split)
  then have "?r = on_disconnect (Timeout ''collection batch'' (cs_batch_timeout_ms (ss_spec s)))
      ((runtime_new ''t1'' demo_spec [])\<lparr>tr_state := Connecting\<rparr>)"
    by (auto simp: rt_connect_def s runtime_new_def Let_def split: prod.splits)
  then have st: "tr_state ?r = Reconnecting 1 1000" "tr_session ?r = None"
    by (simp_all add: on_disconnect_def runtime_new_def Let_def backoff_for_def backoff_ms_def)
  note inv = runtime_invariant [OF reach]
  then have "state_agrees (tr_state ?r) (tr_attempt ?r) (tr_session ?r \<noteq> None)" by blast
  moreover have "re_previous (co_rate (tr_collector ?r)) = []" using inv st(2) by presburger
  ultimately show ?thesis using st by blast
qed

section \<open>The life cycle\<close>

text \<open>
  The connection life cycle as an abstract machine: which phase, how many consecutive losses, and
  whether there is a session. Each operation of the runtime has one outcome, and the outcome alone
  determines the next abstract state.
\<close>

datatype phase = Off | Dialling | Up | Waiting | Down bool

record life =
  lf_phase :: phase
  lf_losses :: u32
  lf_linked :: bool

datatype outcome = Came_online | No_session transport_error | Lost transport_error | Unaffected

fun life_next :: "outcome \<Rightarrow> life \<Rightarrow> life" where
  "life_next Came_online l = \<lparr>lf_phase = Up, lf_losses = 0, lf_linked = True\<rparr>"
| "life_next (No_session e) l = l\<lparr>lf_phase := Down (is_transient e)\<rparr>"
| "life_next (Lost e) l =
     (if is_transient e then \<lparr>lf_phase = Waiting, lf_losses = lf_losses l + 1, lf_linked = False\<rparr>
      else \<lparr>lf_phase = Down False, lf_losses = lf_losses l, lf_linked = False\<rparr>)"
| "life_next Unaffected l = l"

fun phase_of :: "target_state \<Rightarrow> phase" where
  "phase_of Idle = Off"
| "phase_of Connecting = Dialling"
| "phase_of Online = Up"
| "phase_of (Reconnecting _ _) = Waiting"
| "phase_of (Failed _ recoverable) = Down recoverable"

definition life_of :: "target_runtime \<Rightarrow> life" where
  "life_of r = \<lparr>lf_phase = phase_of (tr_state r), lf_losses = tr_attempt r,
                lf_linked = (tr_session r \<noteq> None)\<rparr>"

datatype runtime_op =
  DoConnect connect_env link
  | DoTick link i64
  | DoCommand link u64 string
  | DoToggle source_id bool

fun runtime_exec :: "runtime_op \<Rightarrow> target_runtime \<Rightarrow> target_runtime" where
  "runtime_exec (DoConnect env lk) r = fst (rt_connect env lk r)"
| "runtime_exec (DoTick lk now) r = fst (rt_tick lk now r)"
| "runtime_exec (DoCommand lk elapsed command) r = fst (rt_run_command lk elapsed command r)"
| "runtime_exec (DoToggle source enabled) r = set_source_enabled source enabled r"

definition used_session :: "target_runtime \<Rightarrow> transport_error + 'a \<Rightarrow> outcome" where
  "used_session r res =
     (case res of Inl e \<Rightarrow> if tr_session r = None then Unaffected else Lost e | Inr _ \<Rightarrow> Unaffected)"

fun outcome_of :: "runtime_op \<Rightarrow> target_runtime \<Rightarrow> outcome" where
  "outcome_of (DoConnect env lk) r =
     (case session_connect env (tr_spec r) of
        Inl e \<Rightarrow> No_session e
      | Inr s \<Rightarrow> (case snd (session_batch lk probe_requests s) of
          Inl e \<Rightarrow> Lost e | Inr _ \<Rightarrow> Came_online))"
| "outcome_of (DoTick lk now) r = used_session r (snd (rt_tick lk now r))"
| "outcome_of (DoCommand lk elapsed command) r =
     used_session r (snd (rt_run_command lk elapsed command r))"
| "outcome_of (DoToggle _ _) r = Unaffected"

lemmas life_simps = life_of_def on_disconnect_def come_online_def Let_def

lemma connect_refines:
  "life_of (fst (rt_connect env lk r)) = life_next (outcome_of (DoConnect env lk) r) (life_of r)"
  by (auto simp: rt_connect_def life_simps
      split: sum.split prod.split)

lemma tick_refines:
  assumes "tr_ctx r = None \<Longrightarrow> tr_session r = None"
  shows "life_of (fst (rt_tick lk now r)) = life_next (outcome_of (DoTick lk now) r) (life_of r)"
  using assms
  by (auto simp: rt_tick_def life_simps used_session_def split_beta
      split: sum.split option.split)

lemma command_refines:
  "life_of (fst (rt_run_command lk elapsed command r)) =
     life_next (outcome_of (DoCommand lk elapsed command) r) (life_of r)"
  by (auto simp: rt_run_command_def life_simps used_session_def
      split: sum.split option.split prod.split)

lemma reachable_exec:
  "runtime_reachable target spec sources r \<Longrightarrow> runtime_reachable target spec sources (runtime_exec op r)"
  by (cases op) (simp_all add: runtime_reachable.intros)

lemma exec_refines:
  "runtime_reachable target spec sources r \<Longrightarrow>
     life_of (runtime_exec op r) = life_next (outcome_of op r) (life_of r)"
proof (cases op)
  case (DoTick lk now)
  moreover assume reach: "runtime_reachable target spec sources r"
  have "tr_ctx r = None \<Longrightarrow> tr_session r = None"
    using reachable_parts [OF reach] by (auto simp: connection_part_def)
  ultimately show ?thesis using tick_refines by (simp del: outcome_of.simps)
next
  case (DoToggle source enabled)
  then show ?thesis by (simp add: life_of_def set_source_enabled_def)
qed (simp_all add: connect_refines command_refines del: outcome_of.simps)

text \<open>The outcomes of a run, each where its operation happens.\<close>

fun outcomes :: "runtime_op list \<Rightarrow> target_runtime \<Rightarrow> outcome list" where
  "outcomes [] r = []"
| "outcomes (op # ops) r = outcome_of op r # outcomes ops (runtime_exec op r)"

lemma runs_refine:
  "runtime_reachable target spec sources r \<Longrightarrow>
     life_of (fold runtime_exec ops r) = fold life_next (outcomes ops r) (life_of r)"
proof (induction ops arbitrary: r)
  case (Cons op ops)
  show ?case
    using Cons.IH [OF reachable_exec [OF Cons.prems]] exec_refines [OF Cons.prems] by simp
qed simp

text \<open>
  C15: the runtime implements the life-cycle machine: after any sequence of operations, its phase,
  its count of losses and whether it holds a session are what the machine computes from the
  outcomes alone. So a lost connection always leaves the runtime without a session, waiting if the
  error is one that passes and stopped for good if it is not, with the count one higher only in
  the first case; coming online ends both; and nothing else changes them.
\<close>

theorem runtime_refines_life:
  "life_of (fold runtime_exec ops (runtime_new target spec sources)) =
     fold life_next (outcomes ops (runtime_new target spec sources))
       \<lparr>lf_phase = Off, lf_losses = 0, lf_linked = False\<rparr>"
proof -
  have "life_of (runtime_new target spec sources) = \<lparr>lf_phase = Off, lf_losses = 0, lf_linked = False\<rparr>"
    by (simp add: life_of_def runtime_new_def)
  with runs_refine [OF runtime_reachable.created] show ?thesis by simp
qed

section \<open>A refresh\<close>

lemma tick_trips:
  "rt_tick lk now r = (r', Inr t) \<Longrightarrow>
     round_trips r' = round_trips r + (if first_by_id {} (planned_requests r) = [] then 0 else 1)"
  by (auto simp: rt_tick_def Let_def split_beta round_trips_def planned_requests_def
      session_batch_state encode_def encode_loop_eq split: option.splits sum.splits if_splits)

lemma tick_collects:
  "rt_tick lk now r = (r', Inr t) \<Longrightarrow>
     \<exists>ctx responses. tr_ctx r = Some ctx \<and> collect ctx responses now (tr_collector r) = (tr_collector r', t)"
  by (auto simp: rt_tick_def Let_def split_beta split: option.splits sum.splits)

text \<open>
  C16: one refresh, on every branch. Without a session it does nothing and reports that. When it
  succeeds it has spent one round trip, whatever the number of collectors, or none if there is
  nothing to ask; what it returns is what the collectors make of the answers decoded from the bytes
  that arrived on this session in this round trip, and of nothing if nothing was asked; the store is
  updated with exactly that; and the connection state is as before. It fails only with the failure
  of that round trip: the session is then gone and no counter is remembered, while the store, the
  context and the choice of sources are untouched, so the interface keeps the last readings and a
  refresh can be retried after reconnecting.
\<close>

theorem tick_spec:
  "case rt_tick lk now r of
     (r', Inr t) \<Rightarrow>
       \<exists>ctx s responses.
         tr_ctx r = Some ctx \<and> tr_session r = Some s
         \<and> r' = r\<lparr>tr_session := tr_session r', tr_collector := tr_collector r', tr_store := tr_store r'\<rparr>
         \<and> tr_session r' \<noteq> None
         \<and> round_trips r' = round_trips r + (if first_by_id {} (planned_requests r) = [] then 0 else 1)
         \<and> (if first_by_id {} (planned_requests r) = [] then responses = []
            else \<exists>out. reply_of lk s = Inr out \<and> responses = decode (ss_framing s) (lk_lossy lk out))
         \<and> collect ctx responses now (tr_collector r) = (tr_collector r', t)
         \<and> tr_store r' = store_tick (tk_entities t) (tk_descriptors t) (tk_samples t)
             (ent_id (ctx_host ctx)) (tr_store r)
   | (r', Inl e) \<Rightarrow>
       if tr_session r = None \<or> tr_ctx r = None then r' = r \<and> e = Closed
       else tr_session r' = None \<and> re_previous (co_rate (tr_collector r')) = []
         \<and> (\<exists>s. tr_session r = Some s \<and> reply_of lk s = Inl e)
         \<and> first_by_id {} (planned_requests r) \<noteq> []
         \<and> tr_store r' = tr_store r \<and> tr_ctx r' = tr_ctx r
         \<and> co_disabled (tr_collector r') = co_disabled (tr_collector r)
         \<and> tr_state r' = (if is_transient e
             then Reconnecting (tr_attempt r + 1) (backoff_for (tr_attempt r + 1))
             else Failed (transport_error_display e) False)"
proof (cases "tr_session r")
  case None
  then show ?thesis by (simp add: rt_tick_def)
next
  case (Some s)
  show ?thesis
  proof (cases "tr_ctx r")
    case None
    then show ?thesis by (simp add: rt_tick_def Some)
  next
    case (Some ctx)
    let ?rs = "requests (tr_collector r) ctx"
    let ?b = "if ?rs = [] then (s, Inr []) else session_batch lk ?rs s"
    have trips: "ss_round_trips (fst ?b) = ss_round_trips s + (if first_by_id {} ?rs = [] then 0 else 1)"
      by (auto simp: session_batch_state encode_def encode_loop_eq)
    have reply: "snd ?b = (if first_by_id {} ?rs = [] then Inr []
        else map_sum id (\<lambda>buf. decode (ss_framing s) (lk_lossy lk buf)) (reply_of lk s))"
      by (auto simp: session_batch_reply encode_def encode_loop_eq)
    have asked: "planned_requests r = ?rs" by (simp add: planned_requests_def Some)
    show ?thesis
    proof (cases "snd ?b")
      case (Inl e)
      have "rt_tick lk now r = (on_disconnect e r, Inl e)"
        using Inl by (simp add: rt_tick_def \<open>tr_session r = Some s\<close> Some Let_def split_beta)
      moreover have "first_by_id {} ?rs \<noteq> []" "reply_of lk s = Inl e"
        using reply Inl by (cases "reply_of lk s"; simp split: if_splits)+
      ultimately show ?thesis
        using \<open>tr_session r = Some s\<close> Some asked
        by (simp add: on_disconnect_def Let_def reset_rates_def rate_reset_def)
    next
      case (Inr rsp)
      define ct where "ct = collect ctx rsp now (tr_collector r)"
      have "rt_tick lk now r =
          (r\<lparr>tr_session := Some (fst ?b), tr_collector := fst ct,
             tr_store := store_tick (tk_entities (snd ct)) (tk_descriptors (snd ct)) (tk_samples (snd ct))
               (ent_id (ctx_host ctx)) (tr_store r)\<rparr>, Inr (snd ct))"
        using Inr by (simp add: rt_tick_def \<open>tr_session r = Some s\<close> Some Let_def split_beta ct_def)
      moreover have "if first_by_id {} ?rs = [] then rsp = []
          else \<exists>out. reply_of lk s = Inr out \<and> rsp = decode (ss_framing s) (lk_lossy lk out)"
        using reply Inr by (cases "reply_of lk s") (auto split: if_splits)
      ultimately show ?thesis
        using \<open>tr_session r = Some s\<close> Some trips asked
        by (auto simp: ct_def round_trips_def intro!: exI [of _ rsp])
    qed
  qed
qed

section \<open>A command\<close>

text \<open>
  C17: a command the user typed, end to end: on an open session, against a host whose programs
  answer as \<open>run\<close> says and over a link that delivers what the shell prints in any number of
  pieces, the host's \<open>sh\<close> is given the text of the command as it was typed, whatever quotes,
  newlines or metacharacters it holds, wrapped in a group that redirects its errors; and the
  caller gets everything it printed and its exit status, a failing command's output included,
  for one round trip and with the runtime otherwise unchanged.
\<close>

theorem run_command_runs:
  assumes "tr_session r = Some s" "nonce_ok (ss_framing s)" "format_ok (ss_framing s)"
    and "quiet (ss_framing s) junk"
    and "\<forall>argv. snd (run argv) < 256 \<and> quiet (ss_framing s) (fst (run argv))"
    and "sh_run run (fst (encode (ss_framing s) [command_request command])) = Some out"
    and "delivers lk (ss_framing s) (junk @ out)"
  shows "rt_run_command lk elapsed command r =
    (r\<lparr>tr_session := Some (s\<lparr>ss_round_trips := ss_round_trips s + 1\<rparr>)\<rparr>,
     Inr \<lparr>out_output = fst (run [''sh'', ''-c'', ''{ '' @ command @ [nl] @ ''} 2>&1'']),
          out_exit_code = word_of_nat (snd (run [''sh'', ''-c'', ''{ '' @ command @ [nl] @ ''} 2>&1''])),
          out_elapsed_ms = elapsed\<rparr>)"
proof -
  let ?f = "ss_framing s" and ?r = "command_request command"
  have one: "first_by_id {} [?r] = [?r]" by (simp add: command_request_def)
  have "hm_get (decode ?f (junk @ out)) (request_id ?r) =
      Some \<lparr>exit_code = word_of_nat (snd (run (argv_of ?r))), rs_body = fst (run (argv_of ?r))\<rparr>"
    using batch_runs [OF assms(2,3,4,5), of "[?r]"] assms(6) one by auto
  moreover have "session_batch lk [?r] s =
      (s\<lparr>ss_round_trips := ss_round_trips s + 1\<rparr>, Inr (decode ?f (junk @ out)))"
    by (rule session_batch_delivers [OF assms(7)]) (use one in \<open>simp add: encode_def encode_loop_eq\<close>)
  ultimately show ?thesis
    by (simp add: rt_run_command_def assms(1) Let_def responses_get_def command_request_def)
qed

definition demo_session :: ssh_session where
  "demo_session = \<lparr>ss_spec = demo_spec, ss_framing = \<lparr>nonce = ''N''\<rparr>, ss_round_trips = 7\<rparr>"

definition ls_nope :: "string list \<Rightarrow> string \<times> nat" where
  "ls_nope argv =
     (if argv = [''sh'', ''-c'', ''{ ls /nope'' @ [nl] @ ''} 2>&1''] then (''no such file'', 2) else ([], 127))"

lemma show_nat_two: "show_nat 2 = ''2''"
  by code_simp

theorem run_command_runs_witness:
  "\<exists>out. snd (rt_run_command \<lparr>lk_lossy = id, lk_write = Written, lk_events = [Msg (Data (''motd'' @ out))]\<rparr> 5
      ''ls /nope'' ((runtime_new ''t1'' demo_spec [])\<lparr>tr_session := Some demo_session\<rparr>)) =
    Inr \<lparr>out_output = ''no such file'', out_exit_code = 2, out_elapsed_ms = 5\<rparr>"
proof -
  let ?f = "\<lparr>nonce = ''N''\<rparr>" and ?r = "command_request ''ls /nope''"
  let ?out = "emit ?f [host_frame ls_nope ?r]"
  let ?lk = "\<lparr>lk_lossy = id, lk_write = Written, lk_events = [Msg (Data (''motd'' @ ?out))]\<rparr>"
  have f: "nonce_ok ?f" "format_ok ?f" "quiet ?f ''motd''"
    by (simp_all add: nonce_ok_def format_ok_def format_plain_def quiet_def contains_def)
  have host: "\<forall>argv. snd (ls_nope argv) < 256 \<and> quiet ?f (fst (ls_nope argv))"
    by (simp add: ls_nope_def quiet_def contains_def)
  then have run: "sh_run ls_nope (fst (encode ?f [?r])) = Some ?out"
    by (subst sh_run_encode [OF f(2)]) (simp_all add: command_request_def)
  have "length (''motd'' @ ?out) \<le> max_batch_bytes"
    by (simp add: emit_def emit_frame_def host_frame_def ls_nope_def command_request_def frame_begin_def
        end_prefix_def terminator_def max_batch_bytes_def show_int_def request_id_def length_hex16 show_nat_two)
  moreover have "sublist (terminator ?f) (''motd'' @ ?out)"
    unfolding emit_def append_assoc [symmetric] by (rule sublist_append_leftI)
  moreover have "\<not> sublist (terminator ?f) []" by (simp add: terminator_def)
  ultimately have del: "delivers ?lk ?f (''motd'' @ ?out)"
    by (auto simp: delivers_def intro!: exI [of _ "[''motd'' @ ?out]"])
  let ?rt = "(runtime_new ''t1'' demo_spec [])\<lparr>tr_session := Some demo_session\<rparr>"
  have s: "tr_session ?rt = Some demo_session" "ss_framing demo_session = ?f"
    by (simp_all add: demo_session_def)
  have "fst (ls_nope [''sh'', ''-c'', ''{ '' @ ''ls /nope'' @ [nl] @ ''} 2>&1'']) = ''no such file''"
    "snd (ls_nope [''sh'', ''-c'', ''{ '' @ ''ls /nope'' @ [nl] @ ''} 2>&1'']) = 2"
    by (simp_all add: ls_nope_def)
  with run_command_runs [OF s(1), unfolded s(2), OF f host run del, of 5]
  show ?thesis by (intro exI [of _ ?out]) simp
qed

end
