(* ===== verification/View.thy ===== *)
theory View
  imports Runtime "HOL-Library.Product_Lexorder" "HOL-Library.Multiset"
begin

text \<open>
  What the interfaces are handed (\<open>crates/sg-ffi/src/view.rs\<close>): readings ready to draw, the headline
  grid and the detail groups of a host, its busiest processes, and how a value is written.
\<close>

section \<open>Records\<close>

record target_config =
  tc_host :: string
  tc_port :: u16
  tc_user :: string
  tc_auth_kind :: string
  tc_key_path :: "string option"
  tc_key_text :: "string option"
  tc_secret :: "string option"
  tc_host_key_policy :: string
  tc_known_hosts_path :: "string option"
  tc_refresh_ms :: u64

datatype connection_state =
  Idle
  | Connecting
  | Online
  | Reconnecting u32 u64
  | Failed string bool

fun connection_state_of :: "target_state \<Rightarrow> connection_state" where
  "connection_state_of target_state.Idle = Idle"
| "connection_state_of target_state.Connecting = Connecting"
| "connection_state_of target_state.Online = Online"
| "connection_state_of (target_state.Reconnecting attempt retry) = Reconnecting attempt retry"
| "connection_state_of (target_state.Failed message recoverable) = Failed message recoverable"

record metric_gauge =
  mg_series_id :: series_id
  mg_metric :: string
  mg_label :: string
  mg_value :: f64
  mg_max :: "f64 option"
  mg_unit_suffix :: string
  mg_binary_scaled :: bool
  mg_history :: "f64 list"
  mg_severity :: string

record detail_group =
  dg_title :: string
  dg_gauges :: "metric_gauge list"

record process_view =
  pv_pid :: string
  pv_command :: string
  pv_cpu_percent :: f64
  pv_memory_bytes :: f64
  pv_state :: string
  pv_machine_fraction :: f64
  pv_severity :: string

record entity_view =
  ev_id :: string
  ev_kind :: string
  ev_display :: string
  ev_parent :: "string option"
  ev_gauges :: "metric_gauge list"

section \<open>Reaching a host\<close>

definition nonempty :: "string option \<Rightarrow> string option" where
  "nonempty s = (case s of Some t \<Rightarrow> if t = [] then None else Some t | None \<Rightarrow> None)"

definition or_empty :: "string option \<Rightarrow> string" where
  "or_empty s = (case s of Some t \<Rightarrow> t | None \<Rightarrow> [])"

definition auth_of :: "target_config \<Rightarrow> auth" where
  "auth_of config =
     (if tc_auth_kind config = ''key'' then
        KeyFile (or_empty (tc_key_path config)) (nonempty (tc_secret config))
      else if tc_auth_kind config = ''key_text'' then
        KeyText (or_empty (tc_key_text config)) (nonempty (tc_secret config))
      else if tc_auth_kind config = ''password'' then Password (or_empty (tc_secret config))
      else Agent)"

definition policy_of :: "target_config \<Rightarrow> host_key_policy" where
  "policy_of config =
     (if tc_host_key_policy config = ''accept_new'' then AcceptNew
      else if tc_host_key_policy config = ''accept_any'' then AcceptAny
      else Strict)"

definition connection_spec_of :: "target_config \<Rightarrow> connection_spec" where
  "connection_spec_of config =
     (let spec = (connection_spec_new (tc_host config) (tc_user config))
            \<lparr>cs_port := (if tc_port config = 0 then 22 else tc_port config),
             cs_auth := auth_of config, cs_policy := policy_of config\<rparr>
      in case nonempty (tc_known_hosts_path config) of
           Some path \<Rightarrow> spec\<lparr>cs_known_hosts := Some path\<rparr>
         | None \<Rightarrow> spec)"

section \<open>One reading\<close>

definition level_of :: "f64 \<Rightarrow> f64 \<Rightarrow> f64 \<Rightarrow> string" where
  "level_of fraction warn bad =
     (if f_le bad fraction then ''problem'' else if f_le warn fraction then ''busy'' else ''ok'')"

definition positive :: "f64 option \<Rightarrow> f64 option" where
  "positive m = (case m of Some x \<Rightarrow> if f_lt (f_of_nat 0) x then Some x else None | None \<Rightarrow> None)"

definition severity_of :: "munit \<Rightarrow> f64 \<Rightarrow> f64 option \<Rightarrow> string" where
  "severity_of u v m =
     (if u = Celsius then
        (case positive m of
           Some critical \<Rightarrow> level_of (f_div v critical) (f_lit 85 100) (f_lit 95 100)
         | None \<Rightarrow> level_of v (f_of_nat 80) (f_of_nat 90))
      else
        (case positive m of
           Some limit \<Rightarrow>
             level_of (f_clamp (f_div v limit) (f_of_nat 0) (f_of_nat 1)) (f_lit 60 100) (f_lit 85 100)
         | None \<Rightarrow> ''none''))"

definition gauge_from :: "series_descriptor \<Rightarrow> live_store \<Rightarrow> metric_gauge option" where
  "gauge_from descriptor store =
     (if ser_kind descriptor = Info then None
      else
        (case latest store (ser_id descriptor) of
           None \<Rightarrow> None
         | Some p \<Rightarrow>
             (let u = effective_unit descriptor
              in Some \<lparr>mg_series_id = ser_id descriptor, mg_metric = ser_metric descriptor,
                       mg_label = ser_display descriptor, mg_value = pt_value p,
                       mg_max = display_max descriptor, mg_unit_suffix = unit_suffix u,
                       mg_binary_scaled = is_binary_scaled u,
                       mg_history = map pt_value (history_vec store (ser_id descriptor)),
                       mg_severity = severity_of u (pt_value p) (display_max descriptor)\<rparr>)))"

section \<open>The host's page\<close>

definition headline :: "string list" where
  "headline = [''cpu_usage'', ''mem_usage'', ''disk_usage'', ''swap_usage'', ''cpu_temp'', ''load1'',
     ''net_rx'', ''net_tx'', ''uptime'']"

definition detail_order :: "string list" where
  "detail_order =
     [''cpu_user'', ''cpu_system'', ''cpu_iowait'', ''cpu_steal'', ''ctx_switches'', ''procs_running'',
      ''procs_blocked'', ''mem_total'', ''mem_used'', ''mem_available'', ''mem_free'', ''mem_cached'',
      ''mem_buffers'', ''swap_total'', ''swap_used'', ''load1'', ''load5'', ''load15'', ''procs_total'',
      ''uptime'', ''cpu_temp'', ''disk_read'', ''disk_write'', ''net_rx'', ''net_tx'', ''sockets'',
      ''tcp_established'', ''tcp_inuse'', ''tcp_timewait'', ''tcp_orphan'', ''udp_inuse'',
      ''tcp_in_segs'', ''tcp_out_segs'', ''tcp_retrans'', ''tcp_active_opens'', ''tcp_passive_opens'']"

definition group_title :: "source_id \<Rightarrow> string option" where
  "group_title source =
     (if source = ''proc.cpu'' then Some ''CPU''
      else if source = ''proc.memory'' then Some ''Memory''
      else if source = ''proc.load'' then Some ''Load & processes''
      else if source = ''proc.diskio'' then Some ''Disk I/O''
      else if source = ''proc.network'' then Some ''Network totals''
      else if source = ''proc.tcp'' then Some ''Sockets & TCP''
      else if source = ''sys.sensors'' then None
      else if source = ''proc.filesystem'' then None
      else Some ''Other'')"

text \<open>\<open>position\<close>, with what \<open>unwrap_or\<close> gives for an absent element.\<close>

definition position_or :: "nat \<Rightarrow> 'a \<Rightarrow> 'a list \<Rightarrow> nat" where
  "position_or other x xs = (if x \<in> set xs then length (takeWhile (\<lambda>y. y \<noteq> x) xs) else other)"

definition detail_rank :: "string \<Rightarrow> nat" where
  "detail_rank metric = position_or (length detail_order) metric detail_order"

definition usize_max :: nat where
  "usize_max = 2 ^ 64 - 1"

definition host_gauges :: "live_store \<Rightarrow> entity_id \<Rightarrow> metric_gauge list" where
  "host_gauges store host =
     sort_key (\<lambda>g. position_or usize_max (mg_metric g) headline)
       (List.map_filter (\<lambda>d. gauge_from d store)
         (filter (\<lambda>d. ser_metric d \<in> set headline) (series_for store host)))"

text \<open>Into the group with that title, or into a new one at the end.\<close>

fun add_to_group :: "string \<Rightarrow> metric_gauge \<Rightarrow> detail_group list \<Rightarrow> detail_group list" where
  "add_to_group title g [] = [\<lparr>dg_title = title, dg_gauges = [g]\<rparr>]"
| "add_to_group title g (d # ds) =
     (if dg_title d = title then d\<lparr>dg_gauges := dg_gauges d @ [g]\<rparr> # ds
      else d # add_to_group title g ds)"

fun group_loop :: "live_store \<Rightarrow> series_descriptor list \<Rightarrow> detail_group list \<Rightarrow> detail_group list" where
  "group_loop store [] groups = groups"
| "group_loop store (d # ds) groups =
     (if ser_metric d \<in> set headline then group_loop store ds groups
      else
        (case group_title (ser_source d) of
           None \<Rightarrow> group_loop store ds groups
         | Some title \<Rightarrow>
             (case gauge_from d store of
                None \<Rightarrow> group_loop store ds groups
              | Some g \<Rightarrow> group_loop store ds (add_to_group title g groups))))"

definition sort_group :: "detail_group \<Rightarrow> detail_group" where
  "sort_group g = g\<lparr>dg_gauges := sort_key (\<lambda>x. (detail_rank (mg_metric x), mg_metric x)) (dg_gauges g)\<rparr>"

definition group_rank :: "detail_group \<Rightarrow> nat" where
  "group_rank g = (case dg_gauges g of x # _ \<Rightarrow> detail_rank (mg_metric x) | [] \<Rightarrow> usize_max)"

definition host_details :: "live_store \<Rightarrow> entity_id \<Rightarrow> detail_group list" where
  "host_details store host =
     sort_key group_rank (map sort_group (group_loop store (series_for store host) []))"

definition entity_view_of :: "entity \<Rightarrow> live_store \<Rightarrow> entity_view" where
  "entity_view_of e store =
     \<lparr>ev_id = ent_id e, ev_kind = slug (ent_kind e), ev_display = ent_display e,
      ev_parent = ent_parent e,
      ev_gauges = List.map_filter (\<lambda>d. gauge_from d store) (series_for store (ent_id e))\<rparr>"

section \<open>The busiest processes\<close>

text \<open>\<open>sort_by\<close> with a comparison that answers a sign: stable.\<close>

fun insert_by :: "('a \<Rightarrow> 'a \<Rightarrow> int) \<Rightarrow> 'a \<Rightarrow> 'a list \<Rightarrow> 'a list" where
  "insert_by compare x [] = [x]"
| "insert_by compare x (y # ys) =
     (if compare x y \<le> 0 then x # y # ys else y # insert_by compare x ys)"

definition sort_by :: "('a \<Rightarrow> 'a \<Rightarrow> int) \<Rightarrow> 'a list \<Rightarrow> 'a list" where
  "sort_by compare xs = foldr (insert_by compare) xs []"

definition cmp_or_equal :: "f64 \<Rightarrow> f64 \<Rightarrow> int" where
  "cmp_or_equal x y = (case f_cmp x y of Some c \<Rightarrow> c | None \<Rightarrow> 0)"

definition busier :: "process_view \<Rightarrow> process_view \<Rightarrow> int" where
  "busier a b =
     (let c = cmp_or_equal (pv_cpu_percent b) (pv_cpu_percent a)
      in if c = 0 then cmp_or_equal (pv_memory_bytes b) (pv_memory_bytes a) else c)"

definition value_of :: "live_store \<Rightarrow> entity_id \<Rightarrow> string \<Rightarrow> f64" where
  "value_of store entity metric =
     (case find (\<lambda>d. ser_metric d = metric) (series_for store entity) of
        None \<Rightarrow> f_of_nat 0
      | Some d \<Rightarrow> (case latest store (ser_id d) of Some p \<Rightarrow> pt_value p | None \<Rightarrow> f_of_nat 0))"

definition process_view_of :: "live_store \<Rightarrow> f64 \<Rightarrow> entity \<Rightarrow> process_view" where
  "process_view_of store machine e =
     (let cpu = value_of store (ent_id e) ''cpu''
      in \<lparr>pv_pid = ent_display e,
          pv_command = (case map_of (ent_labels e) ''command'' of Some c \<Rightarrow> c | None \<Rightarrow> ent_display e),
          pv_cpu_percent = cpu, pv_memory_bytes = value_of store (ent_id e) ''rss'',
          pv_state = (case map_of (ent_labels e) ''state'' of Some s \<Rightarrow> s | None \<Rightarrow> []),
          pv_machine_fraction = f_clamp (f_div cpu machine) (f_of_nat 0) (f_of_nat 1),
          pv_severity = severity_of Percent (f_mul (f_div cpu machine) (f_of_nat 100)) (Some (f_of_nat 100))\<rparr>)"

definition top_processes :: "live_store \<Rightarrow> entity_id \<Rightarrow> nat \<Rightarrow> u32 \<Rightarrow> process_view list" where
  "top_processes store host limit cpu_count =
     (let machine = f_mul (f_of_nat (unat (max cpu_count 1))) (f_of_nat 100)
      in take limit
           (sort_by busier
             (map (process_view_of store machine)
               (filter (\<lambda>e. ent_kind e = Process) (children_of store host)))))"

section \<open>How a value is written\<close>

definition unit_prefixes :: "string list" where
  "unit_prefixes = [[], ''Ki'', ''Mi'', ''Gi'', ''Ti'', ''Pi'']"

text \<open>The loop that divides by 1024; the first argument is how many prefixes are left.\<close>

fun scale_down :: "nat \<Rightarrow> nat \<Rightarrow> f64 \<Rightarrow> nat \<times> f64" where
  "scale_down 0 index scaled = (index, scaled)"
| "scale_down (Suc n) index scaled =
     (if f_le (f_of_nat 1024) scaled then scale_down n (Suc index) (f_div scaled (f_of_nat 1024))
      else (index, scaled))"

definition format_value :: "f64 \<Rightarrow> string \<Rightarrow> bool \<Rightarrow> string" where
  "format_value v unit_text binary_scaled =
     (if binary_scaled then
        (let (index, scaled) = scale_down (length unit_prefixes - 1) 0 (f_abs v);
             signed = (if f_lt v (f_of_nat 0) then f_neg scaled else scaled);
             digits = (if index = 0 then 0 else 1);
             rest = (case strip_prefix ''B'' unit_text of Some t \<Rightarrow> t | None \<Rightarrow> [])
         in fmt_f64 digits signed @ '' '' @ unit_prefixes ! index @ ''B'' @ rest)
      else if unit_text = ''%'' then fmt_f64 1 v @ ''%''
      else if f_le (f_of_nat 1000) (f_abs v) \<or> f_eq (f_fract v) (f_of_nat 0) then
        trim_end (fmt_f64 0 v @ '' '' @ unit_text)
      else trim_end (fmt_f64 2 v @ '' '' @ unit_text))"

text \<open>Days, hours and minutes of a whole number of seconds.\<close>

definition format_uptime :: "f64 \<Rightarrow> string" where
  "format_uptime seconds =
     (let all = unat (f_as_u64 (f_max seconds (f_of_nat 0)));
          days = all div 86400; hours = all mod 86400 div 3600; minutes = all mod 3600 div 60
      in if days = 0 \<and> hours = 0 then show_nat minutes @ ''m''
         else if days = 0 then show_nat hours @ ''h '' @ show_nat minutes @ ''m''
         else show_nat days @ ''d '' @ show_nat hours @ ''h'')"

definition noise_floor :: f64 where
  "noise_floor = f_lit 5 100"

definition f64_max :: f64 where "f64_max = Fin False (2 ^ 53 - 1) 971"
definition f64_min :: f64 where "f64_min = Fin True (2 ^ 53 - 1) 971"

definition sparkline_points :: "f64 list \<Rightarrow> f64 list" where
  "sparkline_points history =
     (if history = [] then []
      else
        (let highest = fold (\<lambda>x acc. f_max acc x) history f64_min;
             lowest = fold (\<lambda>x acc. f_min acc x) history f64_max;
             magnitude = f_max (f_abs highest) (f_abs lowest);
             span = f_max (f_sub highest lowest) (f_mul magnitude noise_floor)
         in map (\<lambda>v. if f_lt (f_of_nat 0) span
                    then f_clamp (f_div (f_sub v lowest) span) (f_of_nat 0) (f_of_nat 1)
                    else f_lit 1 2) history))"

section \<open>What the page shows\<close>

lemma sort_key_eq_Nil [simp]: "sort_key f xs = [] \<longleftrightarrow> xs = []"
  by (metis length_0_conv length_sort)

lemma add_to_group_mset:
  "mset (concat (map dg_gauges (add_to_group t g ds))) = add_mset g (mset (concat (map dg_gauges ds)))"
  by (induction ds) simp_all

lemma add_to_group_titles: "dg_title ` set (add_to_group t g ds) = insert t (dg_title ` set ds)"
  by (induction ds) auto

lemma add_to_group_distinct: "distinct (map dg_title ds) \<Longrightarrow> distinct (map dg_title (add_to_group t g ds))"
  by (induction ds) (auto simp: add_to_group_titles)

text \<open>Every group is one a collector's title names, and holds readings of that collector's series.\<close>

definition group_of :: "live_store \<Rightarrow> series_descriptor list \<Rightarrow> detail_group \<Rightarrow> bool" where
  "group_of store ds g \<longleftrightarrow> dg_gauges g \<noteq> []
     \<and> (\<forall>x \<in> set (dg_gauges g). \<exists>d \<in> set ds. group_title (ser_source d) = Some (dg_title g)
          \<and> gauge_from d store = Some x)"

lemma add_to_group_of:
  assumes "\<forall>d \<in> set ds. group_of store all d" "e \<in> set all" "group_title (ser_source e) = Some t"
    "gauge_from e store = Some g"
  shows "\<forall>d \<in> set (add_to_group t g ds). group_of store all d"
  using assms(1)
proof (induction ds)
  case Nil
  then show ?case using assms(2-4) by (auto simp: group_of_def)
next
  case (Cons d ds)
  have "group_of store all (d\<lparr>dg_gauges := dg_gauges d @ [g]\<rparr>)" if "dg_title d = t"
    using Cons.prems assms(2-4) that by (auto simp: group_of_def)
  with Cons show ?case by auto
qed

text \<open>The series the loop turns into readings of a detail group.\<close>

definition detailed :: "series_descriptor \<Rightarrow> bool" where
  "detailed d \<longleftrightarrow> ser_metric d \<notin> set headline \<and> group_title (ser_source d) \<noteq> None"

lemma group_loop_spec:
  assumes "\<forall>g \<in> set groups. group_of store all g" "distinct (map dg_title groups)" "set ds \<subseteq> set all"
  shows "mset (concat (map dg_gauges (group_loop store ds groups))) =
           mset (concat (map dg_gauges groups))
           + mset (List.map_filter (\<lambda>d. gauge_from d store) (filter detailed ds))
         \<and> distinct (map dg_title (group_loop store ds groups))
         \<and> (\<forall>g \<in> set (group_loop store ds groups). group_of store all g)"
  using assms
proof (induction ds arbitrary: groups)
  case (Cons d ds)
  show ?case
  proof (cases "detailed d")
    case True
    then obtain t where t: "ser_metric d \<notin> set headline" "group_title (ser_source d) = Some t"
      by (auto simp: detailed_def)
    show ?thesis
    proof (cases "gauge_from d store")
      case None
      with Cons t True show ?thesis by (simp add: List.map_filter_simps)
    next
      case (Some g)
      have "d \<in> set all" using Cons.prems(3) by simp
      from add_to_group_of [OF Cons.prems(1) this t(2) Some]
      have "\<forall>x \<in> set (add_to_group t g groups). group_of store all x" .
      from Cons.IH [OF this add_to_group_distinct [OF Cons.prems(2)]] Cons.prems(3) show ?thesis
        using t Some True by (simp add: add_to_group_mset List.map_filter_simps)
    qed
  next
    case False
    with Cons show ?thesis by (auto simp: detailed_def List.map_filter_simps split: option.split)
  qed
qed simp

text \<open>
  C28: the host's page loses nothing and repeats nothing: the headline grid and the detail groups
  together hold exactly the readings of the host's series, apart from the series shown on cards of
  their own; the headline is a choice of nine metrics in a fixed order, the groups have different
  titles and are never empty, each holds readings of the collector its title names, in the fixed
  order of the detail metrics.
\<close>

theorem host_page_complete:
  "let ds = series_for store host; grid = host_gauges store host; details = host_details store host
   in mset grid + mset (concat (map dg_gauges details)) =
        mset (List.map_filter (\<lambda>d. gauge_from d store)
          (filter (\<lambda>d. \<not> (ser_metric d \<notin> set headline \<and> group_title (ser_source d) = None)) ds))
      \<and> set (map mg_metric grid) \<subseteq> set headline
      \<and> sorted (map (\<lambda>g. position_or usize_max (mg_metric g) headline) grid)
      \<and> distinct (map dg_title details) \<and> sorted (map group_rank details)
      \<and> list_all (\<lambda>g. group_of store ds g
           \<and> sorted (map (\<lambda>x. (detail_rank (mg_metric x), mg_metric x)) (dg_gauges g))) details"
proof -
  let ?ds = "series_for store host" and ?gauge = "\<lambda>d. gauge_from d store"
  let ?loop = "group_loop store ?ds []"
  have loop: "mset (concat (map dg_gauges ?loop)) = mset (List.map_filter ?gauge (filter detailed ?ds))"
    "distinct (map dg_title ?loop)" "\<forall>g \<in> set ?loop. group_of store ?ds g"
    using group_loop_spec [of "[]" store ?ds ?ds] by simp_all
  have flat: "mset (concat (map dg_gauges (sort_key group_rank gs))) = mset (concat (map dg_gauges gs))" for gs
    by (simp add: mset_concat flip: sum_mset_sum_list)
  have "mset (concat (map dg_gauges (map sort_group gs))) = mset (concat (map dg_gauges gs))" for gs
    by (induction gs) (simp_all add: sort_group_def)
  then have details: "mset (concat (map dg_gauges (host_details store host)))
      = mset (List.map_filter ?gauge (filter detailed ?ds))"
    unfolding host_details_def flat loop(1) [symmetric] .
  have split: "mset (List.map_filter ?gauge (filter (\<lambda>d. ser_metric d \<in> set headline) xs))
      + mset (List.map_filter ?gauge (filter detailed xs))
      = mset (List.map_filter ?gauge
          (filter (\<lambda>d. ser_metric d \<in> set headline \<or> group_title (ser_source d) \<noteq> None) xs))" for xs
    by (induction xs) (auto simp: detailed_def List.map_filter_simps split: option.split)
  have titles: "dg_title (sort_group g) = dg_title g" for g by (simp add: sort_group_def)
  have "mset (map dg_title (host_details store host)) = mset (map dg_title ?loop)"
    unfolding host_details_def by (simp add: titles image_mset.compositionality o_def)
  then have "distinct (map dg_title (host_details store host))"
    using loop(2) by (metis mset_eq_imp_distinct_iff)
  moreover have "group_of store ?ds g
      \<and> sorted (map (\<lambda>x. (detail_rank (mg_metric x), mg_metric x)) (dg_gauges g))"
    if "g \<in> set (host_details store host)" for g
  proof -
    from that obtain g' where g': "g' \<in> set ?loop" "g = sort_group g'" by (auto simp: host_details_def)
    with loop(3) show ?thesis by (auto simp: group_of_def sort_group_def)
  qed
  moreover have "set (map mg_metric (host_gauges store host)) \<subseteq> set headline"
    by (auto simp: host_gauges_def List.map_filter_def gauge_from_def Let_def split: if_splits option.splits)
  moreover have "mset (host_gauges store host)
      = mset (List.map_filter ?gauge (filter (\<lambda>d. ser_metric d \<in> set headline) ?ds))"
    by (simp add: host_gauges_def)
  ultimately show ?thesis
    unfolding Let_def list_all_iff details
    using split [of ?ds] by (simp add: host_gauges_def host_details_def)
qed

section \<open>The sparkline\<close>

text \<open>A reading that is a number: finite, of either sign.\<close>

definition measured :: "f64 \<Rightarrow> bool" where
  "measured v \<longleftrightarrow> f64_valid v \<and> is_finite v"

lemma measuredE:
  assumes "measured v"
  obtains s m e where "v = Fin s m e" "m < 2 ^ 53" "-1074 \<le> e" "e \<le> 971"
  using assms by (cases v) (auto simp: measured_def)

lemma measured_float: "measured v \<Longrightarrow> float_real \<bar>fval v\<bar>"
  unfolding float_real_def by (elim measuredE, rule_tac x = m in exI, rule_tac x = e in exI) (simp add: abs_mult)

lemma measured_abs: "measured v \<Longrightarrow> measured (f_abs v) \<and> fval (f_abs v) = \<bar>fval v\<bar>"
  by (cases v) (simp_all add: measured_def abs_mult)

lemma f_max_measured:
  "measured x \<Longrightarrow> measured y \<Longrightarrow> measured (f_max x y) \<and> fval (f_max x y) = max (fval x) (fval y)"
  by (cases x; cases y) (auto simp: measured_def f_max_def float_simps simp del: fval.simps)

lemma f_min_measured:
  "measured x \<Longrightarrow> measured y \<Longrightarrow> measured (f_min x y) \<and> fval (f_min x y) = min (fval x) (fval y)"
  by (cases x; cases y) (auto simp: measured_def f_min_def float_simps simp del: fval.simps)

lemma fold_max_measured:
  "\<forall>v \<in> set vs. measured v \<Longrightarrow> measured a \<Longrightarrow>
     measured (fold (\<lambda>x acc. f_max acc x) vs a)
     \<and> (\<forall>v \<in> set (a # vs). fval v \<le> fval (fold (\<lambda>x acc. f_max acc x) vs a))
     \<and> (\<exists>v \<in> set (a # vs). fval (fold (\<lambda>x acc. f_max acc x) vs a) = fval v)"
proof (induction vs arbitrary: a)
  case (Cons v vs)
  then have m: "measured (f_max a v)" "fval (f_max a v) = max (fval a) (fval v)"
    using f_max_measured by simp_all
  with Cons.IH [OF _ m(1)] Cons.prems(1) show ?case by (auto simp: max_def simp del: fval.simps split: if_splits)
qed simp

lemma fold_min_measured:
  "\<forall>v \<in> set vs. measured v \<Longrightarrow> measured a \<Longrightarrow>
     measured (fold (\<lambda>x acc. f_min acc x) vs a)
     \<and> (\<forall>v \<in> set (a # vs). fval (fold (\<lambda>x acc. f_min acc x) vs a) \<le> fval v)
     \<and> (\<exists>v \<in> set (a # vs). fval (fold (\<lambda>x acc. f_min acc x) vs a) = fval v)"
proof (induction vs arbitrary: a)
  case (Cons v vs)
  then have m: "measured (f_min a v)" "fval (f_min a v) = min (fval a) (fval v)"
    using f_min_measured by simp_all
  with Cons.IH [OF _ m(1)] Cons.prems(1) show ?case by (auto simp: min_def simp del: fval.simps split: if_splits)
qed simp

lemma measured_le_max: "measured v \<Longrightarrow> \<bar>fval v\<bar> \<le> fval f64_max"
proof -
  assume "measured v"
  then obtain s m e where v: "v = Fin s m e" "m < 2 ^ 53" "e \<le> 971" by (elim measuredE)
  have "real m * 2 powr real_of_int e \<le> real (2 ^ 53 - 1) * 2 powr real_of_int 971"
    by (intro mult_mono p2_mono) (use v in \<open>simp_all del: of_nat_diff\<close>)
  then show ?thesis unfolding v f64_max_def by (simp add: abs_mult)
qed

text \<open>The highest and the lowest reading are readings of the history.\<close>

lemma extremes:
  assumes "\<forall>v \<in> set history. measured v" "history \<noteq> []"
  shows "\<exists>v \<in> set history. fval (fold (\<lambda>x acc. f_max acc x) history f64_min) = fval v"
    and "\<exists>v \<in> set history. fval (fold (\<lambda>x acc. f_min acc x) history f64_max) = fval v"
proof -
  have ends: "measured f64_min" "measured f64_max" "fval f64_min = - fval f64_max"
    by (simp_all add: measured_def f64_min_def f64_max_def)
  obtain x where x: "x \<in> set history" using assms(2) by (cases history) auto
  have range: "fval f64_min \<le> fval x" "fval x \<le> fval f64_max"
    using measured_le_max [of x] assms(1) x ends(3) by auto
  show "\<exists>v \<in> set history. fval (fold (\<lambda>x acc. f_max acc x) history f64_min) = fval v"
    using fold_max_measured [OF assms(1) ends(1)] range(1) x by (auto simp del: fval.simps) (metis order_antisym)
  show "\<exists>v \<in> set history. fval (fold (\<lambda>x acc. f_min acc x) history f64_max) = fval v"
    using fold_min_measured [OF assms(1) ends(2)] range(2) x by (auto simp del: fval.simps) (metis order_antisym)
qed

text \<open>A value between 0 and a bound; zero may have either sign.\<close>

definition f_within :: "real \<Rightarrow> f64 \<Rightarrow> bool" where
  "f_within c x \<longleftrightarrow> is_finite x \<and> 0 \<le> fval x \<and> fval x \<le> c"

lemma f_upto_within: "f_upto c x \<Longrightarrow> f_within c x"
  by (auto simp: f_within_def elim: f_uptoE)

lemma f_within_signed:
  assumes "f_within c (Fin s m e)"
  shows "s \<Longrightarrow> m = 0"
proof -
  assume s
  then have "real m * 2 powr real_of_int e \<le> 0" using assms by (simp add: f_within_def)
  then show "m = 0" by (simp add: mult_le_0_iff)
qed

text \<open>A difference and a product are their exact values, rounded.\<close>

lemma f_sub_rounds:
  assumes "measured v" "measured l" "fval l \<le> fval v"
  shows "fval v = fval l \<and> (\<exists>s. f_sub v l = Fin s 0 (-1074))
    \<or> (\<exists>n d. 0 < n \<and> 0 < d \<and> f_sub v l = rnd False n d \<and> real n / real d = fval v - fval l)"
proof -
  obtain s m e t k f where v: "v = Fin s m e" and l: "l = Fin t k f"
    using assms(1,2) by (elim measuredE)
  define e0 where "e0 = min e f"
  define d where "d = units s m e e0 + units (\<not> t) k f e0"
  have "real_of_int d = fval v / 2 powr e0 + fval (Fin (\<not> t) k f) / 2 powr e0"
    unfolding d_def of_int_add v
    by (rule arg_cong2 [of _ _ _ _ "(+)"]; rule units_real) (simp_all add: e0_def)
  also have "\<dots> = (fval v - fval l) / 2 powr e0" by (simp add: l diff_divide_distrib)
  finally have d: "real_of_int d = (fval v - fval l) / 2 powr e0" .
  have sub: "f_sub v l = (if d = 0 then Fin (s \<and> \<not> t) 0 (-1074) else rnd_exp (d < 0) (nat \<bar>d\<bar>) 1 e0)"
    by (simp add: f_sub_def v l d_def e0_def Let_def)
  have "0 \<le> real_of_int d" using assms(3) by (simp add: d del: fval.simps)
  then have pos: "0 \<le> d" by simp
  show ?thesis
  proof (cases "d = 0")
    case True
    then have "fval v = fval l" using d by simp
    then show ?thesis using True sub by auto
  next
    case False
    obtain n' d' where r: "0 < d'" "\<And>t. rnd_exp t (nat \<bar>d\<bar>) 1 e0 = rnd t n' d'"
      "real n' / real d' = real (nat \<bar>d\<bar>) / real 1 * 2 powr real_of_int e0"
      by (rule rnd_exp_rnd [of 1 "nat \<bar>d\<bar>" e0]) simp_all
    have "real n' / real d' = fval v - fval l" using pos by (simp add: r(3) d of_nat_nat del: fval.simps)
    moreover have "0 < n'" using False pos r(1,3) by (cases "n' = 0") simp_all
    moreover have "f_sub v l = rnd False n' d'" using False pos sub r(2) by simp
    ultimately show ?thesis using r(1) by blast
  qed
qed

lemma f_mul_rounds:
  assumes "f_within a x" "f_within b y"
  shows "fval x * fval y = 0 \<and> fval (f_mul x y) = 0 \<and> is_finite (f_mul x y)
    \<or> (\<exists>n d. 0 < n \<and> 0 < d \<and> f_mul x y = rnd False n d \<and> real n / real d = fval x * fval y)"
proof -
  obtain s m e t k f where xy: "x = Fin s m e" "y = Fin t k f"
    using assms by (cases x; cases y) (auto simp: f_within_def)
  show ?thesis
  proof (cases "m * k = 0")
    case True
    then show ?thesis by (auto simp: xy rnd_exp_def rnd_def)
  next
    case False
    then have sign: "\<not> s" "\<not> t" using f_within_signed [of a s m e] f_within_signed [of b t k f] assms unfolding xy by auto
    obtain n' d' where r: "0 < d'" "\<And>t. rnd_exp t (m * k) 1 (e + f) = rnd t n' d'"
      "real n' / real d' = real (m * k) / real 1 * 2 powr real_of_int (e + f)"
      by (rule rnd_exp_rnd [of 1 "m * k" "e + f"]) simp_all
    moreover have "0 < n'" using False r(1,3) by (cases "n' = 0") simp_all
    moreover have "real (m * k) / real 1 * 2 powr real_of_int (e + f) = fval x * fval y"
      using sign by (simp add: xy powr_add)
    moreover have "f_mul x y = rnd False n' d'" using sign r(2) by (simp add: xy)
    ultimately show ?thesis by metis
  qed
qed

lemma rnd_within: "0 < d \<Longrightarrow> float_real c \<Longrightarrow> real n / real d \<le> c \<Longrightarrow> f_within c (rnd False n d)"
  by (rule f_upto_within [OF rnd_upto])

lemma float_real_nonneg: "float_real c \<Longrightarrow> 0 \<le> c"
  by (auto simp: float_real_def)

lemma f_sub_within:
  assumes "measured v" "measured l" "fval l \<le> fval v" "float_real c" "fval v - fval l \<le> c"
  shows "f_within c (f_sub v l)"
  using f_sub_rounds [OF assms(1-3)] rnd_within [OF _ assms(4)] assms(5) float_real_nonneg [OF assms(4)]
  by (elim disjE exE conjE) (simp_all add: f_within_def)

lemma rnd_le:
  assumes "0 < n" "0 < d" "0 < n'" "0 < d'" "real n / real d \<le> real n' / real d'"
    and "is_finite (rnd False n d)" "is_finite (rnd False n' d')"
  shows "fval (rnd False n d) \<le> fval (rnd False n' d')"
  using rval_mono [OF assms(1-5)] rnd_fval [OF assms(1,2,6)] rnd_fval [OF assms(3,4,7)] by simp

lemma f_sub_mono:
  assumes "measured v" "measured l" "fval l \<le> fval v" "measured w" "measured u" "fval u \<le> fval w"
    and "fval v - fval l \<le> fval w - fval u" "f_within a (f_sub v l)" "f_within b (f_sub w u)"
  shows "fval (f_sub v l) \<le> fval (f_sub w u)"
  using f_sub_rounds [OF assms(1-3)]
proof (elim disjE conjE exE)
  fix n d assume n: "0 < n" "0 < d" "f_sub v l = rnd False n d" "real n / real d = fval v - fval l"
  from n(1,2) have "0 < real n / real d" by simp
  then have "fval w \<noteq> fval u" using n(4) assms(7) by linarith
  then obtain n' d' where n': "0 < n'" "0 < d'" "f_sub w u = rnd False n' d'" "real n' / real d' = fval w - fval u"
    using f_sub_rounds [OF assms(4-6)] by blast
  with n assms(7-9) show ?thesis
    unfolding n(3) n'(3) f_within_def by (intro rnd_le) simp_all
qed (use assms(9) in \<open>simp add: f_within_def\<close>)

lemma f_mul_below_sub:
  assumes "f_within a x" "f_within b y" "measured w" "measured u" "fval u \<le> fval w"
    and "fval x * fval y \<le> fval w - fval u" "f_within a' (f_mul x y)" "f_within b' (f_sub w u)"
  shows "fval (f_mul x y) \<le> fval (f_sub w u)"
  using f_mul_rounds [OF assms(1,2)]
proof (elim disjE conjE exE)
  fix n d assume n: "0 < n" "0 < d" "f_mul x y = rnd False n d" "real n / real d = fval x * fval y"
  from n(1,2) have "0 < real n / real d" by simp
  then have "fval w \<noteq> fval u" using n(4) assms(6) by linarith
  then obtain n' d' where n': "0 < n'" "0 < d'" "f_sub w u = rnd False n' d'" "real n' / real d' = fval w - fval u"
    using f_sub_rounds [OF assms(3-5)] by blast
  with n assms(6-8) show ?thesis
    unfolding n(3) n'(3) f_within_def by (intro rnd_le) simp_all
qed (use assms(8) in \<open>simp add: f_within_def\<close>)

lemma f_mul_least:
  assumes "f_within a x" "f_within b y" "float_real c" "0 < c" "c \<le> fval x * fval y" "f_within a' (f_mul x y)"
  shows "c \<le> fval (f_mul x y)"
  using f_mul_rounds [OF assms(1,2)] rnd_ge [OF _ assms(3,4)] assms(4-6)
  by (elim disjE conjE exE) (simp_all add: f_within_def)

lemma f_sub_least:
  assumes "measured v" "measured l" "fval l \<le> fval v" "float_real c" "0 < c" "c \<le> fval v - fval l"
    and "f_within a (f_sub v l)"
  shows "c \<le> fval (f_sub v l)"
  using f_sub_rounds [OF assms(1-3)] rnd_ge [OF _ assms(4,5)] assms(5-7)
  by (elim disjE conjE exE) (simp_all add: f_within_def)

lemma f_div_within:
  assumes "f_within a x" "f_within b y" "0 < fval y" "float_real c" "fval x \<le> c * fval y"
  shows "f_within c (f_div x y)"
proof -
  obtain s m e t k f where xy: "x = Fin s m e" "y = Fin t k f"
    using assms(1,2) by (cases x; cases y) (auto simp: f_within_def)
  have k: "k \<noteq> 0" using assms(3) by (cases "k = 0") (simp_all add: xy)
  then have t: "\<not> t" using f_within_signed [of b t k f] assms(2) xy by auto
  show ?thesis
  proof (cases "m = 0")
    case True
    then show ?thesis
      using k float_real_nonneg [OF assms(4)] by (simp add: xy rnd_exp_def rnd_def f_within_def)
  next
    case False
    then have "\<not> s" using f_within_signed [of a s m e] assms(1) xy by auto
    then have "f_upto a x" using assms(1) by (simp add: xy f_within_def f_upto_def)
    then show ?thesis using f_div_upto [OF _ _ assms(3-5)] t by (intro f_upto_within) (simp add: xy)
  qed
qed

lemma f_clamp_within:
  assumes "f_within 1 x"
  shows "f_clamp x (f_of_nat 0) (f_of_nat 1) = x"
proof -
  obtain a b where z: "f_of_nat 0 = Fin False a b" "fval (f_of_nat 0) = 0"
    using f_of_nat_upto [OF float_real_nat [of 0], of 0] fval_of_nat_exact [of 0] by (auto simp: f_upto_def)
  obtain c d where o: "f_of_nat 1 = Fin False c d" "fval (f_of_nat 1) = 1"
    using f_of_nat_upto [OF float_real_nat [of 1], of 1] fval_of_nat_exact [of 1] by (auto simp: f_upto_def)
  obtain s m e where x: "x = Fin s m e" using assms by (cases x) (simp_all add: f_within_def)
  show ?thesis
    using assms z(2) o(2) unfolding x z(1) o(1) f_within_def f_clamp_def
    by (auto simp: float_simps simp del: fval.simps)
qed

lemma noise_floor_within: "f_within 1 noise_floor" "1 / 32 \<le> fval noise_floor" "0 < fval noise_floor"
proof -
  show w: "f_within 1 noise_floor"
    unfolding noise_floor_def by (rule rnd_within) (use float_real_nat [of 1] in simp_all)
  have "float_real (1 / 2 ^ 5)" by (rule float_real_inv_pow) simp
  then show ge: "1 / 32 \<le> fval noise_floor"
    using w unfolding noise_floor_def by (intro rnd_ge) (simp_all add: f_within_def)
  then show "0 < fval noise_floor" by simp
qed

text \<open>
  The scale of a history: its extremes, its largest magnitude and the span the readings are divided by.
\<close>

lemma scale:
  assumes "\<forall>v \<in> set history. measured v" "history \<noteq> []"
    and "\<forall>v \<in> set history. \<forall>w \<in> set history. fval v - fval w \<le> fval f64_max"
  obtains hi lo big extent where
    "measured hi" "\<forall>v \<in> set history. fval v \<le> fval hi" "\<exists>v \<in> set history. fval hi = fval v"
    "measured lo" "\<forall>v \<in> set history. fval lo \<le> fval v" "\<exists>v \<in> set history. fval lo = fval v"
    "f_within (fval f64_max) big" "float_real (fval big)" "\<forall>v \<in> set history. \<bar>fval v\<bar> \<le> fval big"
    "\<exists>v \<in> set history. fval big = \<bar>fval v\<bar>"
    "f_within (fval f64_max) (f_sub hi lo)" "f_within (fval big) (f_mul big noise_floor)"
    "f_within (fval f64_max) extent" "fval extent = max (fval (f_sub hi lo)) (fval (f_mul big noise_floor))"
    "sparkline_points history = map (\<lambda>v. if f_lt (f_of_nat 0) extent
       then f_clamp (f_div (f_sub v lo) extent) (f_of_nat 0) (f_of_nat 1) else f_lit 1 2) history"
proof -
  define hi where "hi = fold (\<lambda>x acc. f_max acc x) history f64_min"
  define lo where "lo = fold (\<lambda>x acc. f_min acc x) history f64_max"
  define big where "big = f_max (f_abs hi) (f_abs lo)"
  define extent where "extent = f_max (f_sub hi lo) (f_mul big noise_floor)"
  have ends: "measured f64_min" "measured f64_max" "float_real (fval f64_max)"
    using measured_float [of f64_max] by (simp_all add: measured_def f64_min_def f64_max_def)
  have hi: "measured hi" "\<forall>v \<in> set history. fval v \<le> fval hi"
    using fold_max_measured [OF assms(1) ends(1)] by (simp_all add: hi_def)
  have lo: "measured lo" "\<forall>v \<in> set history. fval lo \<le> fval v"
    using fold_min_measured [OF assms(1) ends(2)] by (simp_all add: lo_def)
  obtain a where a: "a \<in> set history" "fval hi = fval a"
    using extremes(1) [OF assms(1,2)] by (auto simp: hi_def)
  obtain b where b: "b \<in> set history" "fval lo = fval b"
    using extremes(2) [OF assms(1,2)] by (auto simp: lo_def)
  have big: "measured big" "fval big = max \<bar>fval hi\<bar> \<bar>fval lo\<bar>"
    using f_max_measured [of "f_abs hi" "f_abs lo"] measured_abs hi(1) lo(1) by (simp_all add: big_def)
  have all: "\<forall>v \<in> set history. \<bar>fval v\<bar> \<le> fval big" using hi(2) lo(2) big(2) by fastforce
  have "0 \<le> fval big" by (simp add: big(2))
  then have float: "float_real (fval big)" using measured_float [OF big(1)] by (metis abs_of_nonneg)
  have bigw: "f_within (fval f64_max) big" "f_within (fval big) big"
    using big measured_le_max [OF big(1)] by (auto simp: f_within_def measured_def)
  have diff: "fval lo \<le> fval hi" "fval hi - fval lo \<le> fval f64_max"
    using a b lo(2) assms(3) by (fastforce, simp)
  have sub: "f_within (fval f64_max) (f_sub hi lo)"
    by (rule f_sub_within [OF hi(1) lo(1) diff(1) ends(3) diff(2)])
  have "fval big * fval noise_floor \<le> fval big"
    using noise_floor_within(1) bigw by (intro mult_left_le) (simp_all add: f_within_def)
  then have mul: "f_within (fval big) (f_mul big noise_floor)"
    using f_mul_rounds [OF bigw(2) noise_floor_within(1)] rnd_within [OF _ float] float_real_nonneg [OF float]
    by (elim disjE exE conjE) (simp_all add: f_within_def)
  have le: "fval (f_mul big noise_floor) \<le> fval f64_max" using mul bigw by (simp add: f_within_def)
  have "is_finite extent \<and> fval extent = max (fval (f_sub hi lo)) (fval (f_mul big noise_floor))"
    using sub mul unfolding extent_def
    by (cases "f_sub hi lo"; cases "f_mul big noise_floor") (auto simp: f_within_def f_max_def float_simps simp del: fval.simps)
  then have extent: "f_within (fval f64_max) extent" "fval extent = max (fval (f_sub hi lo)) (fval (f_mul big noise_floor))"
    using sub mul le by (auto simp: f_within_def)
  have pts: "sparkline_points history = map (\<lambda>v. if f_lt (f_of_nat 0) extent
      then f_clamp (f_div (f_sub v lo) extent) (f_of_nat 0) (f_of_nat 1) else f_lit 1 2) history"
    unfolding sparkline_points_def Let_def hi_def [symmetric] lo_def [symmetric] big_def [symmetric] extent_def [symmetric]
    using assms(2) by simp
  have "\<exists>v \<in> set history. fval big = \<bar>fval v\<bar>" using a b big(2) by (auto simp: max_def)
  with hi lo a b bigw float all sub mul extent pts show ?thesis by (intro that [of hi lo big extent]) blast+
qed

lemma measured_gap:
  assumes "measured v" "measured l" "fval l < fval v"
  shows "2 powr real_of_int (-1074) \<le> fval v - fval l"
proof -
  let ?u = "2 powr real_of_int (-1074) :: real"
  have int: "\<exists>k. fval x = real_of_int k * ?u" if "measured x" for x
  proof -
    obtain s m e where x: "x = Fin s m e" "-1074 \<le> e" using \<open>measured x\<close> by (elim measuredE)
    have "fval x = real_of_int (units s m e (-1074)) * ?u"
      unfolding units_real [OF x(2)] x(1) [symmetric] by simp
    then show ?thesis by blast
  qed
  obtain a b where ab: "fval v = real_of_int a * ?u" "fval l = real_of_int b * ?u"
    using int assms(1,2) by blast
  have "real_of_int b * ?u < real_of_int a * ?u" using assms(3) unfolding ab .
  then have "b < a" by simp
  then have "1 \<le> real_of_int (a - b)" by linarith
  then have "1 * ?u \<le> real_of_int (a - b) * ?u" by (rule mult_right_mono) simp
  then show ?thesis by (simp only: ab of_int_diff left_diff_distrib mult_1_left)
qed

lemma f_div_whole:
  assumes "f_within a x" "f_within b y" "0 < fval y" "fval y \<le> fval x" "is_finite (f_div x y)"
  shows "1 \<le> fval (f_div x y)"
proof -
  obtain s m e t k f where xy: "x = Fin s m e" "y = Fin t k f"
    using assms(1,2) by (cases x; cases y) (auto simp: f_within_def)
  have "m \<noteq> 0" "k \<noteq> 0" using assms(3,4) by (cases "m = 0"; cases "k = 0"; simp add: xy)+
  then have st: "\<not> s" "\<not> t" using f_within_signed [of a s m e] f_within_signed [of b t k f] assms(1,2) xy by auto
  have "float_real 1" using float_real_nat [of 1] by simp
  then show ?thesis using f_div_ge [of x m e y k f 1] xy st assms(3-5) by simp
qed

text \<open>One point of a line that has a scale.\<close>

lemma spark_point:
  assumes "measured v" "measured lo" "measured hi" "fval lo \<le> fval v" "fval v \<le> fval hi"
    and "f_within a (f_sub hi lo)" "f_within b extent" "0 < fval extent" "fval (f_sub hi lo) \<le> fval extent"
    and "fval hi - fval lo \<le> fval f64_max" "float_real (fval f64_max)"
  defines "p \<equiv> f_clamp (f_div (f_sub v lo) extent) (f_of_nat 0) (f_of_nat 1)"
  shows "f_within 1 p"
    and "fval v = fval lo \<Longrightarrow> fval p = 0"
    and "fval v = fval hi \<Longrightarrow> fval extent = fval (f_sub hi lo) \<Longrightarrow> fval p = 1"
    and "float_real c \<Longrightarrow> fval v - fval lo \<le> c \<Longrightarrow> 2 * c \<le> fval extent \<Longrightarrow> f_within (1 / 2) p"
proof -
  have ord: "fval lo \<le> fval hi" using assms(4,5) by simp
  have x: "f_within (fval f64_max) (f_sub v lo)"
    using assms(5,10) by (intro f_sub_within assms) simp
  have le: "fval (f_sub v lo) \<le> fval (f_sub hi lo)"
    using assms(5) by (intro f_sub_mono [OF assms(1,2,4,3,2) ord _ x assms(6)]) simp
  have reals: "float_real 1" "float_real 0" "float_real (1 / 2)"
    using float_real_nat [of 1] float_real_nat [of 0] float_real_inv_pow [of 1] by simp_all
  have q: "f_within 1 (f_div (f_sub v lo) extent)"
    using le assms(9) by (intro f_div_within [OF x assms(7,8) reals(1)]) simp
  then have p: "p = f_div (f_sub v lo) extent" unfolding p_def by (rule f_clamp_within)
  show "f_within 1 p" using q p by simp
  show "fval p = 0" if "fval v = fval lo"
  proof -
    have z: "f_within 0 (f_sub v lo)" using that by (intro f_sub_within assms(1,2,4) reals(2)) simp
    then have "f_within 0 p"
      unfolding p by (intro f_div_within [OF z assms(7,8) reals(2)]) (simp add: f_within_def)
    then show ?thesis by (simp add: f_within_def)
  qed
  show "fval p = 1" if "fval v = fval hi" "fval extent = fval (f_sub hi lo)"
  proof -
    have "fval (f_sub hi lo) \<le> fval (f_sub v lo)"
      using that(1) by (intro f_sub_mono [OF assms(3,2) ord assms(1,2,4) _ assms(6) x]) simp
    then have "1 \<le> fval p"
      unfolding p using that(2) q by (intro f_div_whole [OF x assms(7,8)]) (simp_all add: f_within_def)
    then show ?thesis using q p by (simp add: f_within_def)
  qed
  show "f_within (1 / 2) p" if "float_real c" "fval v - fval lo \<le> c" "2 * c \<le> fval extent"
  proof -
    have y: "f_within c (f_sub v lo)" by (rule f_sub_within [OF assms(1,2,4) that(1,2)])
    then show ?thesis
      unfolding p using that(3) by (intro f_div_within [OF y assms(7,8) reals(3)]) (simp add: f_within_def)
  qed
qed

lemma list_all_points: "list_all (\<lambda>(v, p). ok v p) (zip vs (map f vs)) \<longleftrightarrow> (\<forall>v \<in> set vs. ok v (f v))"
  by (induction vs) simp_all

text \<open>
  C29: the trend line stays in its box, fills it and never invents a cliff. For finite readings of
  either sign, no two of which are further apart than the greatest finite number, there is one point
  for each reading and every point lies between 0 and 1. The line is the midline only if no two
  readings differ, and otherwise every lowest reading is drawn at the bottom. The highest is
  drawn at the top if it lies above the lowest by at least the noise floor, a twentieth of
  the largest magnitude; but readings that reach \<open>2 ^ k\<close> and stay within a sixty-fourth of that of
  each other never leave the lower half.
\<close>

theorem sparkline_in_box:
  assumes "\<forall>v \<in> set history. measured v"
    and "\<forall>v \<in> set history. \<forall>w \<in> set history. fval v - fval w \<le> fval f64_max"
  shows "length (sparkline_points history) = length history
    \<and> list_all (f_within 1) (sparkline_points history)
    \<and> (sparkline_points history = map (\<lambda>_. f_lit 1 2) history
         \<and> (\<forall>v \<in> set history. \<forall>w \<in> set history. fval v = fval w)
       \<or> list_all (\<lambda>(v, p). (\<forall>w \<in> set history. fval v \<le> fval w) \<longrightarrow> fval p = 0)
           (zip history (sparkline_points history)))
    \<and> list_all (\<lambda>(v, p). (\<forall>w \<in> set history. fval w \<le> fval v) \<and>
          (\<exists>l \<in> set history. fval l < fval v
            \<and> (\<forall>w \<in> set history. \<bar>fval w\<bar> * fval noise_floor \<le> fval v - fval l)) \<longrightarrow> fval p = 1)
        (zip history (sparkline_points history))
    \<and> (\<forall>k. -1000 \<le> k \<and> k \<le> 971 \<and> (\<exists>w \<in> set history. 2 powr real_of_int k \<le> \<bar>fval w\<bar>)
          \<and> (\<forall>v \<in> set history. \<forall>w \<in> set history. fval v - fval w \<le> 2 powr real_of_int (k - 6)) \<longrightarrow>
        list_all (f_within (1 / 2)) (sparkline_points history))"
proof (cases "history = []")
  case False
  obtain hi lo big extent where
    hi: "measured hi" "\<forall>v \<in> set history. fval v \<le> fval hi" "\<exists>v \<in> set history. fval hi = fval v" and
    lo: "measured lo" "\<forall>v \<in> set history. fval lo \<le> fval v" "\<exists>v \<in> set history. fval lo = fval v" and
    big: "f_within (fval f64_max) big" "float_real (fval big)" "\<forall>v \<in> set history. \<bar>fval v\<bar> \<le> fval big"
      "\<exists>v \<in> set history. fval big = \<bar>fval v\<bar>" and
    parts: "f_within (fval f64_max) (f_sub hi lo)" "f_within (fval big) (f_mul big noise_floor)" and
    extent: "f_within (fval f64_max) extent" "fval extent = max (fval (f_sub hi lo)) (fval (f_mul big noise_floor))" and
    pts: "sparkline_points history = map (\<lambda>v. if f_lt (f_of_nat 0) extent
       then f_clamp (f_div (f_sub v lo) extent) (f_of_nat 0) (f_of_nat 1) else f_lit 1 2) history"
    by (rule scale [OF assms(1) False assms(2)])
  have zero: "f_lt (f_of_nat 0) extent \<longleftrightarrow> 0 < fval extent"
    using extent(1) f_of_nat_upto [OF float_real_nat [of 0], of 0] fval_of_nat_exact [of 0]
    by (cases extent) (auto simp: f_within_def f_upto_def float_simps simp del: fval.simps)
  have top: "float_real (fval f64_max)" using measured_float [of f64_max] by (simp add: measured_def f64_max_def)
  have spread: "fval hi - fval lo \<le> fval f64_max" using hi(3) lo(3) assms(2) by auto
  show ?thesis
  proof (cases "0 < fval extent")
    case True
    let ?p = "\<lambda>v. f_clamp (f_div (f_sub v lo) extent) (f_of_nat 0) (f_of_nat 1)"
    have line: "sparkline_points history = map ?p history" using True zero by (simp add: pts)
    have sp: "fval (f_sub hi lo) \<le> fval extent" by (simp add: extent(2))
    note pt = spark_point [OF _ lo(1) hi(1) _ _ parts(1) extent(1) True sp spread top]
    have box: "f_within 1 (?p v)" if "v \<in> set history" for v
      using that assms(1) lo(2) hi(2) by (intro pt(1)) auto
    have low: "fval (?p v) = 0" if "v \<in> set history" "\<forall>w \<in> set history. fval v \<le> fval w" for v
    proof -
      have "fval v = fval lo" using that lo(2,3) by (metis order_antisym)
      then show ?thesis using that(1) assms(1) lo(2) hi(2) by (intro pt(2)) auto
    qed
    have high: "fval (?p v) = 1"
      if v: "v \<in> set history" "\<forall>w \<in> set history. fval w \<le> fval v"
        and l: "l \<in> set history" "\<forall>w \<in> set history. \<bar>fval w\<bar> * fval noise_floor \<le> fval v - fval l" for v l
    proof -
      have eq: "fval v = fval hi" using v hi(2,3) by (metis order_antisym)
      have "fval big * fval noise_floor \<le> fval v - fval l" using big(4) l(2) by auto
      then have "fval big * fval noise_floor \<le> fval hi - fval lo" using eq lo(2) l(1) by fastforce
      then have "fval (f_mul big noise_floor) \<le> fval (f_sub hi lo)"
        using eq lo(2) v(1)
        by (intro f_mul_below_sub [OF big(1) noise_floor_within(1) hi(1) lo(1) _ _ parts(2,1)]) auto
      then have "fval extent = fval (f_sub hi lo)" by (simp add: extent(2))
      then show ?thesis using v(1) eq assms(1) lo(2) hi(2) by (intro pt(3)) auto
    qed
    have half: "f_within (1 / 2) (?p v)"
      if v: "v \<in> set history" and k: "-1000 \<le> k" "k \<le> 971" "\<exists>w \<in> set history. 2 powr real_of_int k \<le> \<bar>fval w\<bar>"
        "\<forall>v \<in> set history. \<forall>w \<in> set history. fval v - fval w \<le> 2 powr real_of_int (k - 6)" for v k
    proof -
      have fl: "float_real (2 powr real_of_int j)" if "-1074 \<le> j" "j \<le> 971" for j
        unfolding float_real_def using that by (intro exI [of _ 1] exI [of _ j]) simp
      have "2 powr real_of_int k \<le> fval big" using k(3) big(3) by fastforce
      then have "2 powr real_of_int k * (1 / 32) \<le> fval big * fval noise_floor"
        using noise_floor_within by (intro mult_mono) (use big(1) in \<open>auto simp: f_within_def\<close>)
      moreover have p2: "2 powr real_of_int k * (1 / 32) = 2 powr real_of_int (k - 5)"
        "2 * 2 powr real_of_int (k - 6) = 2 powr real_of_int (k - 5)"
        by (simp_all add: powr_diff)
      ultimately have "2 powr real_of_int (k - 5) \<le> fval (f_mul big noise_floor)"
        using k by (intro f_mul_least [OF big(1) noise_floor_within(1) fl _ _ parts(2)]) simp_all
      then have "2 * 2 powr real_of_int (k - 6) \<le> fval extent" by (simp only: p2 extent(2))
      moreover have "fval v - fval lo \<le> 2 powr real_of_int (k - 6)" using lo(3) k(4) v by (metis (full_types))
      moreover have "float_real (2 powr real_of_int (k - 6))" using k by (intro fl) simp_all
      moreover have "measured v" "fval lo \<le> fval v" "fval v \<le> fval hi" using v assms(1) lo(2) hi(2) by blast+
      ultimately show ?thesis by (intro pt(4))
    qed
    have "list_all (f_within 1) (map ?p history)" using box by (simp add: list_all_iff)
    moreover have "list_all (\<lambda>(v, p). (\<forall>w \<in> set history. fval v \<le> fval w) \<longrightarrow> fval p = 0)
        (zip history (map ?p history))"
      unfolding list_all_points using low by blast
    moreover have "list_all (\<lambda>(v, p). (\<forall>w \<in> set history. fval w \<le> fval v) \<and>
          (\<exists>l \<in> set history. fval l < fval v
            \<and> (\<forall>w \<in> set history. \<bar>fval w\<bar> * fval noise_floor \<le> fval v - fval l)) \<longrightarrow> fval p = 1)
        (zip history (map ?p history))"
      unfolding list_all_points using high by blast
    moreover have "list_all (f_within (1 / 2)) (map ?p history)"
      if "-1000 \<le> k \<and> k \<le> 971 \<and> (\<exists>w \<in> set history. 2 powr real_of_int k \<le> \<bar>fval w\<bar>)
          \<and> (\<forall>v \<in> set history. \<forall>w \<in> set history. fval v - fval w \<le> 2 powr real_of_int (k - 6))" for k
      using half that by (simp only: list_all_iff set_map ball_simps) blast
    ultimately show ?thesis unfolding line by (intro conjI disjI2 allI impI) (simp_all only: length_map)
  next
    case False
    have same: "fval v = fval w" if "v \<in> set history" "w \<in> set history" for v w
    proof (rule ccontr)
      assume "fval v \<noteq> fval w"
      then have "fval lo < fval hi" using that lo(2) hi(2) by (metis order_antisym order_trans linorder_not_less)
      moreover have "float_real (2 powr real_of_int (-1074))"
        unfolding float_real_def by (intro exI [of _ 1] exI [of _ "-1074"]) simp
      moreover have pos: "0 < (2 powr real_of_int (-1074) :: real)" by (simp only: powr_gt_zero)
      ultimately have "2 powr real_of_int (-1074) \<le> fval (f_sub hi lo)"
        using measured_gap [OF hi(1) lo(1)]
        by (intro f_sub_least [OF hi(1) lo(1) less_imp_le _ _ _ parts(1)])
      with pos have "0 < fval (f_sub hi lo)" by (rule less_le_trans)
      then show False using False by (simp add: extent(2))
    qed
    have line: "sparkline_points history = map (\<lambda>_. f_lit 1 2) history" using False zero by (simp add: pts)
    have h: "float_real (1 / 2)" "float_real 1" using float_real_inv_pow [of 1] float_real_nat [of 1] by simp_all
    have "f_within (1 / 2) (f_lit 1 2)" "f_within 1 (f_lit 1 2)" by (rule rnd_within; use h in simp)+
    then have flat: "list_all (f_within (1 / 2)) (map (\<lambda>_. f_lit 1 2) history)"
      "list_all (f_within 1) (map (\<lambda>_. f_lit 1 2) history)" by (auto simp only: list_all_iff set_map)
    have high: "list_all (\<lambda>(v, p). (\<forall>w \<in> set history. fval w \<le> fval v) \<and>
          (\<exists>l \<in> set history. fval l < fval v
            \<and> (\<forall>w \<in> set history. \<bar>fval w\<bar> * fval noise_floor \<le> fval v - fval l)) \<longrightarrow> fval p = 1)
        (zip history (map (\<lambda>_. f_lit 1 2) history))"
      unfolding list_all_points using same by (metis less_irrefl)
    show ?thesis
      unfolding line by (intro conjI disjI1 allI impI ballI length_map refl flat high same) assumption+
  qed
qed (simp add: sparkline_points_def)

lemma fval_neg: "fval (f_neg x) = - fval x"
  by (cases x) simp_all

theorem sparkline_in_box_witness:
  "length (sparkline_points [f_neg (f_of_nat 4), f_of_nat 0, f_of_nat 8]) = 3
   \<and> fval (sparkline_points [f_neg (f_of_nat 4), f_of_nat 0, f_of_nat 8] ! 0) = 0
   \<and> fval (sparkline_points [f_neg (f_of_nat 4), f_of_nat 0, f_of_nat 8] ! 2) = 1"
proof -
  let ?h = "[f_neg (f_of_nat 4), f_of_nat 0, f_of_nat 8]"
  have m: "\<forall>v \<in> set ?h. measured v" "measured (f_of_nat 12)" by (simp_all add: measured_def float_eval)
  have v: "fval (f_neg (f_of_nat 4)) = -4" "fval (f_of_nat 0) = 0" "fval (f_of_nat 8) = 8" "fval (f_of_nat 12) = 12"
    by (simp_all add: fval_neg fval_of_nat_exact)
  have "12 \<le> fval f64_max" using measured_le_max [OF m(2)] by (simp add: v)
  then have r: "\<forall>v \<in> set ?h. \<forall>w \<in> set ?h. fval v - fval w \<le> fval f64_max"
    by (simp only: list.set ball_simps v; simp)
  note box = sparkline_in_box [OF m(1) r]
  have nf: "fval noise_floor \<le> 1" using noise_floor_within(1) by (simp add: f_within_def)
  have len: "length (sparkline_points ?h) = 3" using box by simp
  then obtain a b c where p: "sparkline_points ?h = [a, b, c]" by (auto simp: length_Suc_conv numeral_3_eq_3)
  show ?thesis using box nf unfolding p by (simp add: v del: fval.simps)
qed

text \<open>
  Readings that are further apart than that: the span is infinite and the highest is drawn at no place
  at all.
\<close>

lemma greatest_doubled: "f_sub f64_max f64_min = Inf False"
proof -
  obtain m where m: "f64_max = Fin False m 971" "f64_min = Fin True m 971" "0 < m" "m < 2 ^ 53"
    by (simp add: f64_max_def f64_min_def)
  obtain n d where r: "0 < d" "\<And>t. rnd_exp t (2 * m) 1 971 = rnd t n d"
    "real n / real d = real (2 * m) / real 1 * 2 powr real_of_int 971"
    by (rule rnd_exp_rnd [of 1 "2 * m" 971]) simp_all
  have n: "0 < n" using r(1,3) m(3) by (cases "n = 0") simp_all
  have sub: "f_sub f64_max f64_min = rnd False n d"
    using m(3) by (simp add: f_sub_def m(1,2) units_def Let_def r(2) [symmetric] nat_mult_distrib flip: mult_2)
  have val: "real n / real d = 2 * fval f64_max" by (simp add: r(3) m(1))
  have "real n / real d = real m * 2 powr real_of_int 972"
    using powr_add [of 2 1 "971 :: real"] by (simp add: r(3))
  then have exact: "rval n d = 2 * fval f64_max"
    using rval_exact [OF n r(1) m(4), of 972] by (simp add: val)
  have "\<not> is_finite (rnd False n d)"
  proof
    assume fin: "is_finite (rnd False n d)"
    then have "\<bar>fval (rnd False n d)\<bar> \<le> fval f64_max"
      using rnd_valid [OF r(1)] by (intro measured_le_max) (simp add: measured_def)
    moreover have "0 < fval f64_max" using m(3) by (simp add: m(1))
    ultimately show False using rnd_fval [OF n r(1) fin] exact by (simp del: fval.simps)
  qed
  then show ?thesis
    unfolding sub by (auto simp: rnd_def pack_def Let_def split: if_splits)
qed

lemma sparkline_overflows: "sparkline_points [f64_min, f64_max] ! 1 = Nan"
proof -
  have lt: "f_lt f64_min f64_max" "\<not> f_lt f64_max f64_min" "\<not> f_lt f64_min f64_min" "\<not> f_lt f64_max f64_max"
    by (simp_all add: f64_max_def f64_min_def float_simps)
  have num: "f64_min \<noteq> Nan" "f64_max \<noteq> Nan" "f_abs f64_min = f64_max" "f_abs f64_max = f64_max"
    by (simp_all add: f64_max_def f64_min_def)
  obtain a b where "f_of_nat 0 = Fin False a b"
    using f_of_nat_upto [OF float_real_nat [of 0], of 0] by (auto simp: f_upto_def)
  then have z: "f_lt (f_of_nat 0) (Inf False)" by (simp add: f_lt_def)
  have inf: "f_max (Inf False) y = Inf False" for y by (cases y) (simp_all add: f_max_def f_lt_def)
  have nan: "f_clamp Nan x y = Nan" for x y by (simp add: f_clamp_def f_lt_def)
  have ends: "f_max f64_min f64_min = f64_min" "f_max f64_min f64_max = f64_max" "f_max f64_max f64_max = f64_max"
    "f_min f64_max f64_min = f64_min" "f_min f64_min f64_max = f64_min"
    by (simp_all add: f_max_def f_min_def lt num)
  show ?thesis
    by (simp add: sparkline_points_def ends num greatest_doubled inf z nan Let_def)
qed

text \<open>The prefix is chosen before the figure is rounded.\<close>

lemma format_value_below_a_mebibyte:
  "format_value (f_of_nat 1048575) ''B'' True = ''1024.0 KiB''"
proof -
  have v: "f_of_nat 1048575 = Fin False 9007190664806400 (- 33)"
    "f_of_nat 1024 = Fin False 4503599627370496 (- 42)"
    "f_of_nat 0 = Fin False 0 (- 1074)"
    "f_div (Fin False 9007190664806400 (- 33)) (Fin False 4503599627370496 (- 42))
       = Fin False 9007190664806400 (- 43)"
    by (simp_all add: float_eval)
  have n: "length unit_prefixes - 1 = Suc (Suc (Suc (Suc (Suc 0))))"
    "unit_prefixes ! Suc 0 = ''Ki''" "strip_prefix ''B'' ''B'' = Some []"
    by code_simp+
  have s: "scale_down (Suc (Suc (Suc (Suc (Suc 0))))) 0 (Fin False 9007190664806400 (- 33))
      = (1, Fin False 9007190664806400 (- 43))"
    by (simp add: v float_eval)
  have d: "show_nat 1024 = ''1024''" "show_nat 0 = ''0''"
    by code_simp+
  show ?thesis
    unfolding format_value_def v n
    by (simp add: s n d Let_def float_eval fixed_def pad_left_def)
qed

end
