(* ===== verification/Plain.thy ===== *)
theory Plain
  imports View
begin

text \<open>
  Plain language (\<open>crates/sg-ffi/src/plain.rs\<close>): one verdict on a host, and what a failure to reach
  it means. Text outside ASCII is written as its UTF-8 bytes.
\<close>

record host_health =
  hh_level :: string
  hh_headline :: string
  hh_detail :: string

abbreviation ellipsis :: string where "ellipsis \<equiv> [CHR 0xE2, CHR 0x80, CHR 0xA6]"
abbreviation degrees_c :: string where "degrees_c \<equiv> [CHR 0xC2, CHR 0xB0, CHR ''C'']"

definition nearly_full :: f64 where "nearly_full = f_of_nat 90"
definition filling_up :: f64 where "filling_up = f_of_nat 80"
definition working_hard :: f64 where "working_hard = f_of_nat 85"
definition stalling :: f64 where "stalling = f_of_nat 20"
definition stalling_badly :: f64 where "stalling_badly = f_of_nat 40"
definition running_warm :: f64 where "running_warm = f_of_nat 80"
definition overheating :: f64 where "overheating = f_of_nat 90"

section \<open>Why a host cannot be reached\<close>

text \<open>
  \<open>to_lowercase\<close>, as far as a search for ASCII text can see it: ASCII letters, and the two other
  characters whose lower case has an ASCII letter in it.
\<close>

fun to_lowercase :: "string \<Rightarrow> string" where
  "to_lowercase [] = []"
| "to_lowercase (a # b # c # cs) =
     (if a = CHR 0xC4 \<and> b = CHR 0xB0 then ''i'' @ [CHR 0xCC, CHR 0x87] @ to_lowercase (c # cs)
      else if a = CHR 0xE2 \<and> b = CHR 0x84 \<and> c = CHR 0xAA then CHR ''k'' # to_lowercase cs
      else lower [a] @ to_lowercase (b # c # cs))"
| "to_lowercase [a, b] =
     (if a = CHR 0xC4 \<and> b = CHR 0xB0 then ''i'' @ [CHR 0xCC, CHR 0x87]
      else lower [a] @ to_lowercase [b])"
| "to_lowercase [a] = lower [a]"

definition friendly_failure :: "string \<Rightarrow> string" where
  "friendly_failure message =
     (let says = (\<lambda>phrase. contains phrase (to_lowercase message))
      in if says ''authentication failed'' \<or> says ''no usable identity'' then
           ''The username or key was not accepted. Check the sign-in details are the ones this server expects.''
         else if says ''not in known_hosts'' then
           ''This is the first time connecting to this server, so its identity has not been confirmed yet. Turn on \"Trust this server\" when adding it if you know it is the right one.''
         else if says ''changed'' then
           ''This server's identity is different from last time. That can mean it was rebuilt '' @ em_dash
           @ '' or that something is impersonating it. Do not reconnect until you know which.''
         else if says ''could not reach'' \<or> says ''timed out'' then
           ''Nothing answered at that address. Check the server is switched on and that you are on the same network or VPN.''
         else if says ''no ssh-agent'' then
           ''No key agent is running, so there is no key to sign in with. Choose a key file instead, or start your key agent.''
         else if says ''could not read the pasted private key'' then
           ''That key could not be read. Paste the whole key, including the -----BEGIN----- and -----END----- lines, and add its passphrase below if it has one.''
         else if says ''could not read private key'' then
           ''That key file could not be read. Check the path is right and the passphrase matches.''
         else if says ''closed'' then ''The server closed the connection. It may be restarting.''
         else ''Something went wrong connecting. The technical detail was: '' @ message)"

section \<open>The verdict\<close>

definition gauge_value :: "metric_gauge list \<Rightarrow> string \<Rightarrow> f64 option" where
  "gauge_value gauges metric = map_option mg_value (find (\<lambda>g. mg_metric g = metric) gauges)"

definition or_else :: "'a option \<Rightarrow> 'a option \<Rightarrow> 'a option" where
  "or_else a b = (case a of Some x \<Rightarrow> Some x | None \<Rightarrow> b)"

text \<open>How much of a resource is free, when both of its readings are there.\<close>

definition sizes_pair :: "metric_gauge list \<Rightarrow> string \<Rightarrow> string \<Rightarrow> string option" where
  "sizes_pair gauges used whole =
     (case (gauge_value gauges used, gauge_value gauges whole) of
        (Some u, Some w) \<Rightarrow>
          Some (format_value (f_sub w u) ''B'' True @ '' free of '' @ format_value w ''B'' True)
      | _ \<Rightarrow> None)"

function trim_end_matches :: "string \<Rightarrow> string \<Rightarrow> string" where
  "trim_end_matches pat s =
     (if pat \<noteq> [] \<and> suffix pat s then trim_end_matches pat (take (length s - length pat) s) else s)"
  by pat_completeness auto
termination
  by (relation "measure (length \<circ> snd)") (auto simp: suffix_def)

declare trim_end_matches.simps [simp del]

definition health :: "string \<Rightarrow> string \<Rightarrow> string \<Rightarrow> host_health" where
  "health level title detail = \<lparr>hh_level = level, hh_headline = title, hh_detail = detail\<rparr>"

text \<open>
  The readings are looked at worst first; each check is the reading it looks at, its threshold and
  what is said. The first that is reached gives the verdict.
\<close>

definition checks :: "metric_gauge list \<Rightarrow> (f64 option \<times> f64 \<times> (f64 \<Rightarrow> host_health)) list" where
  "checks gauges =
     (let v = gauge_value gauges
      in [(v ''disk_usage'', nearly_full, \<lambda>disk. health ''problem'' ''Storage is almost full''
             (''The main drive is '' @ fmt_f64 0 disk @ ''% full. Things stop working when it fills up completely, so it is worth clearing space soon.'')),
          (v ''mem_usage'', nearly_full, \<lambda>memory. health ''problem'' ''Running out of memory''
             (trim_end_matches '' .''
               (''Memory is '' @ fmt_f64 0 memory @ ''% used. ''
                 @ or_empty (sizes_pair gauges ''mem_used'' ''mem_total'') @ ''.''))),
          (or_else (v ''pressure_io_60s'') (v ''pressure_io''), stalling_badly,
           \<lambda>io. health ''problem'' ''Waiting on storage''
             (''Tasks spent '' @ fmt_f64 0 io @ ''% of the last minute waiting for the disk. That is what a machine feels like when it has run out of I/O, not out of processor.'')),
          (or_else (v ''pressure_memory_full'') (v ''pressure_memory''), stalling,
           \<lambda>memory. health ''problem'' ''Struggling for memory''
             (''Everything on the machine stopped and waited for memory '' @ fmt_f64 0 memory
              @ ''% of the time. Freeing some, or adding more, would make it noticeably faster.'')),
          (v ''cpu_temp'', overheating, \<lambda>temperature. health ''problem'' ''Running very hot''
             (''The processor is at '' @ fmt_f64 0 temperature @ degrees_c
              @ ''. At this temperature it slows itself down to avoid damage '' @ em_dash
              @ '' usually dust in the fans or a blocked air intake.'')),
          (v ''disk_usage'', filling_up, \<lambda>disk. health ''busy'' ''Storage is filling up''
             (''The main drive is '' @ fmt_f64 0 disk @ ''% full '' @ em_dash @ '' worth keeping an eye on.'')),
          (v ''mem_usage'', working_hard, \<lambda>memory. health ''busy'' ''Memory is under pressure''
             (''Memory is '' @ fmt_f64 0 memory @ ''% used.'')),
          (or_else (v ''pressure_cpu_60s'') (v ''pressure_cpu''), stalling,
           \<lambda>cpu. health ''busy'' ''Work is queueing up''
             (''Something was waiting its turn for the processor '' @ fmt_f64 0 cpu
              @ ''% of the last minute. Busy is fine; queueing means requests are being made to wait.'')),
          (v ''cpu_temp'', running_warm, \<lambda>temperature. health ''busy'' ''Running warm''
             (''The processor is at '' @ fmt_f64 0 temperature @ degrees_c
              @ ''. Not dangerous, but worth checking the fans if it stays there while the machine is idle.'')),
          (v ''cpu_usage'', working_hard, \<lambda>cpu. health ''busy'' ''Working very hard''
             (''The processor is '' @ fmt_f64 0 cpu @ ''% busy. That is fine for a while, but slow if it stays there.''))])"

fun first_reached :: "(f64 option \<times> f64 \<times> (f64 \<Rightarrow> host_health)) list \<Rightarrow> host_health option" where
  "first_reached [] = None"
| "first_reached ((Some x, limit, verdict) # cs) =
     (if f_le limit x then Some (verdict x) else first_reached cs)"
| "first_reached ((None, _, _) # cs) = first_reached cs"

definition all_well :: "metric_gauge list \<Rightarrow> host_health" where
  "all_well gauges =
     health ''ok'' ''Everything looks good''
       (case gauge_value gauges ''uptime'' of
          Some s \<Rightarrow> ''Running for '' @ format_uptime s @ ''.'' | None \<Rightarrow> [])"

definition assess :: "connection_state \<Rightarrow> metric_gauge list \<Rightarrow> bool \<Rightarrow> host_health" where
  "assess state gauges has_data =
     (case state of
        Idle \<Rightarrow> health ''checking'' ''Not connected'' []
      | Connecting \<Rightarrow> health ''checking'' (''Connecting'' @ ellipsis) ''Getting the first reading.''
      | Reconnecting _ _ \<Rightarrow> health ''offline'' ''Lost connection'' ''Trying again automatically.''
      | Failed message _ \<Rightarrow> health ''offline'' ''Can't reach this server'' (friendly_failure message)
      | Online \<Rightarrow>
          if \<not> has_data then health ''checking'' (''Getting readings'' @ ellipsis) []
          else
            (case first_reached (checks gauges) of
               Some verdict \<Rightarrow> verdict
             | None \<Rightarrow> all_well gauges))"

section \<open>Names and summaries\<close>

definition plain_name :: "string \<Rightarrow> string option" where
  "plain_name metric =
     (if metric = ''cpu_usage'' then Some ''Processor''
      else if metric = ''mem_usage'' then Some ''Memory''
      else if metric = ''disk_usage'' then Some ''Storage''
      else if metric = ''uptime'' then Some ''Running for''
      else if metric = ''net_rx'' then Some ''Downloading''
      else if metric = ''net_tx'' then Some ''Uploading''
      else None)"

definition plain_summary :: "metric_gauge \<Rightarrow> f64 option \<Rightarrow> f64 option \<Rightarrow> string" where
  "plain_summary g used whole =
     (let used_text = fmt_f64 0 (mg_value g) @ ''% used''
      in if mg_metric g = ''cpu_usage'' then
           (if f_lt (mg_value g) (f_of_nat 25) then ''Barely working''
            else if f_lt (mg_value g) (f_of_nat 60) then ''Working normally''
            else if f_lt (mg_value g) (f_of_nat 85) then ''Working hard''
            else ''Very busy'')
         else if mg_metric g = ''mem_usage'' \<or> mg_metric g = ''disk_usage'' then
           (case (used, whole) of
              (Some u, Some w) \<Rightarrow>
                if f_lt (f_of_nat 0) w then
                  format_value (f_sub w u) ''B'' True @ '' free of '' @ format_value w ''B'' True
                else used_text
            | _ \<Rightarrow> used_text)
         else if mg_metric g = ''uptime'' then ''Without a restart''
         else [])"

section \<open>What the verdict says\<close>

text \<open>The first of some readings that a host has, and whether it has reached a threshold.\<close>

fun first_value :: "metric_gauge list \<Rightarrow> string list \<Rightarrow> f64 option" where
  "first_value gauges [] = None"
| "first_value gauges (m # ms) = (case gauge_value gauges m of Some x \<Rightarrow> Some x | None \<Rightarrow> first_value gauges ms)"

definition over :: "metric_gauge list \<Rightarrow> string list \<times> nat \<Rightarrow> bool" where
  "over gauges = (\<lambda>(ms, n). case first_value gauges ms of Some x \<Rightarrow> f_le (f_of_nat n) x | None \<Rightarrow> False)"

definition problem_readings :: "(string list \<times> nat) list" where
  "problem_readings =
     [([''disk_usage''], 90), ([''mem_usage''], 90), ([''pressure_io_60s'', ''pressure_io''], 40),
      ([''pressure_memory_full'', ''pressure_memory''], 20), ([''cpu_temp''], 90)]"

definition busy_readings :: "(string list \<times> nat) list" where
  "busy_readings =
     [([''disk_usage''], 80), ([''mem_usage''], 85), ([''pressure_cpu_60s'', ''pressure_cpu''], 20),
      ([''cpu_temp''], 80), ([''cpu_usage''], 85)]"

lemma trim_end_matches_stop: "\<not> suffix pat s \<Longrightarrow> trim_end_matches pat s = s"
  by (simp add: trim_end_matches.simps)

lemma memory_sentence:
  assumes "sizes = [] \<or> last sizes \<noteq> CHR '' ''"
  shows "\<exists>rest. trim_end_matches '' .'' (a @ ''% used. '' @ sizes @ ''.'') = a @ ''% used.'' @ rest"
proof (cases "sizes = []")
  case True
  have "trim_end_matches '' .'' ((a @ ''% used.'') @ '' .'') = trim_end_matches '' .'' (a @ ''% used.'')"
    by (subst trim_end_matches.simps) (simp add: suffix_def)
  also have "\<dots> = a @ ''% used.''"
    by (rule trim_end_matches_stop) (auto simp: suffix_def append_eq_append_conv2 append_eq_Cons_conv Cons_eq_append_conv)
  finally show ?thesis using True by simp
next
  case False
  then obtain b c where s: "sizes = b @ [c]" "c \<noteq> CHR '' ''"
    using assms by (metis append_butlast_last_id)
  have "\<not> suffix '' .'' (a @ ''% used. '' @ sizes @ ''.'')"
  proof
    assume "suffix '' .'' (a @ ''% used. '' @ sizes @ ''.'')"
    then obtain z where z: "(a @ ''% used. '' @ b) @ [c, CHR ''.''] = z @ '' .''"
      by (auto simp: suffix_def s(1))
    have "[c, CHR ''.''] = '' .''" using z by (rule append_eq_append_conv [THEN iffD1, THEN conjunct2, rotated]) simp
    with s(2) show False by simp
  qed
  then show ?thesis by (simp add: trim_end_matches_stop)
qed

lemma sizes_end: "or_empty (sizes_pair gauges u w) = [] \<or> last (or_empty (sizes_pair gauges u w)) \<noteq> CHR '' ''"
proof -
  have "last (format_value x ''B'' True) = CHR ''B'' \<and> format_value x ''B'' True \<noteq> []" for x
    by (simp add: format_value_def split_beta Let_def strip_prefix_def)
  then show ?thesis by (simp add: or_empty_def sizes_pair_def split: option.split)
qed

lemma sublist_middle: "sublist x (a @ x @ b)"
  by (simp add: sublist_appendI)

text \<open>One check against the reading and the threshold it is about.\<close>

definition check_ok ::
  "metric_gauge list \<Rightarrow> f64 option \<times> f64 \<times> (f64 \<Rightarrow> host_health) \<Rightarrow> string list \<times> nat \<Rightarrow> bool" where
  "check_ok gauges = (\<lambda>(v, limit, verdict) r.
     v = first_value gauges (fst r) \<and> limit = f_of_nat (snd r)
     \<and> (\<forall>x. hh_level (verdict x) = (if r \<in> set problem_readings then ''problem'' else ''busy'')
          \<and> sublist (fmt_f64 0 x) (hh_detail (verdict x))))"

lemma check_okI:
  assumes "v = first_value gauges ms" "limit = f_of_nat n"
    "\<And>x. hh_level (verdict x) = (if (ms, n) \<in> set problem_readings then ''problem'' else ''busy'')"
    "\<And>x. \<exists>a b. hh_detail (verdict x) = a @ fmt_f64 0 x @ b"
  shows "check_ok gauges (v, limit, verdict) (ms, n)"
  using assms by (auto simp: check_ok_def) (metis sublist_middle)

lemma checks_ok: "list_all2 (check_ok gauges) (checks gauges) (problem_readings @ busy_readings)"
proof -
  have or: "or_else a b = first_value gauges [m, m']"
    if "a = gauge_value gauges m" "b = gauge_value gauges m'" for a b m m'
    using that by (simp add: or_else_def split: option.split)
  have one: "gauge_value gauges m = first_value gauges [m]" for m
    by (simp split: option.split)
  have mem: "\<exists>a b. trim_end_matches '' .'' (''Memory is '' @ fmt_f64 0 x @ ''% used. ''
      @ or_empty (sizes_pair gauges u w) @ ''.'') = a @ fmt_f64 0 x @ b" for x u w
  proof -
    obtain rest where "trim_end_matches '' .'' ((''Memory is '' @ fmt_f64 0 x) @ ''% used. ''
        @ or_empty (sizes_pair gauges u w) @ ''.'') = (''Memory is '' @ fmt_f64 0 x) @ ''% used.'' @ rest"
      using memory_sentence [OF sizes_end [of gauges u w], of "''Memory is '' @ fmt_f64 0 x"] by blast
    then show ?thesis by (simp only: append_assoc) blast
  qed
  have rs: "problem_readings @ busy_readings =
      [([''disk_usage''], 90), ([''mem_usage''], 90), ([''pressure_io_60s'', ''pressure_io''], 40),
       ([''pressure_memory_full'', ''pressure_memory''], 20), ([''cpu_temp''], 90), ([''disk_usage''], 80),
       ([''mem_usage''], 85), ([''pressure_cpu_60s'', ''pressure_cpu''], 20), ([''cpu_temp''], 80),
       ([''cpu_usage''], 85)]"
    by (simp add: problem_readings_def busy_readings_def)
  show ?thesis
    unfolding checks_def rs Let_def health_def nearly_full_def filling_up_def working_hard_def
      stalling_def stalling_badly_def running_warm_def overheating_def
    by (intro list.rel_intros check_okI; (rule one refl or [OF refl refl])?;
        unfold host_health.simps; (rule mem)?; (intro exI, rule refl)?; simp add: problem_readings_def)
qed

lemma first_reached_find:
  "list_all2 (check_ok gauges) cs rs \<Longrightarrow>
     (case find (over gauges) rs of
        None \<Rightarrow> first_reached cs = None
      | Some r \<Rightarrow> \<exists>h x. first_reached cs = Some h \<and> first_value gauges (fst r) = Some x
          \<and> hh_level h = (if r \<in> set problem_readings then ''problem'' else ''busy'')
          \<and> sublist (fmt_f64 0 x) (hh_detail h))"
proof (induction cs rs rule: list_all2_induct)
  case (Cons c cs r rs)
  obtain v limit verdict where c: "c = (v, limit, verdict)" by (cases c)
  from Cons.hyps(1) have ok: "v = first_value gauges (fst r)" "limit = f_of_nat (snd r)"
    "hh_level (verdict x) = (if r \<in> set problem_readings then ''problem'' else ''busy'')"
    "sublist (fmt_f64 0 x) (hh_detail (verdict x))" for x
    by (simp_all add: check_ok_def c)
  show ?case
  proof (cases "over gauges r")
    case True
    then obtain x where x: "first_value gauges (fst r) = Some x" "f_le (f_of_nat (snd r)) x"
      by (auto simp: over_def split_beta split: option.splits)
    with ok True show ?thesis by (simp add: c)
  next
    case False
    then have "first_reached (c # cs) = first_reached cs"
      using ok(1,2) by (cases "first_value gauges (fst r)") (simp_all add: c over_def split_beta)
    moreover from False have "find (over gauges) (r # rs) = find (over gauges) rs" by simp
    ultimately show ?thesis using Cons.IH by (simp only:)
  qed
qed simp

text \<open>
  The verdict on a host: it is about the connection unless the host is online, and then about
  the first of ten readings that has reached its threshold, in a fixed order with the five that
  take a host down before the five that merely slow it; such a verdict always carries the size of
  the reading it is about. A host is called well only when no reading has reached its threshold.
\<close>

theorem verdict_worst_first:
  "let h = assess state gauges has_data
   in case state of
        Idle \<Rightarrow> hh_level h = ''checking''
      | Connecting \<Rightarrow> hh_level h = ''checking''
      | Reconnecting _ _ \<Rightarrow> hh_level h = ''offline''
      | Failed message _ \<Rightarrow> hh_level h = ''offline'' \<and> hh_detail h = friendly_failure message
      | Online \<Rightarrow>
          if has_data then
            (case find (over gauges) (problem_readings @ busy_readings) of
               None \<Rightarrow> hh_level h = ''ok'' \<and> h = all_well gauges
             | Some r \<Rightarrow>
                 hh_level h = (if r \<in> set problem_readings then ''problem'' else ''busy'')
                 \<and> (\<exists>x. first_value gauges (fst r) = Some x \<and> sublist (fmt_f64 0 x) (hh_detail h)))
          else hh_level h = ''checking''"
proof -
  have "hh_level (all_well gauges) = ''ok''" by (simp add: all_well_def health_def)
  then show ?thesis
    using first_reached_find [OF checks_ok, of gauges]
    by (auto simp: Let_def assess_def health_def split: connection_state.split option.splits)
qed

end
