(* ===== verification/Snapshot.thy ===== *)
theory Snapshot
  imports Plain
begin

text \<open>
  The published view of one host (\<open>crates/sg-ffi/src/view.rs\<close>, \<open>build_snapshot\<close> of \<open>lib.rs\<close>): the
  simple tiles, and the snapshot whose state and verdict are one value.
\<close>

record simple_tile =
  tl_metric :: string
  tl_name :: string
  tl_value_text :: string
  tl_summary :: string
  tl_fraction :: "f64 option"
  tl_level :: string
  tl_history :: "f64 list"

definition fraction_percent :: "metric_gauge \<Rightarrow> f64 option" where
  "fraction_percent self =
     map_option (\<lambda>m. f_mul (f_div (mg_value self) m) (f_of_nat 100)) (positive (mg_max self))"

definition display_fraction :: "metric_gauge \<Rightarrow> f64 option" where
  "display_fraction self =
     map_option (\<lambda>p. f_clamp (f_div p (f_of_nat 100)) (f_of_nat 0) (f_of_nat 1)) (fraction_percent self)"

definition tile_order :: "string list" where
  "tile_order = [''cpu_usage'', ''mem_usage'', ''disk_usage'']"

text \<open>The sizes of the root filesystem, which belong to its entity.\<close>

definition root_sizes :: "entity_view list \<Rightarrow> f64 option \<times> f64 option" where
  "root_sizes entities =
     (case find (\<lambda>e. ev_kind e = ''fs'' \<and> ev_display e = ''/'') entities of
        Some fs \<Rightarrow> (gauge_value (ev_gauges fs) ''used'', gauge_value (ev_gauges fs) ''total'')
      | None \<Rightarrow> (None, None))"

definition tile_level :: "f64 option \<Rightarrow> string" where
  "tile_level p =
     (case p of
        Some x \<Rightarrow> if f_le (f_of_nat 90) x then ''problem''
                  else if f_le (f_of_nat 80) x then ''busy'' else ''ok''
      | None \<Rightarrow> ''ok'')"

definition simple_tile_of ::
  "metric_gauge list \<Rightarrow> metric_gauge list \<Rightarrow> entity_view list \<Rightarrow> string \<Rightarrow> simple_tile option" where
  "simple_tile_of grid all entities metric =
     (case (find (\<lambda>g. mg_metric g = metric) grid, plain_name metric) of
        (Some g, Some name) \<Rightarrow>
          (let (used, whole) =
             (if metric = ''mem_usage'' then (gauge_value all ''mem_used'', gauge_value all ''mem_total'')
              else if metric = ''disk_usage'' then root_sizes entities
              else (None, None))
           in Some \<lparr>tl_metric = metric, tl_name = name,
                    tl_value_text = format_value (mg_value g) (mg_unit_suffix g) (mg_binary_scaled g),
                    tl_summary = plain_summary g used whole, tl_fraction = display_fraction g,
                    tl_level = tile_level (fraction_percent g), tl_history = mg_history g\<rparr>)
      | _ \<Rightarrow> None)"

definition simple_tiles ::
  "metric_gauge list \<Rightarrow> metric_gauge list \<Rightarrow> entity_view list \<Rightarrow> simple_tile list" where
  "simple_tiles grid all entities = List.map_filter (simple_tile_of grid all entities) tile_order"

section \<open>The snapshot\<close>

record target_snapshot =
  sn_target_id :: string
  sn_state :: connection_state
  sn_display_name :: string
  sn_distro :: string
  sn_kernel :: string
  sn_arch :: string
  sn_cpu_count :: u32
  sn_gauges :: "metric_gauge list"
  sn_detail_groups :: "detail_group list"
  sn_entities :: "entity_view list"
  sn_top_processes :: "process_view list"
  sn_health :: host_health
  sn_simple_tiles :: "simple_tile list"
  sn_source_errors :: "string list"
  sn_last_update_ms :: i64
  sn_round_trips :: u64

definition all_gauges :: "target_snapshot \<Rightarrow> metric_gauge list" where
  "all_gauges self = sn_gauges self @ concat (map dg_gauges (sn_detail_groups self))"

definition set_state :: "connection_state \<Rightarrow> target_snapshot \<Rightarrow> target_snapshot" where
  "set_state state self =
     (let all = all_gauges self
      in self\<lparr>sn_health := assess state all (all \<noteq> []), sn_state := state\<rparr>)"

definition placeholder :: "string \<Rightarrow> string \<Rightarrow> connection_state \<Rightarrow> target_snapshot" where
  "placeholder target_id host state =
     \<lparr>sn_target_id = target_id, sn_state = state, sn_display_name = host, sn_distro = [],
      sn_kernel = [], sn_arch = [], sn_cpu_count = 0, sn_gauges = [], sn_detail_groups = [],
      sn_entities = [], sn_top_processes = [], sn_health = assess state [] False,
      sn_simple_tiles = [], sn_source_errors = [], sn_last_update_ms = 0, sn_round_trips = 0\<rparr>"

definition process_kind :: string where "process_kind = ''proc''"

definition build_snapshot :: "string \<Rightarrow> target_runtime \<Rightarrow> tick \<Rightarrow> i64 \<Rightarrow> target_snapshot" where
  "build_snapshot target_id rt t now =
     (let store = tr_store rt; caps = rt_capabilities rt; host = host_entity rt;
          cpus = (case caps of Some c \<Rightarrow> cap_cpu_count c | None \<Rightarrow> 0);
          (gauges, groups, entities, processes) =
            (case host of
               Some h \<Rightarrow>
                 (host_gauges store (ent_id h), host_details store (ent_id h),
                  map (\<lambda>e. entity_view_of e store)
                    (filter (\<lambda>e. slug (ent_kind e) \<noteq> process_kind) (children_of store (ent_id h))),
                  top_processes store (ent_id h) 12 cpus)
             | None \<Rightarrow> ([], [], [], []));
          state = connection_state_of (tr_state rt);
          all = gauges @ concat (map dg_gauges groups)
      in \<lparr>sn_target_id = target_id, sn_state = state,
          sn_display_name = (case host of Some h \<Rightarrow> ent_display h | None \<Rightarrow> []),
          sn_distro = (case caps of Some c \<Rightarrow> cap_distro c | None \<Rightarrow> []),
          sn_kernel = (case caps of Some c \<Rightarrow> cap_kernel c | None \<Rightarrow> []),
          sn_arch = (case caps of Some c \<Rightarrow> cap_arch c | None \<Rightarrow> []),
          sn_cpu_count = cpus, sn_gauges = gauges, sn_detail_groups = groups,
          sn_entities = entities, sn_top_processes = processes,
          sn_health = assess state all (all \<noteq> []),
          sn_simple_tiles = simple_tiles gauges all entities,
          sn_source_errors = map parse_error_display (tk_errors t), sn_last_update_ms = now,
          sn_round_trips = round_trips rt\<rparr>)"

text \<open>The state a snapshot shows and the verdict it gives are one value.\<close>

definition coherent :: "target_snapshot \<Rightarrow> bool" where
  "coherent self \<longleftrightarrow> sn_health self = assess (sn_state self) (all_gauges self) (all_gauges self \<noteq> [])"

lemma set_state_simps [simp]:
  "sn_state (set_state state self) = state" "sn_gauges (set_state state self) = sn_gauges self"
  "sn_detail_groups (set_state state self) = sn_detail_groups self"
  "all_gauges (set_state state self) = all_gauges self"
  "sn_target_id (set_state state self) = sn_target_id self"
  by (simp_all add: set_state_def all_gauges_def Let_def)

lemma set_state_coherent [simp]: "coherent (set_state state self)"
  by (simp add: coherent_def set_state_def all_gauges_def Let_def)

lemma placeholder_simps [simp]:
  "sn_state (placeholder tid host state) = state" "all_gauges (placeholder tid host state) = []"
  "sn_target_id (placeholder tid host state) = tid"
  by (simp_all add: placeholder_def all_gauges_def)

lemma placeholder_coherent [simp]: "coherent (placeholder tid host state)"
  by (simp add: coherent_def) (simp add: placeholder_def)

lemma build_snapshot_simps [simp]:
  "sn_state (build_snapshot tid rt t now) = connection_state_of (tr_state rt)"
  "sn_target_id (build_snapshot tid rt t now) = tid"
  "coherent (build_snapshot tid rt t now)"
  by (simp_all add: build_snapshot_def coherent_def all_gauges_def Let_def split_beta)

end
