(* ===== verification/Emission.thy ===== *)
theory Emission
  imports Collector
begin

text \<open>
  What the built-in collectors of \<open>crates/sg-collect\<close> share. Each of their \<open>parse\<close> functions
  returns \<open>Ok\<close> and writes to the sink only; it is modelled as the list of those writes, in the
  order the code makes them, and this theory proves once what makes such a source keep the
  contract of a source.
\<close>

section \<open>Writes\<close>

datatype out_op = Emit series_descriptor val | Declare entity

fun run_op :: "out_op \<Rightarrow> sample_sink \<Rightarrow> sample_sink" where
  "run_op (Emit d v) out = sink_emit d v out"
| "run_op (Declare e) out = sink_entity e out"

definition run_ops :: "out_op list \<Rightarrow> sample_sink \<Rightarrow> sample_sink" where
  "run_ops ops out = fold run_op ops out"

definition source_of ::
  "source_descriptor \<Rightarrow> request list \<Rightarrow> (target_ctx \<Rightarrow> responses \<Rightarrow> out_op list) \<Rightarrow> source" where
  "source_of d reqs ops =
     \<lparr>src_descriptor = d, src_requests = \<lambda>_. reqs,
      src_parse = \<lambda>ctx responses out. (run_ops (ops ctx responses) out, Inr ())\<rparr>"

text \<open>What a list of writes contains.\<close>

fun declared :: "out_op list \<Rightarrow> entity list" where
  "declared [] = []"
| "declared (Declare e # ops) = e # declared ops"
| "declared (Emit _ _ # ops) = declared ops"

fun emitted :: "out_op list \<Rightarrow> (series_descriptor \<times> val) list" where
  "emitted [] = []"
| "emitted (Emit d v # ops) = (d, v) # emitted ops"
| "emitted (Declare _ # ops) = emitted ops"

lemma declared_append [simp]: "declared (a @ b) = declared a @ declared b"
  by (induction a rule: declared.induct) simp_all

lemma emitted_append [simp]: "emitted (a @ b) = emitted a @ emitted b"
  by (induction a rule: emitted.induct) simp_all

lemma declared_concat [simp]: "declared (concat xss) = concat (map declared xss)"
  by (induction xss) simp_all

lemma emitted_concat [simp]: "emitted (concat xss) = concat (map emitted xss)"
  by (induction xss) simp_all

lemma declared_map_Emit [simp]: "declared (map (\<lambda>x. Emit (f x) (g x)) xs) = []"
  by (induction xs) simp_all

lemma emitted_map_Emit [simp]: "emitted (map (\<lambda>x. Emit (f x) (g x)) xs) = map (\<lambda>x. (f x, g x)) xs"
  by (induction xs) simp_all

lemma run_ops_fields:
  "sk_entities (run_ops ops out) = sk_entities out @ declared ops"
  "sk_descriptors (run_ops ops out) = sk_descriptors out @ map fst (emitted ops)"
  "sk_samples (run_ops ops out) =
     sk_samples out @ map (\<lambda>(d, v). sample_new (ser_id d) (sk_at out) v) (emitted ops)"
  "sk_at (run_ops ops out) = sk_at out"
proof -
  have "sk_entities (fold run_op ops out) = sk_entities out @ declared ops
    \<and> sk_descriptors (fold run_op ops out) = sk_descriptors out @ map fst (emitted ops)
    \<and> sk_samples (fold run_op ops out) =
        sk_samples out @ map (\<lambda>(d, v). sample_new (ser_id d) (sk_at out) v) (emitted ops)
    \<and> sk_at (fold run_op ops out) = sk_at out"
  proof (induction ops arbitrary: out)
    case (Cons x xs)
    then show ?case by (cases x) simp_all
  qed simp
  then show "sk_entities (run_ops ops out) = sk_entities out @ declared ops"
    "sk_descriptors (run_ops ops out) = sk_descriptors out @ map fst (emitted ops)"
    "sk_samples (run_ops ops out) =
       sk_samples out @ map (\<lambda>(d, v). sample_new (ser_id d) (sk_at out) v) (emitted ops)"
    "sk_at (run_ops ops out) = sk_at out"
    by (simp_all add: run_ops_def)
qed

section \<open>Well-formed writes\<close>

text \<open>The built-in sources write gauges and counters, with numbers; a counter's is unsigned.\<close>

fun val_fits :: "series_kind \<Rightarrow> val \<Rightarrow> bool" where
  "val_fits Counter (Uint _) \<longleftrightarrow> True"
| "val_fits Gauge (Float _) \<longleftrightarrow> True"
| "val_fits Gauge (Uint _) \<longleftrightarrow> True"
| "val_fits Gauge (IntV _) \<longleftrightarrow> True"
| "val_fits _ _ \<longleftrightarrow> False"

text \<open>
  A write of the source described by \<open>d\<close>, given the ids of the host and of the entities that are
  declared somewhere in the same tick.
\<close>

fun op_ok :: "source_descriptor \<Rightarrow> entity_id set \<Rightarrow> out_op \<Rightarrow> bool" where
  "op_ok d ids (Emit s v) \<longleftrightarrow>
     ser_source s = sd_id d \<and> ser_id s = series_of (ser_entity s) (ser_metric s)
     \<and> ser_entity s \<in> ids \<and> val_fits (ser_kind s) v"
| "op_ok d ids (Declare e) \<longleftrightarrow>
     ent_kind e \<in> set (sd_produces d) \<and> (\<exists>p \<in> ids. ent_parent e = Some p)"

definition ops_ok :: "source_descriptor \<Rightarrow> entity_id \<Rightarrow> out_op list \<Rightarrow> bool" where
  "ops_ok d host ops \<longleftrightarrow> list_all (op_ok d (insert host (ent_id ` set (declared ops)))) ops"

lemma op_ok_mono: "op_ok d ids op \<Longrightarrow> ids \<subseteq> ids' \<Longrightarrow> op_ok d ids' op"
  by (cases op) auto

lemma ops_ok_Nil [simp]: "ops_ok d host []"
  by (simp add: ops_ok_def)

lemma ops_ok_append [intro]: "ops_ok d host a \<Longrightarrow> ops_ok d host b \<Longrightarrow> ops_ok d host (a @ b)"
  unfolding ops_ok_def list_all_iff by (auto intro: op_ok_mono)

lemma ops_ok_concat: "list_all (ops_ok d host) xss \<Longrightarrow> ops_ok d host (concat xss)"
  by (induction xss) (auto intro: ops_ok_append)

lemma ops_ok_Emit [simp]:
  "ops_ok d host [Emit s v] \<longleftrightarrow> ser_source s = sd_id d \<and> ser_id s = series_of (ser_entity s) (ser_metric s)
     \<and> ser_entity s = host \<and> val_fits (ser_kind s) v"
  by (simp add: ops_ok_def)

lemma ops_ok_host:
  "list_all (\<lambda>(s, v). ser_source s = sd_id d \<and> ser_id s = series_of (ser_entity s) (ser_metric s)
     \<and> ser_entity s = host \<and> val_fits (ser_kind s) v) (emitted ops) \<Longrightarrow>
   declared ops = [] \<Longrightarrow> ops_ok d host ops"
  unfolding ops_ok_def
  by (induction ops rule: emitted.induct) auto

text \<open>The writes about one entity, which is declared after them.\<close>

fun about :: "source_descriptor \<Rightarrow> entity_id \<Rightarrow> out_op \<Rightarrow> bool" where
  "about d eid (Emit s v) \<longleftrightarrow>
     ser_source s = sd_id d \<and> ser_id s = series_of (ser_entity s) (ser_metric s)
     \<and> ser_entity s = eid \<and> val_fits (ser_kind s) v"
| "about d eid (Declare _) \<longleftrightarrow> False"

lemma ops_ok_entity:
  assumes "list_all (about d (ent_id e)) os"
    and "ent_kind e \<in> set (sd_produces d)" "ent_parent e = Some host"
  shows "ops_ok d host (os @ [Declare e])"
proof -
  have "list_all (op_ok d ids) os" if "ent_id e \<in> ids" for ids
    using assms(1) that by (induction os rule: emitted.induct) auto
  then show ?thesis using assms(2,3) by (simp add: ops_ok_def)
qed

lemma ser_simps [simp]:
  "ser_source (gauge s e m x u) = s" "ser_entity (gauge s e m x u) = e" "ser_metric (gauge s e m x u) = m"
  "ser_id (gauge s e m x u) = series_of e m" "ser_kind (gauge s e m x u) = Gauge"
  "ser_source (counter s e m x u) = s" "ser_entity (counter s e m x u) = e"
  "ser_metric (counter s e m x u) = m" "ser_id (counter s e m x u) = series_of e m"
  "ser_kind (counter s e m x u) = Counter"
  "ser_source (with_max d b) = ser_source d" "ser_entity (with_max d b) = ser_entity d"
  "ser_metric (with_max d b) = ser_metric d" "ser_id (with_max d b) = ser_id d"
  "ser_kind (with_max d b) = ser_kind d"
  "ser_source (with_scale d b) = ser_source d" "ser_entity (with_scale d b) = ser_entity d"
  "ser_metric (with_scale d b) = ser_metric d" "ser_id (with_scale d b) = ser_id d"
  "ser_kind (with_scale d b) = ser_kind d"
  "ser_scale (gauge s e m x u) = unit_scale" "ser_scale (counter s e m x u) = unit_scale"
  "ser_scale (with_scale d b) = b" "ser_scale (with_max d b) = ser_scale d"
  "ser_max (with_max d b) = Some b" "ser_max (with_scale d b) = ser_max d"
  by (simp_all add: ser_defs)

lemma sink_sound_ops:
  assumes "ops_ok d host ops"
  shows "sink_sound {sd_id d} host at_ms (run_ops ops (sink_new at_ms))"
proof -
  let ?ids = "insert host (ent_id ` set (declared ops))"
  have all: "list_all (op_ok d ?ids) ops" using assms by (simp add: ops_ok_def)
  have e: "list_all (\<lambda>(s, v). ser_source s = sd_id d \<and> ser_id s = series_of (ser_entity s) (ser_metric s)
      \<and> ser_entity s \<in> ids) (emitted os)"
    and p: "list_all (\<lambda>e. \<exists>p \<in> ids. ent_parent e = Some p) (declared os)"
    if "list_all (op_ok d ids) os" for ids os
    using that by (induction os rule: emitted.induct) auto
  show ?thesis
    using e [OF all] p [OF all]
    by (auto simp: sink_sound_def run_ops_fields list_all_iff sample_new_def image_image
        intro: rev_image_eqI)
qed

section \<open>The contract\<close>

locale emitting_source =
  fixes d :: source_descriptor
    and reqs :: "request list"
    and ops :: "target_ctx \<Rightarrow> responses \<Rightarrow> out_op list"
  assumes reqs_remote: "r \<in> set reqs \<Longrightarrow> is_remote r \<and> r \<noteq> Exec []"
    and writes_ok: "ops_ok d (ent_id (ctx_host ctx)) (ops ctx responses)"
    and own_answers: "(\<And>r. r \<in> set reqs \<Longrightarrow> responses_text responses r = responses_text responses' r) \<Longrightarrow>
        ops ctx responses = ops ctx responses'"
    and no_answers: "ops ctx [] = []"
begin

lemma keeps_contract: "sound_source (source_of d reqs ops)"
proof
  fix r ctx
  assume "r \<in> set (src_requests (source_of d reqs ops) ctx)"
  then show "is_remote r \<and> r \<noteq> Exec []" using reqs_remote by (simp add: source_of_def)
next
  fix ctx at_ms responses
  show "sink_sound {sd_id (src_descriptor (source_of d reqs ops))} (ent_id (ctx_host ctx)) at_ms
      (fst (src_parse (source_of d reqs ops) ctx responses (sink_new at_ms)))"
    using sink_sound_ops [OF writes_ok] by (simp add: source_of_def)
next
  fix ctx responses responses' at_ms
  assume eq: "\<And>r. r \<in> set (src_requests (source_of d reqs ops) ctx) \<Longrightarrow>
      responses_get responses r = responses_get responses' r"
  have "responses_text responses r = responses_text responses' r" if "r \<in> set reqs" for r
    using eq [of r] that by (simp add: source_of_def responses_text_def responses_get_def)
  then show "src_parse (source_of d reqs ops) ctx responses (sink_new at_ms) =
      src_parse (source_of d reqs ops) ctx responses' (sink_new at_ms)"
    using own_answers [of responses responses'] by (simp add: source_of_def)
next
  fix ctx at_ms
  show "src_parse (source_of d reqs ops) ctx [] (sink_new at_ms) = (sink_new at_ms, Inr ())"
    by (simp add: source_of_def no_answers run_ops_def)
qed

end

sublocale emitting_source \<subseteq> sound_source "source_of d reqs ops"
  by (rule keeps_contract)

text \<open>The helpers the parsers share.\<close>

lemma responses_text_Nil [simp]: "responses_text [] r = None"
  by (simp add: responses_text_def)

definition u64_or_zero :: "string \<Rightarrow> u64" where
  "u64_or_zero s = (case parse_u64 s of Some v \<Rightarrow> v | None \<Rightarrow> 0)"

text \<open>The set a listing with one name on each line denotes.\<close>

definition names_of :: "string option \<Rightarrow> string set" where
  "names_of t = (case t of Some s \<Rightarrow> set (filter (\<lambda>l. l \<noteq> []) (map trim (lines s))) | None \<Rightarrow> {})"

text \<open>The numbers of a row, in order; what is not a number is passed over.\<close>

definition numbers :: "string \<Rightarrow> u64 list" where
  "numbers s = List.map_filter parse_u64 (split_whitespace s)"

definition show_bool :: "bool \<Rightarrow> string" where
  "show_bool b = (if b then ''true'' else ''false'')"

end
