(* ===== verification/Load.thy ===== *)
theory Load
  imports Emission
begin

text \<open>
  Load averages and uptime (\<open>crates/sg-collect/src/load.rs\<close>).
\<close>

record load_avg =
  la_one :: f64
  la_five :: f64
  la_fifteen :: f64
  la_runnable :: u64
  la_total_procs :: u64

definition parse_loadavg :: "string \<Rightarrow> load_avg option" where
  "parse_loadavg text =
     (case split_whitespace text of
        a # b # c # more_fields \<Rightarrow>
          (case (parse_f64 a, parse_f64 b, parse_f64 c) of
             (Some one, Some five, Some fifteen) \<Rightarrow>
               (let load = \<lparr>la_one = one, la_five = five, la_fifteen = fifteen,
                            la_runnable = 0, la_total_procs = 0\<rparr>
                in case more_fields of
                     [] \<Rightarrow> Some load
                   | f # _ \<Rightarrow>
                       (case split_once (CHR ''/'') f of
                          None \<Rightarrow> Some load
                        | Some (x, y) \<Rightarrow>
                            Some (load\<lparr>la_runnable := u64_or_zero x, la_total_procs := u64_or_zero y\<rparr>)))
           | _ \<Rightarrow> None)
      | _ \<Rightarrow> None)"

definition parse_uptime :: "string \<Rightarrow> f64 option" where
  "parse_uptime text =
     (case split_whitespace text of [] \<Rightarrow> None | f # _ \<Rightarrow> parse_f64 f)"

definition load_descriptor :: source_descriptor where
  "load_descriptor =
     \<lparr>sd_id = ''proc.load'', sd_display = ''Load & uptime'',
      sd_description = ''Load averages, process counts and uptime'', sd_produces = [Host],
      sd_requires = requirements_path ''/proc/loadavg'', sd_default_enabled = True\<rparr>"

definition loadavg_request :: request where "loadavg_request = ReadFile ''/proc/loadavg''"
definition uptime_request :: request where "uptime_request = ReadFile ''/proc/uptime''"

definition load_requests :: "request list" where
  "load_requests = [loadavg_request, uptime_request]"

definition load_ops :: "target_ctx \<Rightarrow> responses \<Rightarrow> out_op list" where
  "load_ops ctx responses =
     (let sid = sd_id load_descriptor; host = ent_id (ctx_host ctx)
      in (case Option.bind (responses_text responses loadavg_request) parse_loadavg of
            None \<Rightarrow> []
          | Some load \<Rightarrow>
              (let cores = f_of_nat (unat (max (cap_cpu_count (ctx_caps ctx)) 1))
               in map (\<lambda>(metric, display, v).
                      Emit (with_max (gauge sid host metric display Count) cores) (Float v))
                    [(''load1'', ''Load 1m'', la_one load), (''load5'', ''Load 5m'', la_five load),
                     (''load15'', ''Load 15m'', la_fifteen load)]
                  @ (if 0 < la_total_procs load
                     then [Emit (gauge sid host ''procs_total'' ''Processes'' Count)
                             (Uint (la_total_procs load))]
                     else [])))
         @ (case Option.bind (responses_text responses uptime_request) parse_uptime of
              None \<Rightarrow> []
            | Some seconds \<Rightarrow> [Emit (gauge sid host ''uptime'' ''Uptime'' Seconds) (Float seconds)]))"

definition load_source :: source where
  "load_source = source_of load_descriptor load_requests load_ops"

interpretation load_emits: emitting_source load_descriptor load_requests load_ops
proof
  show "is_remote r \<and> r \<noteq> Exec []" if "r \<in> set load_requests" for r
    using that by (auto simp: load_requests_def loadavg_request_def uptime_request_def)
  show "ops_ok load_descriptor (ent_id (ctx_host ctx)) (load_ops ctx responses)" for ctx responses
    by (rule ops_ok_host) (auto simp: load_ops_def Let_def load_descriptor_def split: option.split)
  show "load_ops ctx responses = load_ops ctx responses'"
    if "\<And>r. r \<in> set load_requests \<Longrightarrow> responses_text responses r = responses_text responses' r"
    for ctx responses responses'
    using that [of loadavg_request] that [of uptime_request] by (simp add: load_ops_def load_requests_def)
  show "load_ops ctx [] = []" for ctx by (simp add: load_ops_def)
qed

end
