(* ===== verification/Memory.thy ===== *)
theory Memory
  imports Emission
begin

text \<open>
  Memory and swap from \<open>/proc/meminfo\<close> (\<open>crates/sg-collect/src/memory.rs\<close>).
\<close>

text \<open>The field of one line, if it has one: the suffix decides whether it is in KiB.\<close>

definition meminfo_line :: "string \<Rightarrow> (string \<times> u64) option" where
  "meminfo_line line =
     (case split_once (CHR '':'') line of
        None \<Rightarrow> None
      | Some (key, rest) \<Rightarrow>
          (case split_whitespace rest of
             [] \<Rightarrow> None
           | v # parts \<Rightarrow>
               (case parse_u64 v of
                  None \<Rightarrow> None
                | Some n \<Rightarrow>
                    Some (key, (case parts of
                       u # _ \<Rightarrow> if u = ''kB'' \<or> u = ''KB'' then sat_mul n 1024 else n
                     | [] \<Rightarrow> n)))))"

fun meminfo_loop :: "string list \<Rightarrow> (string, u64) hmap \<Rightarrow> (string, u64) hmap" where
  "meminfo_loop [] out = out"
| "meminfo_loop (l # ls) out =
     (case meminfo_line l of
        None \<Rightarrow> meminfo_loop ls out
      | Some (k, n) \<Rightarrow> meminfo_loop ls (hm_insert k n out))"

definition parse_meminfo :: "string \<Rightarrow> (string, u64) hmap" where
  "parse_meminfo text = meminfo_loop (lines text) []"

definition memory_descriptor :: source_descriptor where
  "memory_descriptor =
     \<lparr>sd_id = ''proc.memory'', sd_display = ''Memory'',
      sd_description = ''Memory and swap usage from /proc/meminfo'', sd_produces = [Host],
      sd_requires = requirements_path ''/proc/meminfo'', sd_default_enabled = True\<rparr>"

definition memory_request :: request where "memory_request = ReadFile ''/proc/meminfo''"

definition mem_or_zero :: "(string, u64) hmap \<Rightarrow> string \<Rightarrow> u64" where
  "mem_or_zero mem k = (case hm_get mem k of Some v \<Rightarrow> v | None \<Rightarrow> 0)"

definition mem_available :: "(string, u64) hmap \<Rightarrow> u64 \<Rightarrow> u64" where
  "mem_available mem tot =
     min (case hm_get mem ''MemAvailable'' of
            Some v \<Rightarrow> v
          | None \<Rightarrow> mem_or_zero mem ''MemFree'' + mem_or_zero mem ''Buffers'' + mem_or_zero mem ''Cached'')
       tot"

definition memory_ops_of :: "source_id \<Rightarrow> entity_id \<Rightarrow> (string, u64) hmap \<Rightarrow> out_op list" where
  "memory_ops_of sid host mem =
     (case hm_get mem ''MemTotal'' of
        None \<Rightarrow> []
      | Some tot \<Rightarrow>
          if tot = 0 then []
          else
            (let available = mem_available mem tot; used = tot - available
             in [Emit (gauge sid host ''mem_usage'' ''Memory'' Percent) (Float (percent used tot)),
                 Emit (with_max (gauge sid host ''mem_used'' ''Used'' Bytes) (f_of_nat (unat tot)))
                   (Uint used),
                 Emit (gauge sid host ''mem_total'' ''Total'' Bytes) (Uint tot),
                 Emit (gauge sid host ''mem_available'' ''Available'' Bytes) (Uint available)]
                @ concat (map (\<lambda>(field, metric, display).
                      case hm_get mem field of
                        Some v \<Rightarrow> [Emit (gauge sid host metric display Bytes) (Uint v)]
                      | None \<Rightarrow> [])
                    [(''MemFree'', ''mem_free'', ''Free''), (''Cached'', ''mem_cached'', ''Cached''),
                     (''Buffers'', ''mem_buffers'', ''Buffers'')])
                @ (case hm_get mem ''SwapTotal'' of
                     None \<Rightarrow> []
                   | Some swap_total \<Rightarrow>
                       if swap_total = 0 then []
                       else
                         (let swap_free = min (mem_or_zero mem ''SwapFree'') swap_total;
                              swap_used = swap_total - swap_free
                          in [Emit (gauge sid host ''swap_usage'' ''Swap'' Percent)
                                (Float (percent swap_used swap_total)),
                              Emit (with_max (gauge sid host ''swap_used'' ''Swap used'' Bytes)
                                  (f_of_nat (unat swap_total))) (Uint swap_used),
                              Emit (gauge sid host ''swap_total'' ''Swap total'' Bytes)
                                (Uint swap_total)]))))"

definition memory_ops :: "target_ctx \<Rightarrow> responses \<Rightarrow> out_op list" where
  "memory_ops ctx responses =
     (case responses_text responses memory_request of
        None \<Rightarrow> []
      | Some text \<Rightarrow>
          memory_ops_of (sd_id memory_descriptor) (ent_id (ctx_host ctx)) (parse_meminfo text))"

definition memory_source :: source where
  "memory_source = source_of memory_descriptor [memory_request] memory_ops"

lemma memory_ops_host:
  "list_all (\<lambda>(s, v). ser_source s = sid \<and> ser_id s = series_of (ser_entity s) (ser_metric s)
     \<and> ser_entity s = host \<and> val_fits (ser_kind s) v) (emitted (memory_ops_of sid host mem))
   \<and> declared (memory_ops_of sid host mem) = []"
  by (auto simp: memory_ops_of_def Let_def split: option.split)

interpretation memory_emits: emitting_source memory_descriptor "[memory_request]" memory_ops
proof
  show "is_remote r \<and> r \<noteq> Exec []" if "r \<in> set [memory_request]" for r
    using that by (simp add: memory_request_def)
  show "ops_ok memory_descriptor (ent_id (ctx_host ctx)) (memory_ops ctx responses)" for ctx responses
    using memory_ops_host by (auto simp: memory_ops_def intro!: ops_ok_host split: option.split)
  show "memory_ops ctx responses = memory_ops ctx responses'"
    if "\<And>r. r \<in> set [memory_request] \<Longrightarrow> responses_text responses r = responses_text responses' r"
    for ctx responses responses'
    using that [of memory_request] by (simp add: memory_ops_def)
  show "memory_ops ctx [] = []" for ctx by (simp add: memory_ops_def)
qed

text \<open>
  C22: what the memory collector writes is consistent, whatever the table says: unless it writes
  nothing at all, the total is positive, used and available memory add up to it, the usage is a
  percentage between 0 and 100, and the swap figures, when written, are consistent too. A table
  whose parts exceed its total cannot make a negative or an overfull gauge.
\<close>

theorem memory_figures_consistent:
  "memory_ops ctx responses = []
   \<or> (\<exists>all used available usage rest swap.
        map (\<lambda>(s, v). (ser_metric s, v)) (emitted (memory_ops ctx responses)) =
          [(''mem_usage'', Float usage), (''mem_used'', Uint used), (''mem_total'', Uint all),
           (''mem_available'', Uint available)] @ rest @ swap
        \<and> 0 < all \<and> unat used + unat available = unat all \<and> f_upto 100 usage
        \<and> fst ` set rest \<subseteq> {''mem_free'', ''mem_cached'', ''mem_buffers''}
        \<and> (swap = [] \<or> (\<exists>su st sp. swap = [(''swap_usage'', Float sp), (''swap_used'', Uint su),
              (''swap_total'', Uint st)] \<and> 0 < st \<and> su \<le> st \<and> f_upto 100 sp)))"
proof (cases "memory_ops ctx responses = []")
  case False
  then obtain tab where tab: "responses_text responses memory_request = Some tab"
    by (auto simp: memory_ops_def split: option.splits)
  define mem where "mem = parse_meminfo tab"
  from False tab obtain all where all: "hm_get mem ''MemTotal'' = Some all" "all \<noteq> 0"
    by (auto simp: memory_ops_def memory_ops_of_def mem_def split: option.splits if_splits)
  define available where "available = mem_available mem all"
  have le: "available \<le> all" by (simp add: available_def mem_available_def)
  then have parts: "unat (all - available) + unat available = unat all"
    by (metis add.commute diff_add_cancel le_add_diff_inverse unat_sub word_le_nat_alt)
  have used: "all - available \<le> all" using parts by (simp add: word_le_nat_alt)
  let ?rest = "concat (map (\<lambda>(field, metric, display). case hm_get mem field of
      Some v \<Rightarrow> [(metric, Uint v)] | None \<Rightarrow> [])
    [(''MemFree'', ''mem_free'', ''Free''), (''Cached'', ''mem_cached'', ''Cached''),
     (''Buffers'', ''mem_buffers'', ''Buffers'')])"
  let ?swap = "case hm_get mem ''SwapTotal'' of None \<Rightarrow> [] | Some t \<Rightarrow> if t = 0 then [] else
      (let u = t - min (mem_or_zero mem ''SwapFree'') t
       in [(''swap_usage'', Float (percent u t)), (''swap_used'', Uint u), (''swap_total'', Uint t)])"
  have swap: "?swap = [] \<or> (\<exists>su st sp. ?swap = [(''swap_usage'', Float sp), (''swap_used'', Uint su),
      (''swap_total'', Uint st)] \<and> 0 < st \<and> su \<le> st \<and> f_upto 100 sp)"
  proof (cases "hm_get mem ''SwapTotal''")
    case (Some t)
    have "t - min (mem_or_zero mem ''SwapFree'') t \<le> t"
      by (metis min.cobounded2 word_sub_le)
    with Some show ?thesis
      by (auto simp: Let_def word_gt_0 intro!: percent_bounds)
  qed simp
  have "map (\<lambda>(s, v). (ser_metric s, v)) (emitted (memory_ops ctx responses)) =
      [(''mem_usage'', Float (percent (all - available) all)), (''mem_used'', Uint (all - available)),
       (''mem_total'', Uint all), (''mem_available'', Uint available)] @ ?rest @ ?swap"
    using tab all by (simp add: memory_ops_def memory_ops_of_def mem_def available_def Let_def split: option.split)
  moreover have "fst ` set ?rest \<subseteq> {''mem_free'', ''mem_cached'', ''mem_buffers''}"
    by (auto split: option.splits)
  moreover have "f_upto 100 (percent (all - available) all)"
    by (rule percent_bounds [OF used all(2)])
  ultimately show ?thesis
    using swap parts all(2) unfolding word_gt_0 by blast
qed simp

end
