(* ===== verification/Tcp.thy ===== *)
theory Tcp
  imports Emission
begin

text \<open>
  Socket and TCP statistics (\<open>crates/sg-collect/src/tcp.rs\<close>), from the two tables the kernel
  prints: name and value pairs, and a header line followed by a value line.
\<close>

definition entry_or_empty :: "('k, ('f, 'v) hmap) hmap \<Rightarrow> 'k \<Rightarrow> ('f, 'v) hmap" where
  "entry_or_empty m k = (case hm_get m k of Some x \<Rightarrow> x | None \<Rightarrow> [])"

fun sockstat_pairs :: "string list \<Rightarrow> (string, u64) hmap \<Rightarrow> (string, u64) hmap" where
  "sockstat_pairs (n # v # ps) entry =
     sockstat_pairs ps (case parse_u64 v of Some x \<Rightarrow> hm_insert n x entry | None \<Rightarrow> entry)"
| "sockstat_pairs _ entry = entry"

fun sockstat_loop ::
  "string list \<Rightarrow> (string, (string, u64) hmap) hmap \<Rightarrow> (string, (string, u64) hmap) hmap" where
  "sockstat_loop [] out = out"
| "sockstat_loop (l # ls) out =
     (case split_once (CHR '':'') l of
        None \<Rightarrow> sockstat_loop ls out
      | Some (proto, rest) \<Rightarrow>
          sockstat_loop ls
            (hm_insert (trim proto)
              (sockstat_pairs (split_whitespace rest) (entry_or_empty out (trim proto))) out))"

definition parse_sockstat :: "string \<Rightarrow> (string, (string, u64) hmap) hmap" where
  "parse_sockstat text = sockstat_loop (lines text) []"

fun snmp_values :: "(string \<times> string) list \<Rightarrow> (string, i64) hmap \<Rightarrow> (string, i64) hmap" where
  "snmp_values [] entry = entry"
| "snmp_values ((name, v) # nvs) entry =
     snmp_values nvs (case parse_i64 v of Some x \<Rightarrow> hm_insert name x entry | None \<Rightarrow> entry)"

fun snmp_loop ::
  "string list \<Rightarrow> (string, string list) hmap \<Rightarrow> (string, (string, i64) hmap) hmap
    \<Rightarrow> (string, (string, i64) hmap) hmap" where
  "snmp_loop [] headers out = out"
| "snmp_loop (l # ls) headers out =
     (case split_once (CHR '':'') l of
        None \<Rightarrow> snmp_loop ls headers out
      | Some (proto0, rest) \<Rightarrow>
          (let proto = trim proto0; cols = split_whitespace rest
           in case hm_get headers proto of
                None \<Rightarrow> snmp_loop ls (hm_insert proto cols headers) out
              | Some names \<Rightarrow>
                  snmp_loop ls headers
                    (hm_insert proto (snmp_values (zip names cols) (entry_or_empty out proto)) out)))"

definition parse_snmp :: "string \<Rightarrow> (string, (string, i64) hmap) hmap" where
  "parse_snmp text = snmp_loop (lines text) [] []"

definition tcp_descriptor :: source_descriptor where
  "tcp_descriptor =
     \<lparr>sd_id = ''proc.tcp'', sd_display = ''Sockets & TCP'',
      sd_description = ''Socket counts, established connections and TCP segment rates'',
      sd_produces = [Host], sd_requires = requirements_path ''/proc/net/sockstat'',
      sd_default_enabled = True\<rparr>"

definition sockstat_request :: request where "sockstat_request = ReadFile ''/proc/net/sockstat''"
definition snmp_request :: request where "snmp_request = ReadFile ''/proc/net/snmp''"

definition tcp_requests :: "request list" where
  "tcp_requests = [sockstat_request, snmp_request]"

definition sockstat_ops ::
  "source_id \<Rightarrow> entity_id \<Rightarrow> (string, (string, u64) hmap) hmap \<Rightarrow> out_op list" where
  "sockstat_ops sid host sockstat =
     (case Option.bind (hm_get sockstat ''sockets'') (\<lambda>s. hm_get s ''used'') of
        Some used \<Rightarrow> [Emit (gauge sid host ''sockets'' ''Sockets'' Count) (Uint used)]
      | None \<Rightarrow> [])
     @ concat (map (\<lambda>(proto, field, metric, display).
         case Option.bind (hm_get sockstat proto) (\<lambda>s. hm_get s field) of
           Some v \<Rightarrow> [Emit (gauge sid host metric display Count) (Uint v)]
         | None \<Rightarrow> [])
       [(''TCP'', ''inuse'', ''tcp_inuse'', ''TCP in use''),
        (''TCP'', ''tw'', ''tcp_timewait'', ''TCP time-wait''),
        (''TCP'', ''orphan'', ''tcp_orphan'', ''TCP orphaned''),
        (''UDP'', ''inuse'', ''udp_inuse'', ''UDP in use'')])"

text \<open>\<open>u64::try_from\<close>: a negative number has no counter.\<close>

definition u64_try_from :: "i64 \<Rightarrow> u64 option" where
  "u64_try_from v = (if 0 \<le> sint v then Some v else None)"

definition snmp_ops :: "source_id \<Rightarrow> entity_id \<Rightarrow> (string, (string, i64) hmap) hmap \<Rightarrow> out_op list" where
  "snmp_ops sid host snmp =
     (case hm_get snmp ''Tcp'' of
        None \<Rightarrow> []
      | Some tcp \<Rightarrow>
          (case hm_get tcp ''CurrEstab'' of
             Some established \<Rightarrow>
               [Emit (gauge sid host ''tcp_established'' ''Established'' Count) (IntV established)]
           | None \<Rightarrow> [])
          @ concat (map (\<lambda>(field, metric, display).
              case Option.bind (hm_get tcp field) u64_try_from of
                Some v \<Rightarrow> [Emit (counter sid host metric display Count) (Uint v)]
              | None \<Rightarrow> [])
            [(''InSegs'', ''tcp_in_segs'', ''Segments in''),
             (''OutSegs'', ''tcp_out_segs'', ''Segments out''),
             (''RetransSegs'', ''tcp_retrans'', ''Retransmits''),
             (''ActiveOpens'', ''tcp_active_opens'', ''Active opens''),
             (''PassiveOpens'', ''tcp_passive_opens'', ''Passive opens'')]))"

definition tcp_ops :: "target_ctx \<Rightarrow> responses \<Rightarrow> out_op list" where
  "tcp_ops ctx responses =
     (let sid = sd_id tcp_descriptor; host = ent_id (ctx_host ctx)
      in (case map_option parse_sockstat (responses_text responses sockstat_request) of
            Some sockstat \<Rightarrow> sockstat_ops sid host sockstat | None \<Rightarrow> [])
         @ (case map_option parse_snmp (responses_text responses snmp_request) of
              Some snmp \<Rightarrow> snmp_ops sid host snmp | None \<Rightarrow> []))"

definition tcp_source :: source where
  "tcp_source = source_of tcp_descriptor tcp_requests tcp_ops"

lemma sockstat_ops_ok: "ops_ok tcp_descriptor host (sockstat_ops (sd_id tcp_descriptor) host sockstat)"
  unfolding sockstat_ops_def
  by (intro ops_ok_append ops_ok_concat) (simp_all split: option.split)

lemma snmp_ops_ok: "ops_ok tcp_descriptor host (snmp_ops (sd_id tcp_descriptor) host snmp)"
proof (cases "hm_get snmp ''Tcp''")
  case (Some t)
  then have "snmp_ops (sd_id tcp_descriptor) host snmp = snmp_ops (sd_id tcp_descriptor) host [(''Tcp'', t)]"
    by (simp add: snmp_ops_def)
  also have "ops_ok tcp_descriptor host \<dots>"
    unfolding snmp_ops_def map_of.simps fun_upd_same fst_conv snd_conv option.case
    by (intro ops_ok_append ops_ok_concat) (simp_all split: option.split)
  finally show ?thesis .
qed (simp add: snmp_ops_def)

interpretation tcp_emits: emitting_source tcp_descriptor tcp_requests tcp_ops
proof
  show "is_remote r \<and> r \<noteq> Exec []" if "r \<in> set tcp_requests" for r
    using that by (auto simp: tcp_requests_def sockstat_request_def snmp_request_def)
  show "ops_ok tcp_descriptor (ent_id (ctx_host ctx)) (tcp_ops ctx responses)" for ctx responses
    using sockstat_ops_ok snmp_ops_ok by (auto simp: tcp_ops_def Let_def split: option.split)
  show "tcp_ops ctx responses = tcp_ops ctx responses'"
    if "\<And>r. r \<in> set tcp_requests \<Longrightarrow> responses_text responses r = responses_text responses' r"
    for ctx responses responses'
    using that [of sockstat_request] that [of snmp_request] by (simp add: tcp_ops_def tcp_requests_def)
  show "tcp_ops ctx [] = []" for ctx by (simp add: tcp_ops_def)
qed

end
