(* ===== verification/Pressure.thy ===== *)
theory Pressure
  imports Emission
begin

text \<open>
  Pressure stall information (\<open>crates/sg-collect/src/pressure.rs\<close>).
\<close>

record stall =
  st_avg10 :: f64
  st_avg60 :: f64
  st_avg300 :: f64

definition stall_default :: stall where
  "stall_default = \<lparr>st_avg10 = f_of_nat 0, st_avg60 = f_of_nat 0, st_avg300 = f_of_nat 0\<rparr>"

record pressure =
  pr_some :: stall
  pr_full :: "stall option"

definition pressure_default :: pressure where
  "pressure_default = \<lparr>pr_some = stall_default, pr_full = None\<rparr>"

definition stall_field :: "string \<Rightarrow> stall \<Rightarrow> stall" where
  "stall_field field s =
     (case split_once (CHR ''='') field of
        None \<Rightarrow> s
      | Some (key, v) \<Rightarrow>
          (case parse_f64 v of
             None \<Rightarrow> s
           | Some x \<Rightarrow>
               if key = ''avg10'' then s\<lparr>st_avg10 := x\<rparr>
               else if key = ''avg60'' then s\<lparr>st_avg60 := x\<rparr>
               else if key = ''avg300'' then s\<lparr>st_avg300 := x\<rparr> else s))"

definition pressure_line :: "string \<Rightarrow> pressure \<Rightarrow> pressure" where
  "pressure_line line p =
     (case split_whitespace line of
        [] \<Rightarrow> p
      | kind # kvs \<Rightarrow>
          (let s = fold stall_field kvs stall_default
           in if kind = ''some'' then p\<lparr>pr_some := s\<rparr>
              else if kind = ''full'' then p\<lparr>pr_full := Some s\<rparr> else p))"

definition parse_pressure :: "string \<Rightarrow> pressure" where
  "parse_pressure text = fold pressure_line (lines text) pressure_default"

definition resources :: "(string \<times> string \<times> string) list" where
  "resources =
     [(''cpu'', ''/proc/pressure/cpu'', ''CPU''), (''memory'', ''/proc/pressure/memory'', ''Memory''),
      (''io'', ''/proc/pressure/io'', ''I/O'')]"

definition pressure_descriptor :: source_descriptor where
  "pressure_descriptor =
     \<lparr>sd_id = ''proc.pressure'', sd_display = ''Pressure'',
      sd_description = ''Time spent stalled waiting for CPU, memory or I/O'', sd_produces = [Host],
      sd_requires = requirements_path ''/proc/pressure/cpu'', sd_default_enabled = True\<rparr>"

definition pressure_requests :: "request list" where
  "pressure_requests = map (\<lambda>(_, path, _). ReadFile path) resources"

definition pressure_resource_ops ::
  "source_id \<Rightarrow> entity_id \<Rightarrow> string \<Rightarrow> string \<Rightarrow> pressure \<Rightarrow> out_op list" where
  "pressure_resource_ops sid host key display p =
     [Emit (gauge sid host (''pressure_'' @ key) (display @ '' pressure'') Percent)
        (Float (st_avg10 (pr_some p))),
      Emit (gauge sid host (''pressure_'' @ key @ ''_60s'') (display @ '' pressure, 1 min'') Percent)
        (Float (st_avg60 (pr_some p)))]
     @ (case pr_full p of
          None \<Rightarrow> []
        | Some full \<Rightarrow>
            [Emit (gauge sid host (''pressure_'' @ key @ ''_full'') (display @ '' fully stalled'') Percent)
               (Float (st_avg10 full))])"

definition pressure_ops :: "target_ctx \<Rightarrow> responses \<Rightarrow> out_op list" where
  "pressure_ops ctx responses =
     concat (map (\<lambda>(key, path, display).
         case responses_text responses (ReadFile path) of
           None \<Rightarrow> []
         | Some text \<Rightarrow>
             pressure_resource_ops (sd_id pressure_descriptor) (ent_id (ctx_host ctx)) key display
               (parse_pressure text))
       resources)"

definition pressure_source :: source where
  "pressure_source = source_of pressure_descriptor pressure_requests pressure_ops"

interpretation pressure_emits: emitting_source pressure_descriptor pressure_requests pressure_ops
proof
  show "is_remote r \<and> r \<noteq> Exec []" if "r \<in> set pressure_requests" for r
    using that by (auto simp: pressure_requests_def resources_def)
  have "ops_ok pressure_descriptor host
      (pressure_resource_ops (sd_id pressure_descriptor) host key display p)" for host key display p
    by (rule ops_ok_host) (auto simp: pressure_resource_ops_def split: option.split)
  then show "ops_ok pressure_descriptor (ent_id (ctx_host ctx)) (pressure_ops ctx responses)"
    for ctx responses
    unfolding pressure_ops_def
    by (intro ops_ok_concat) (auto simp: list_all_iff split: option.split)
  show "pressure_ops ctx responses = pressure_ops ctx responses'"
    if "\<And>r. r \<in> set pressure_requests \<Longrightarrow> responses_text responses r = responses_text responses' r"
    for ctx responses responses'
    using that by (simp add: pressure_ops_def pressure_requests_def resources_def)
  show "pressure_ops ctx [] = []" for ctx by (simp add: pressure_ops_def resources_def)
qed

end
