(* ===== verification/Cpu.thy ===== *)
theory Cpu
  imports Emission
begin

text \<open>
  CPU utilisation from \<open>/proc/stat\<close> (\<open>crates/sg-collect/src/cpu.rs\<close>).
\<close>

record cpu_times =
  ct_user :: u64
  ct_nice :: u64
  ct_system :: u64
  ct_idle :: u64
  ct_iowait :: u64
  ct_irq :: u64
  ct_softirq :: u64
  ct_steal :: u64

definition cpu_times_default :: cpu_times where
  "cpu_times_default =
     \<lparr>ct_user = 0, ct_nice = 0, ct_system = 0, ct_idle = 0, ct_iowait = 0, ct_irq = 0,
      ct_softirq = 0, ct_steal = 0\<rparr>"

definition busy :: "cpu_times \<Rightarrow> u64" where
  "busy self = ct_user self + ct_nice self + ct_system self + ct_irq self + ct_softirq self + ct_steal self"

definition total_ticks :: "cpu_times \<Rightarrow> u64" where
  "total_ticks self = busy self + ct_idle self + ct_iowait self"

definition nth_or_zero :: "u64 list \<Rightarrow> nat \<Rightarrow> u64" where
  "nth_or_zero ns i = (if i < length ns then ns ! i else 0)"

definition parse_cpu_times :: "string \<Rightarrow> cpu_times" where
  "parse_cpu_times s =
     (let n = nth_or_zero (numbers s)
      in \<lparr>ct_user = n 0, ct_nice = n 1, ct_system = n 2, ct_idle = n 3, ct_iowait = n 4, ct_irq = n 5,
          ct_softirq = n 6, ct_steal = n 7\<rparr>)"

record proc_stat =
  ps_total :: cpu_times
  ps_cores :: "(u32 \<times> cpu_times) list"
  ps_context_switches :: "u64 option"
  ps_processes :: "u64 option"
  ps_running :: "u64 option"
  ps_blocked :: "u64 option"

definition proc_stat_default :: proc_stat where
  "proc_stat_default =
     \<lparr>ps_total = cpu_times_default, ps_cores = [], ps_context_switches = None, ps_processes = None,
      ps_running = None, ps_blocked = None\<rparr>"

definition proc_stat_line :: "string \<Rightarrow> proc_stat \<Rightarrow> proc_stat" where
  "proc_stat_line line out =
     (case split_once_ws line of
        None \<Rightarrow> out
      | Some (key, rest) \<Rightarrow>
          if key = ''cpu'' then out\<lparr>ps_total := parse_cpu_times rest\<rparr>
          else if key = ''ctxt'' then out\<lparr>ps_context_switches := parse_u64 (trim rest)\<rparr>
          else if key = ''processes'' then out\<lparr>ps_processes := parse_u64 (trim rest)\<rparr>
          else if key = ''procs_running'' then out\<lparr>ps_running := parse_u64 (trim rest)\<rparr>
          else if key = ''procs_blocked'' then out\<lparr>ps_blocked := parse_u64 (trim rest)\<rparr>
          else
            (case Option.bind (strip_prefix ''cpu'' key) parse_u32 of
               Some index \<Rightarrow> out\<lparr>ps_cores := ps_cores out @ [(index, parse_cpu_times rest)]\<rparr>
             | None \<Rightarrow> out))"

definition parse_proc_stat :: "string \<Rightarrow> proc_stat" where
  "parse_proc_stat text = fold proc_stat_line (lines text) proc_stat_default"

definition cpu_descriptor :: source_descriptor where
  "cpu_descriptor =
     \<lparr>sd_id = ''proc.cpu'', sd_display = ''CPU'',
      sd_description = ''Per-core and aggregate CPU utilisation from /proc/stat'',
      sd_produces = [CpuCore], sd_requires = requirements_path ''/proc/stat'',
      sd_default_enabled = True\<rparr>"

definition cpu_request :: request where "cpu_request = ReadFile ''/proc/stat''"

definition per_core_scale :: "capabilities \<Rightarrow> f64" where
  "per_core_scale caps = f_div (f_of_nat 100) (f_of_nat (unat (cap_clock_ticks caps)))"

definition aggregate_scale :: "capabilities \<Rightarrow> proc_stat \<Rightarrow> f64" where
  "aggregate_scale caps stat =
     f_div (per_core_scale caps) (f_of_nat (max (length (ps_cores stat)) 1))"

definition core_entity :: "entity \<Rightarrow> u32 \<Rightarrow> entity" where
  "core_entity host index = child_of host CpuCore (show_nat (unat index))"

definition core_ops :: "source_id \<Rightarrow> target_ctx \<Rightarrow> u32 \<times> cpu_times \<Rightarrow> out_op list" where
  "core_ops sid ctx = (\<lambda>(index, ticks).
     let core = core_entity (ctx_host ctx) index
     in [Emit (with_scale (counter sid (ent_id core) ''usage'' ''Usage'' Percent)
            (per_core_scale (ctx_caps ctx))) (Uint (busy ticks))]
        @ [Declare core])"

definition cpu_ops_of :: "target_ctx \<Rightarrow> proc_stat \<Rightarrow> out_op list" where
  "cpu_ops_of ctx stat =
     (let sid = sd_id cpu_descriptor; host = ent_id (ctx_host ctx); all = ps_total stat;
          scale = aggregate_scale (ctx_caps ctx) stat
      in [Emit (with_scale (counter sid host ''cpu_usage'' ''CPU'' Percent) scale) (Uint (busy all))]
         @ map (\<lambda>(metric, display, ticks).
               Emit (with_scale (counter sid host metric display Percent) scale) (Uint ticks))
             [(''cpu_user'', ''User'', ct_user all + ct_nice all),
              (''cpu_system'', ''System'', ct_system all + ct_irq all + ct_softirq all),
              (''cpu_iowait'', ''I/O wait'', ct_iowait all), (''cpu_steal'', ''Steal'', ct_steal all)]
         @ (case ps_running stat of
              Some running \<Rightarrow> [Emit (gauge sid host ''procs_running'' ''Running'' Count) (Uint running)]
            | None \<Rightarrow> [])
         @ (case ps_blocked stat of
              Some blocked \<Rightarrow> [Emit (gauge sid host ''procs_blocked'' ''Blocked'' Count) (Uint blocked)]
            | None \<Rightarrow> [])
         @ (case ps_context_switches stat of
              Some switches \<Rightarrow>
                [Emit (counter sid host ''ctx_switches'' ''Context switches'' Count) (Uint switches)]
            | None \<Rightarrow> [])
         @ concat (map (core_ops sid ctx) (ps_cores stat)))"

definition cpu_ops :: "target_ctx \<Rightarrow> responses \<Rightarrow> out_op list" where
  "cpu_ops ctx responses =
     (case responses_text responses cpu_request of
        None \<Rightarrow> []
      | Some text \<Rightarrow> cpu_ops_of ctx (parse_proc_stat text))"

definition cpu_source :: source where
  "cpu_source = source_of cpu_descriptor [cpu_request] cpu_ops"

lemma core_ops_ok: "ops_ok cpu_descriptor (ent_id (ctx_host ctx)) (core_ops (sd_id cpu_descriptor) ctx c)"
  unfolding core_ops_def Let_def split_beta
  by (rule ops_ok_entity) (simp_all add: core_entity_def cpu_descriptor_def)

lemma cpu_ops_ok: "ops_ok cpu_descriptor (ent_id (ctx_host ctx)) (cpu_ops_of ctx stat)"
  unfolding cpu_ops_of_def Let_def
  by (intro ops_ok_append ops_ok_concat)
    (auto simp: list_all_iff core_ops_ok intro!: ops_ok_host split: option.split)

interpretation cpu_emits: emitting_source cpu_descriptor "[cpu_request]" cpu_ops
proof
  show "is_remote r \<and> r \<noteq> Exec []" if "r \<in> set [cpu_request]" for r
    using that by (simp add: cpu_request_def)
  show "ops_ok cpu_descriptor (ent_id (ctx_host ctx)) (cpu_ops ctx responses)" for ctx responses
    using cpu_ops_ok by (simp add: cpu_ops_def split: option.split)
  show "cpu_ops ctx responses = cpu_ops ctx responses'"
    if "\<And>r. r \<in> set [cpu_request] \<Longrightarrow> responses_text responses r = responses_text responses' r"
    for ctx responses responses'
    using that [of cpu_request] by (simp add: cpu_ops_def)
  show "cpu_ops ctx [] = []" for ctx by (simp add: cpu_ops_def)
qed

end
