(* ===== verification/Filesystem.thy ===== *)
theory Filesystem
  imports Emission
begin

text \<open>
  Filesystem capacity from \<open>df -P -k\<close> (\<open>crates/sg-collect/src/filesystem.rs\<close>).
\<close>

record fs_row =
  fs_device :: string
  fs_mount :: string
  fs_total :: u64
  fs_used :: u64
  fs_available :: u64

definition usage_percent :: "fs_row \<Rightarrow> f64" where
  "usage_percent self =
     (if fs_total self = 0 then f_of_nat 0 else percent (fs_used self) (fs_total self))"

definition pseudo_mounts :: "string list" where
  "pseudo_mounts = [''/proc'', ''/sys'', ''/dev'', ''/run'']"

definition pseudo_devices :: "string list" where
  "pseudo_devices = [''devtmpfs'', ''udev'', ''none'', ''cgroup'', ''cgroup2'']"

definition is_pseudo :: "fs_row \<Rightarrow> bool" where
  "is_pseudo self \<longleftrightarrow>
     prefix ''/dev/fuse'' (fs_device self) \<or> fs_device self = ''fusectl''
     \<or> fs_device self \<in> set pseudo_devices
     \<or> list_ex (\<lambda>p. fs_mount self = p \<or> prefix (p @ ''/'') (fs_mount self)) pseudo_mounts"

definition kib :: "string \<Rightarrow> u64 option" where
  "kib field = map_option (\<lambda>v. sat_mul v 1024) (parse_u64 field)"

definition df_row :: "string \<Rightarrow> fs_row option" where
  "df_row line =
     (case split_whitespace line of
        device # a # b # c # _ # mount \<Rightarrow>
          if mount = [] then None
          else
            (case (kib a, kib b, kib c) of
               (Some all, Some used, Some available) \<Rightarrow>
                 Some \<lparr>fs_device = device, fs_mount = join '' '' mount, fs_total = all,
                       fs_used = used, fs_available = available\<rparr>
             | _ \<Rightarrow> None)
      | _ \<Rightarrow> None)"

definition parse_df :: "string \<Rightarrow> fs_row list" where
  "parse_df text = List.map_filter df_row (drop 1 (lines text))"

definition filesystem_descriptor :: source_descriptor where
  "filesystem_descriptor =
     \<lparr>sd_id = ''proc.filesystem'', sd_display = ''Filesystems'',
      sd_description = ''Mounted filesystem capacity and usage'', sd_produces = [entity_kind.Filesystem],
      sd_requires = requirements_none, sd_default_enabled = True\<rparr>"

definition df_request :: request where "df_request = Exec [''df'', ''-P'', ''-k'']"

definition shown_fs :: "fs_row \<Rightarrow> bool" where
  "shown_fs fs \<longleftrightarrow> \<not> (is_pseudo fs \<or> fs_total fs = 0)"

definition fs_entity :: "entity \<Rightarrow> fs_row \<Rightarrow> entity" where
  "fs_entity host fs =
     ent_with_label (child_of host entity_kind.Filesystem (fs_mount fs)) ''device'' (fs_device fs)"

definition fs_row_ops :: "source_id \<Rightarrow> entity \<Rightarrow> fs_row \<Rightarrow> out_op list" where
  "fs_row_ops sid host fs =
     (let e = fs_entity host fs; eid = ent_id e
      in [Emit (gauge sid eid ''usage'' ''Usage'' Percent) (Float (usage_percent fs)),
          Emit (with_max (gauge sid eid ''used'' ''Used'' Bytes) (f_of_nat (unat (fs_total fs))))
            (Uint (fs_used fs)),
          Emit (gauge sid eid ''total'' ''Total'' Bytes) (Uint (fs_total fs)),
          Emit (gauge sid eid ''available'' ''Available'' Bytes) (Uint (fs_available fs))]
         @ [Declare e])"

text \<open>The last row that is mounted on the root.\<close>

definition root_usage :: "fs_row list \<Rightarrow> f64 option" where
  "root_usage rows =
     fold (\<lambda>fs root. if fs_mount fs = ''/'' then Some (usage_percent fs) else root) rows None"

definition filesystem_ops_of :: "target_ctx \<Rightarrow> fs_row list \<Rightarrow> out_op list" where
  "filesystem_ops_of ctx all =
     (let sid = sd_id filesystem_descriptor; rows = filter shown_fs all
      in concat (map (fs_row_ops sid (ctx_host ctx)) rows)
         @ (case root_usage rows of
              Some usage \<Rightarrow>
                [Emit (gauge sid (ent_id (ctx_host ctx)) ''disk_usage'' ''Disk'' Percent) (Float usage)]
            | None \<Rightarrow> []))"

definition filesystem_ops :: "target_ctx \<Rightarrow> responses \<Rightarrow> out_op list" where
  "filesystem_ops ctx responses =
     (case responses_text responses df_request of
        None \<Rightarrow> []
      | Some text \<Rightarrow> filesystem_ops_of ctx (parse_df text))"

definition filesystem_source :: source where
  "filesystem_source = source_of filesystem_descriptor [df_request] filesystem_ops"

lemma fs_row_ops_ok:
  "ops_ok filesystem_descriptor (ent_id host) (fs_row_ops (sd_id filesystem_descriptor) host fs)"
  unfolding fs_row_ops_def Let_def
  by (rule ops_ok_entity) (simp_all add: fs_entity_def filesystem_descriptor_def)

interpretation filesystem_emits: emitting_source filesystem_descriptor "[df_request]" filesystem_ops
proof
  show "is_remote r \<and> r \<noteq> Exec []" if "r \<in> set [df_request]" for r
    using that by (simp add: df_request_def)
  have "ops_ok filesystem_descriptor (ent_id (ctx_host ctx)) (filesystem_ops_of ctx rows)" for ctx rows
    unfolding filesystem_ops_of_def Let_def
    by (intro ops_ok_append ops_ok_concat)
      (auto simp: list_all_iff fs_row_ops_ok split: option.split)
  then show "ops_ok filesystem_descriptor (ent_id (ctx_host ctx)) (filesystem_ops ctx responses)"
    for ctx responses
    by (simp add: filesystem_ops_def split: option.split)
  show "filesystem_ops ctx responses = filesystem_ops ctx responses'"
    if "\<And>r. r \<in> set [df_request] \<Longrightarrow> responses_text responses r = responses_text responses' r"
    for ctx responses responses'
    using that [of df_request] by (simp add: filesystem_ops_def)
  show "filesystem_ops ctx [] = []" for ctx by (simp add: filesystem_ops_def)
qed

end
