(* ===== verification/Network.thy ===== *)
theory Network
  imports Emission
begin

text \<open>
  Network traffic from \<open>/proc/net/dev\<close> (\<open>crates/sg-collect/src/network.rs\<close>).
\<close>

record interface_stats =
  if_name :: string
  if_rx_bytes :: u64
  if_rx_packets :: u64
  if_rx_errors :: u64
  if_rx_dropped :: u64
  if_tx_bytes :: u64
  if_tx_packets :: u64
  if_tx_errors :: u64
  if_tx_dropped :: u64

definition is_loopback :: "interface_stats \<Rightarrow> bool" where
  "is_loopback self \<longleftrightarrow> if_name self = ''lo''"

definition if_idle :: "interface_stats \<Rightarrow> bool" where
  "if_idle self \<longleftrightarrow> if_rx_bytes self = 0 \<and> if_tx_bytes self = 0"

definition net_dev_row :: "string \<Rightarrow> interface_stats option" where
  "net_dev_row line =
     (case split_once (CHR '':'') line of
        None \<Rightarrow> None
      | Some (name0, rest) \<Rightarrow>
          (let name = trim name0; n = numbers rest
           in if name = [] \<or> \<not> ws_free name then None
              else if length n < 16 then None
              else Some \<lparr>if_name = name, if_rx_bytes = n ! 0, if_rx_packets = n ! 1,
                         if_rx_errors = n ! 2, if_rx_dropped = n ! 3, if_tx_bytes = n ! 8,
                         if_tx_packets = n ! 9, if_tx_errors = n ! 10, if_tx_dropped = n ! 11\<rparr>))"

definition parse_net_dev :: "string \<Rightarrow> interface_stats list" where
  "parse_net_dev text = List.map_filter net_dev_row (lines text)"

definition physical_argv :: "string list" where
  "physical_argv =
     [''sh'', ''-c'',
      ''for d in /sys/class/net/*; do [ -e \"$d/device\" ] && echo \"${d##*/}\"; done; exit 0'']"

definition network_descriptor :: source_descriptor where
  "network_descriptor =
     \<lparr>sd_id = ''proc.network'', sd_display = ''Network'',
      sd_description = ''Per-interface traffic, packets, errors and drops'',
      sd_produces = [NetworkInterface], sd_requires = requirements_path ''/proc/net/dev'',
      sd_default_enabled = True\<rparr>"

definition net_dev_request :: request where "net_dev_request = ReadFile ''/proc/net/dev''"
definition physical_request :: request where "physical_request = Exec physical_argv"

definition network_requests :: "request list" where
  "network_requests = [net_dev_request, physical_request]"

definition counts_toward_total :: "string set \<Rightarrow> interface_stats \<Rightarrow> bool" where
  "counts_toward_total physical iface \<longleftrightarrow>
     (if is_loopback iface then False else physical = {} \<or> if_name iface \<in> physical)"

definition if_entity :: "entity \<Rightarrow> string set \<Rightarrow> interface_stats \<Rightarrow> entity" where
  "if_entity host physical iface =
     ent_with_label
       (ent_with_label (child_of host NetworkInterface (if_name iface))
         ''loopback'' (show_bool (is_loopback iface)))
       ''physical'' (show_bool (if_name iface \<in> physical))"

definition iface_ops :: "source_id \<Rightarrow> entity \<Rightarrow> string set \<Rightarrow> interface_stats \<Rightarrow> out_op list" where
  "iface_ops sid host physical iface =
     (let e = if_entity host physical iface
      in map (\<lambda>(metric, display, v, u). Emit (counter sid (ent_id e) metric display u) (Uint v))
           [(''rx_bytes'', ''Received'', if_rx_bytes iface, Bytes),
            (''tx_bytes'', ''Sent'', if_tx_bytes iface, Bytes),
            (''rx_packets'', ''Packets in'', if_rx_packets iface, Packets),
            (''tx_packets'', ''Packets out'', if_tx_packets iface, Packets),
            (''rx_errors'', ''Errors in'', if_rx_errors iface, Count),
            (''tx_errors'', ''Errors out'', if_tx_errors iface, Count),
            (''rx_dropped'', ''Dropped in'', if_rx_dropped iface, Count),
            (''tx_dropped'', ''Dropped out'', if_tx_dropped iface, Count)]
         @ [Declare e])"

text \<open>The loop: what is written, and the two running sums.\<close>

fun iface_loop ::
  "source_id \<Rightarrow> entity \<Rightarrow> string set \<Rightarrow> interface_stats list \<Rightarrow> u64 \<Rightarrow> u64 \<Rightarrow> out_op list \<times> u64 \<times> u64" where
  "iface_loop sid host physical [] rx tx = ([], rx, tx)"
| "iface_loop sid host physical (iface # is) rx tx =
     (if if_idle iface \<and> \<not> is_loopback iface then iface_loop sid host physical is rx tx
      else
        (let (rx', tx') = (if counts_toward_total physical iface
               then (rx + if_rx_bytes iface, tx + if_tx_bytes iface) else (rx, tx));
             (ops, totals) = iface_loop sid host physical is rx' tx'
         in (iface_ops sid host physical iface @ ops, totals)))"

definition network_ops_of :: "target_ctx \<Rightarrow> string set \<Rightarrow> interface_stats list \<Rightarrow> out_op list" where
  "network_ops_of ctx physical ifaces =
     (let sid = sd_id network_descriptor; host = ent_id (ctx_host ctx);
          (ops, rx, tx) = iface_loop sid (ctx_host ctx) physical ifaces 0 0
      in ops @ [Emit (counter sid host ''net_rx'' ''Download'' Bytes) (Uint rx)]
             @ [Emit (counter sid host ''net_tx'' ''Upload'' Bytes) (Uint tx)])"

definition network_ops :: "target_ctx \<Rightarrow> responses \<Rightarrow> out_op list" where
  "network_ops ctx responses =
     (case responses_text responses net_dev_request of
        None \<Rightarrow> []
      | Some text \<Rightarrow>
          network_ops_of ctx (names_of (responses_text responses physical_request)) (parse_net_dev text))"

definition network_source :: source where
  "network_source = source_of network_descriptor network_requests network_ops"

lemma iface_ops_ok: "ops_ok network_descriptor (ent_id host) (iface_ops (sd_id network_descriptor) host physical iface)"
  unfolding iface_ops_def Let_def
  by (rule ops_ok_entity) (simp_all add: if_entity_def network_descriptor_def)

lemma iface_loop_ok:
  "ops_ok network_descriptor (ent_id host) (fst (iface_loop (sd_id network_descriptor) host physical is rx tx))"
  by (induction "is" arbitrary: rx tx) (auto simp: split_beta Let_def intro!: ops_ok_append iface_ops_ok)

interpretation network_emits: emitting_source network_descriptor network_requests network_ops
proof
  show "is_remote r \<and> r \<noteq> Exec []" if "r \<in> set network_requests" for r
    using that by (auto simp: network_requests_def net_dev_request_def physical_request_def physical_argv_def)
  have "ops_ok network_descriptor (ent_id (ctx_host ctx)) (network_ops_of ctx physical ifaces)"
    for ctx physical ifaces
    unfolding network_ops_of_def Let_def split_beta
    by (intro ops_ok_append iface_loop_ok) simp_all
  then show "ops_ok network_descriptor (ent_id (ctx_host ctx)) (network_ops ctx responses)"
    for ctx responses
    by (simp add: network_ops_def split: option.split)
  show "network_ops ctx responses = network_ops ctx responses'"
    if "\<And>r. r \<in> set network_requests \<Longrightarrow> responses_text responses r = responses_text responses' r"
    for ctx responses responses'
    using that [of net_dev_request] that [of physical_request]
    by (simp add: network_ops_def network_requests_def split: option.split)
  show "network_ops ctx [] = []" for ctx by (simp add: network_ops_def)
qed

text \<open>The loop, as what it writes for each shown interface and the sums over the counted ones.\<close>

lemma iface_loop_eq:
  "iface_loop sid host physical ifaces rx tx =
     (concat (map (iface_ops sid host physical) (filter (\<lambda>i. \<not> if_idle i \<or> is_loopback i) ifaces)),
      rx + sum_list (map if_rx_bytes (filter (counts_toward_total physical) ifaces)),
      tx + sum_list (map if_tx_bytes (filter (counts_toward_total physical) ifaces)))"
proof (induction ifaces arbitrary: rx tx)
  case (Cons i ifaces)
  have "if_rx_bytes i = 0" "if_tx_bytes i = 0" if "if_idle i" using that by (simp_all add: if_idle_def)
  moreover have "\<not> counts_toward_total physical i" if "is_loopback i"
    using that by (simp add: counts_toward_total_def)
  ultimately show ?case by (auto simp: Cons Let_def add.assoc)
qed simp

text \<open>
  C23: the host's traffic: the last two series a refresh writes are the host's totals, and they are
  the sums, on 64-bit counters, over every interface of the table that is hardware, or over every
  one when the host has no hardware interface; the loopback interface never counts, and an
  interface that has carried nothing is left out of the tree without being left out of the sums.
\<close>

theorem network_totals:
  "let counted = filter (\<lambda>i. if_name i \<noteq> ''lo'' \<and> (physical = {} \<or> if_name i \<in> physical)) ifaces;
       shown = filter (\<lambda>i. \<not> (if_name i \<noteq> ''lo'' \<and> if_rx_bytes i = 0 \<and> if_tx_bytes i = 0)) ifaces;
       ops = network_ops_of ctx physical ifaces
   in map (\<lambda>(s, v). (ser_entity s, ser_metric s, v)) (emitted (drop (length ops - 2) ops)) =
        [(ent_id (ctx_host ctx), ''net_rx'', Uint (sum_list (map if_rx_bytes counted))),
         (ent_id (ctx_host ctx), ''net_tx'', Uint (sum_list (map if_tx_bytes counted)))]
      \<and> map ent_id (declared ops) = map (\<lambda>i. entity_child (ent_id (ctx_host ctx)) ''net'' (if_name i)) shown"
proof -
  have c: "counts_toward_total physical = (\<lambda>i. if_name i \<noteq> ''lo'' \<and> (physical = {} \<or> if_name i \<in> physical))"
    by (rule ext) (simp add: counts_toward_total_def is_loopback_def)
  have s: "(\<lambda>i. \<not> if_idle i \<or> is_loopback i) =
      (\<lambda>i. \<not> (if_name i \<noteq> ''lo'' \<and> if_rx_bytes i = 0 \<and> if_tx_bytes i = 0))"
    by (rule ext) (auto simp: if_idle_def is_loopback_def)
  have d: "map ent_id (concat (map (declared \<circ> iface_ops sid host physical) is)) =
      map (\<lambda>i. entity_child (ent_id host) ''net'' (if_name i)) is" for sid host "is"
    by (induction "is") (simp_all add: iface_ops_def if_entity_def Let_def)
  show ?thesis
    unfolding network_ops_of_def Let_def iface_loop_eq c s split_beta fst_conv snd_conv
    by (simp add: d)
qed

end
