(* ===== verification/Disk_Io.thy ===== *)
theory Disk_Io
  imports Emission
begin

text \<open>
  Block device throughput from \<open>/proc/diskstats\<close> (\<open>crates/sg-collect/src/diskio.rs\<close>).
\<close>

definition sector_bytes :: u64 where "sector_bytes = 512"

record disk_stats =
  dk_name :: string
  dk_reads :: u64
  dk_read_sectors :: u64
  dk_read_ms :: u64
  dk_writes :: u64
  dk_write_sectors :: u64
  dk_write_ms :: u64
  dk_io_in_progress :: u64
  dk_io_ms :: u64

definition read_bytes :: "disk_stats \<Rightarrow> u64" where
  "read_bytes self = sat_mul (dk_read_sectors self) sector_bytes"

definition write_bytes :: "disk_stats \<Rightarrow> u64" where
  "write_bytes self = sat_mul (dk_write_sectors self) sector_bytes"

definition is_virtual :: "disk_stats \<Rightarrow> bool" where
  "is_virtual self \<longleftrightarrow>
     list_ex (\<lambda>p. prefix p (dk_name self)) [''loop'', ''ram'', ''fd'', ''sr'', ''zram'']"

definition dk_idle :: "disk_stats \<Rightarrow> bool" where
  "dk_idle self \<longleftrightarrow> dk_reads self = 0 \<and> dk_writes self = 0"

definition diskstats_row :: "string \<Rightarrow> disk_stats option" where
  "diskstats_row line =
     (let cols = split_whitespace line;
          n = (\<lambda>i. if i < length cols then u64_or_zero (cols ! i) else 0)
      in if length cols < 14 then None
         else Some \<lparr>dk_name = cols ! 2, dk_reads = n 3, dk_read_sectors = n 5, dk_read_ms = n 6,
                    dk_writes = n 7, dk_write_sectors = n 9, dk_write_ms = n 10,
                    dk_io_in_progress = n 11, dk_io_ms = n 12\<rparr>)"

definition parse_diskstats :: "string \<Rightarrow> disk_stats list" where
  "parse_diskstats text = List.map_filter diskstats_row (lines text)"

text \<open>What is left of a partition's name after the device's is a number, possibly after a \<open>p\<close>.\<close>

definition partition_suffix :: "string \<Rightarrow> bool" where
  "partition_suffix suf \<longleftrightarrow>
     (let digits = (case strip_prefix ''p'' suf of Some r \<Rightarrow> r | None \<Rightarrow> suf)
      in digits \<noteq> [] \<and> list_all is_digit digits)"

text \<open>\<open>max_by_key\<close> keeps the last of the longest.\<close>

fun last_longest :: "string option \<Rightarrow> string list \<Rightarrow> string option" where
  "last_longest best [] = best"
| "last_longest best (c # cs) =
     last_longest (case best of
         None \<Rightarrow> Some c
       | Some b \<Rightarrow> if length c < length b then Some b else Some c) cs"

definition parent_device :: "string \<Rightarrow> disk_stats list \<Rightarrow> string option" where
  "parent_device name all =
     last_longest None
       (filter (\<lambda>c. partition_suffix (drop (length c) name))
         (filter (\<lambda>c. c \<noteq> name \<and> prefix c name) (map dk_name all)))"

definition stacked_argv :: "string list" where
  "stacked_argv =
     [''sh'', ''-c'',
      ''for d in /sys/block/*; do [ -d \"$d/slaves\" ] && [ -n \"$(ls -A \"$d/slaves\" 2>/dev/null)\" ] && echo \"${d##*/}\"; done; exit 0'']"

definition diskio_descriptor :: source_descriptor where
  "diskio_descriptor =
     \<lparr>sd_id = ''proc.diskio'', sd_display = ''Disk I/O'',
      sd_description = ''Per-device read/write throughput and operation rates'',
      sd_produces = [Disk], sd_requires = requirements_path ''/proc/diskstats'',
      sd_default_enabled = True\<rparr>"

definition diskstats_request :: request where "diskstats_request = ReadFile ''/proc/diskstats''"
definition stacked_request :: request where "stacked_request = Exec stacked_argv"

definition diskio_requests :: "request list" where
  "diskio_requests = [diskstats_request, stacked_request]"

definition is_stacked :: "string set \<Rightarrow> disk_stats \<Rightarrow> bool" where
  "is_stacked stacked disk \<longleftrightarrow> dk_name disk \<in> stacked \<or> prefix ''zd'' (dk_name disk)"

definition disk_entity :: "entity \<Rightarrow> disk_stats list \<Rightarrow> string set \<Rightarrow> disk_stats \<Rightarrow> entity" where
  "disk_entity host all stacked disk =
     (let e = ent_with_label (child_of host Disk (dk_name disk))
                ''stacked'' (show_bool (is_stacked stacked disk))
      in case parent_device (dk_name disk) all of
           Some parent \<Rightarrow> ent_with_label e ''partition_of'' parent
         | None \<Rightarrow> e)"

definition disk_ops :: "source_id \<Rightarrow> entity \<Rightarrow> disk_stats list \<Rightarrow> string set \<Rightarrow> disk_stats \<Rightarrow> out_op list" where
  "disk_ops sid host all stacked disk =
     (let e = disk_entity host all stacked disk
      in (map (\<lambda>(metric, display, v, u). Emit (counter sid (ent_id e) metric display u) (Uint v))
            [(''read_bytes'', ''Read'', read_bytes disk, Bytes),
             (''write_bytes'', ''Written'', write_bytes disk, Bytes),
             (''reads'', ''Read ops'', dk_reads disk, Operations),
             (''writes'', ''Write ops'', dk_writes disk, Operations)]
          @ [Emit (gauge sid (ent_id e) ''in_flight'' ''In flight'' Count)
               (Uint (dk_io_in_progress disk))])
         @ [Declare e])"

text \<open>Only whole devices that sit on no others count towards the host's totals.\<close>

definition counts_for_host :: "disk_stats list \<Rightarrow> string set \<Rightarrow> disk_stats \<Rightarrow> bool" where
  "counts_for_host all stacked disk \<longleftrightarrow>
     parent_device (dk_name disk) all = None \<and> \<not> is_stacked stacked disk"

fun disk_loop ::
  "source_id \<Rightarrow> entity \<Rightarrow> disk_stats list \<Rightarrow> string set \<Rightarrow> disk_stats list \<Rightarrow> u64 \<Rightarrow> u64
    \<Rightarrow> out_op list \<times> u64 \<times> u64" where
  "disk_loop sid host all stacked [] rd wr = ([], rd, wr)"
| "disk_loop sid host all stacked (disk # ds) rd wr =
     (if is_virtual disk \<or> dk_idle disk then disk_loop sid host all stacked ds rd wr
      else
        (let (rd', wr') = (if counts_for_host all stacked disk
               then (rd + read_bytes disk, wr + write_bytes disk) else (rd, wr));
             (ops, totals) = disk_loop sid host all stacked ds rd' wr'
         in (disk_ops sid host all stacked disk @ ops, totals)))"

definition diskio_ops_of :: "target_ctx \<Rightarrow> string set \<Rightarrow> disk_stats list \<Rightarrow> out_op list" where
  "diskio_ops_of ctx stacked all =
     (let sid = sd_id diskio_descriptor; host = ent_id (ctx_host ctx);
          (ops, rd, wr) = disk_loop sid (ctx_host ctx) all stacked all 0 0
      in ops @ [Emit (counter sid host ''disk_read'' ''Disk read'' Bytes) (Uint rd)]
             @ [Emit (counter sid host ''disk_write'' ''Disk write'' Bytes) (Uint wr)])"

definition diskio_ops :: "target_ctx \<Rightarrow> responses \<Rightarrow> out_op list" where
  "diskio_ops ctx responses =
     (case responses_text responses diskstats_request of
        None \<Rightarrow> []
      | Some text \<Rightarrow>
          diskio_ops_of ctx (names_of (responses_text responses stacked_request)) (parse_diskstats text))"

definition diskio_source :: source where
  "diskio_source = source_of diskio_descriptor diskio_requests diskio_ops"

lemma disk_entity_simps [simp]:
  "ent_kind (disk_entity host all stacked d) = Disk"
  "ent_parent (disk_entity host all stacked d) = Some (ent_id host)"
  "ent_id (disk_entity host all stacked d) = entity_child (ent_id host) (slug Disk) (dk_name d)"
  by (simp_all add: disk_entity_def Let_def split: option.split)

lemma disk_ops_ok:
  "ops_ok diskio_descriptor (ent_id host) (disk_ops (sd_id diskio_descriptor) host all stacked disk)"
  unfolding disk_ops_def Let_def
  by (rule ops_ok_entity) (simp_all add: diskio_descriptor_def)

lemma disk_loop_ok:
  "ops_ok diskio_descriptor (ent_id host)
     (fst (disk_loop (sd_id diskio_descriptor) host all stacked ds rd wr))"
  by (induction ds arbitrary: rd wr) (auto simp: split_beta Let_def intro!: ops_ok_append disk_ops_ok)

interpretation diskio_emits: emitting_source diskio_descriptor diskio_requests diskio_ops
proof
  show "is_remote r \<and> r \<noteq> Exec []" if "r \<in> set diskio_requests" for r
    using that by (auto simp: diskio_requests_def diskstats_request_def stacked_request_def stacked_argv_def)
  have "ops_ok diskio_descriptor (ent_id (ctx_host ctx)) (diskio_ops_of ctx stacked all)"
    for ctx stacked all
    unfolding diskio_ops_of_def Let_def split_beta
    by (intro ops_ok_append disk_loop_ok) simp_all
  then show "ops_ok diskio_descriptor (ent_id (ctx_host ctx)) (diskio_ops ctx responses)"
    for ctx responses
    by (simp add: diskio_ops_def split: option.split)
  show "diskio_ops ctx responses = diskio_ops ctx responses'"
    if "\<And>r. r \<in> set diskio_requests \<Longrightarrow> responses_text responses r = responses_text responses' r"
    for ctx responses responses'
    using that [of diskstats_request] that [of stacked_request]
    by (simp add: diskio_ops_def diskio_requests_def split: option.split)
  show "diskio_ops ctx [] = []" for ctx by (simp add: diskio_ops_def)
qed


text \<open>A whole device whose name extends another's by digits counts as its partition.\<close>

lemma stacked_device_taken_for_partition:
  "let d = (\<lambda>n. \<lparr>dk_name = n, dk_reads = 0, dk_read_sectors = 0, dk_read_ms = 0, dk_writes = 0,
              dk_write_sectors = 0, dk_write_ms = 0, dk_io_in_progress = 0, dk_io_ms = 0\<rparr>)
   in parent_device ''dm-10'' (map d [''dm-1'', ''dm-2'', ''dm-10'']) = Some ''dm-1''"
  by code_simp

end
