(* ===== verification/Tasks.thy ===== *)
theory Tasks
  imports Emission "HOL-Library.Multiset"
begin

text \<open>
  The process table (\<open>crates/sg-collect/src/process.rs\<close>).
\<close>

definition max_processes :: nat where "max_processes = 256"

record process_stat =
  pc_pid :: u32
  pc_comm :: string
  pc_state :: string
  pc_cpu_ticks :: u64
  pc_rss_pages :: u64

text \<open>
  The line is cut at its first \<open>(\<close> and its last \<open>)\<close>; a line whose last \<open>)\<close> comes before its first
  \<open>(\<close> is dropped, as is one without either.
\<close>

definition rsplit_once :: "char \<Rightarrow> string \<Rightarrow> (string \<times> string) option" where
  "rsplit_once d s = map_option (\<lambda>(a, b). (rev b, rev a)) (split_once d (rev s))"

definition stat_columns :: "string \<Rightarrow> nat \<Rightarrow> string" where
  "stat_columns rest field =
     (let cols = split_whitespace rest
      in if field - 3 < length cols then cols ! (field - 3) else ''0'')"

text \<open>The state is the first character of its column, which is not empty.\<close>

definition process_row :: "string \<Rightarrow> process_stat option" where
  "process_row line =
     (case split_once (CHR ''('') line of
        None \<Rightarrow> None
      | Some (before, after) \<Rightarrow>
          (case rsplit_once (CHR '')'') after of
             None \<Rightarrow> None
           | Some (comm, rest) \<Rightarrow>
               (case parse_u32 (trim before) of
                  None \<Rightarrow> None
                | Some pid \<Rightarrow>
                    (let at_field = stat_columns rest
                     in Some \<lparr>pc_pid = pid, pc_comm = comm,
                              pc_state = (case chars (at_field 3) of c # _ \<Rightarrow> c | [] \<Rightarrow> ''?''),
                              pc_cpu_ticks = sat_add (u64_or_zero (at_field 14)) (u64_or_zero (at_field 15)),
                              pc_rss_pages = u64_or_zero (at_field 24)\<rparr>))))"

definition parse_process_stats :: "string \<Rightarrow> process_stat list" where
  "parse_process_stats text = List.map_filter process_row (lines text)"

definition process_argv :: "string list" where
  "process_argv = [''sh'', ''-c'', ''cat /proc/[0-9]*/stat 2>/dev/null; exit 0'']"

definition process_descriptor :: source_descriptor where
  "process_descriptor =
     \<lparr>sd_id = ''proc.process'', sd_display = ''Processes'',
      sd_description = ''Per-process CPU and memory, so a busy host can be explained'',
      sd_produces = [Process], sd_requires = requirements_path ''/proc/stat'',
      sd_default_enabled = True\<rparr>"

definition process_request :: request where "process_request = Exec process_argv"

text \<open>\<open>sort_by\<close> is stable: the largest first, and the kernel's order among equals.\<close>

definition chosen_processes :: "process_stat list \<Rightarrow> process_stat list" where
  "chosen_processes ps =
     take max_processes
       (sort_key (\<lambda>p. - int (unat (pc_rss_pages p))) (filter (\<lambda>p. 0 < pc_rss_pages p) ps))"

definition process_entity :: "entity \<Rightarrow> process_stat \<Rightarrow> entity" where
  "process_entity host p =
     ent_with_label
       (ent_with_label (child_of host Process (show_nat (unat (pc_pid p)))) ''command'' (pc_comm p))
       ''state'' (pc_state p)"

definition process_row_ops :: "source_id \<Rightarrow> target_ctx \<Rightarrow> process_stat \<Rightarrow> out_op list" where
  "process_row_ops sid ctx p =
     (let e = process_entity (ctx_host ctx) p;
          cpu_scale = f_div (f_of_nat 100) (f_of_nat (unat (cap_clock_ticks (ctx_caps ctx))));
          page_size = max (cap_page_size (ctx_caps ctx)) 1
      in [Emit (with_scale (counter sid (ent_id e) ''cpu'' ''CPU'' Percent) cpu_scale)
            (Uint (pc_cpu_ticks p)),
          Emit (gauge sid (ent_id e) ''rss'' ''Memory'' Bytes)
            (Uint (sat_mul (pc_rss_pages p) page_size))]
         @ [Declare e])"

definition process_ops :: "target_ctx \<Rightarrow> responses \<Rightarrow> out_op list" where
  "process_ops ctx responses =
     (case responses_text responses process_request of
        None \<Rightarrow> []
      | Some text \<Rightarrow>
          concat (map (process_row_ops (sd_id process_descriptor) ctx)
            (chosen_processes (parse_process_stats text))))"

definition process_source :: source where
  "process_source = source_of process_descriptor [process_request] process_ops"

lemma process_row_ops_ok:
  "ops_ok process_descriptor (ent_id (ctx_host ctx)) (process_row_ops (sd_id process_descriptor) ctx p)"
  unfolding process_row_ops_def Let_def
  by (rule ops_ok_entity) (simp_all add: process_entity_def process_descriptor_def)

interpretation process_emits: emitting_source process_descriptor "[process_request]" process_ops
proof
  show "is_remote r \<and> r \<noteq> Exec []" if "r \<in> set [process_request]" for r
    using that by (simp add: process_request_def process_argv_def)
  show "ops_ok process_descriptor (ent_id (ctx_host ctx)) (process_ops ctx responses)" for ctx responses
    by (auto simp: process_ops_def list_all_iff process_row_ops_ok intro!: ops_ok_concat split: option.split)
  show "process_ops ctx responses = process_ops ctx responses'"
    if "\<And>r. r \<in> set [process_request] \<Longrightarrow> responses_text responses r = responses_text responses' r"
    for ctx responses responses'
    using that [of process_request] by (simp add: process_ops_def)
  show "process_ops ctx [] = []" for ctx by (simp add: process_ops_def)
qed

section \<open>The table as the kernel prints it\<close>











lemma filter_take: "filter P (take n xs) = take (length (filter P (take n xs))) (filter P xs)"
proof -
  have "filter P xs = filter P (take n xs) @ filter P (drop n xs)"
    by (metis append_take_drop_id filter_append)
  then show ?thesis by simp
qed

text \<open>
  Which processes a refresh shows: at most 256, none without resident memory, in descending
  order of resident memory with the kernel's order among equals, and every process left out has no
  more resident memory than every one shown.
\<close>

theorem chosen_processes_largest:
  "let chosen = chosen_processes ps; resident = filter (\<lambda>p. 0 < pc_rss_pages p) ps
   in length chosen = min 256 (length resident)
      \<and> sorted_wrt (\<lambda>p q. pc_rss_pages q \<le> pc_rss_pages p) chosen
      \<and> (\<exists>rest. mset resident = mset chosen + mset rest
            \<and> list_all (\<lambda>r. list_all (\<lambda>p. pc_rss_pages r \<le> pc_rss_pages p) chosen) rest)
      \<and> filter (\<lambda>p. pc_rss_pages p = n) chosen
          = take (length (filter (\<lambda>p. pc_rss_pages p = n) chosen)) (filter (\<lambda>p. pc_rss_pages p = n) resident)"
proof -
  define resident where "resident = filter (\<lambda>p. 0 < pc_rss_pages p) ps"
  define key where "key = (\<lambda>p::process_stat. - int (unat (pc_rss_pages p)))"
  define ranked where "ranked = sort_key key resident"
  have c: "chosen_processes ps = take 256 ranked"
    by (simp add: chosen_processes_def max_processes_def ranked_def resident_def key_def)
  have le: "key p \<le> key q \<longleftrightarrow> pc_rss_pages q \<le> pc_rss_pages p" for p q
    by (simp add: key_def word_le_def)
  have "sorted (map key ranked)" by (simp add: ranked_def)
  then have s: "sorted_wrt (\<lambda>p q. pc_rss_pages q \<le> pc_rss_pages p) ranked"
    by (simp add: sorted_wrt_map le)
  have split: "ranked = take 256 ranked @ drop 256 ranked" by simp
  have "sorted_wrt (\<lambda>p q. pc_rss_pages q \<le> pc_rss_pages p) (take 256 ranked @ drop 256 ranked)"
    using s by simp
  then have parts: "sorted_wrt (\<lambda>p q. pc_rss_pages q \<le> pc_rss_pages p) (take 256 ranked)"
    "\<forall>p \<in> set (take 256 ranked). \<forall>r \<in> set (drop 256 ranked). pc_rss_pages r \<le> pc_rss_pages p"
    unfolding sorted_wrt_append by blast+
  have m: "mset resident = mset (take 256 ranked) + mset (drop 256 ranked)"
    by (simp add: ranked_def flip: mset_append)
  have stable: "filter (\<lambda>p. pc_rss_pages p = n) ranked = filter (\<lambda>p. pc_rss_pages p = n) resident"
  proof -
    have "(\<lambda>p. pc_rss_pages p = n) = (\<lambda>p. key p = - int (unat n))"
      by (rule ext) (simp add: key_def word_uint_eq_iff)
    then show ?thesis by (simp add: ranked_def sort_key_stable)
  qed
  have "filter (\<lambda>p. pc_rss_pages p = n) (take 256 ranked)
      = take (length (filter (\<lambda>p. pc_rss_pages p = n) (take 256 ranked))) (filter (\<lambda>p. pc_rss_pages p = n) resident)"
    unfolding stable [symmetric] by (rule filter_take)
  moreover have "length (take 256 ranked) = min 256 (length resident)"
    by (simp add: ranked_def min.commute)
  ultimately show ?thesis
    using parts m unfolding Let_def c resident_def [symmetric] list_all_iff by blast
qed

end
