(* ===== verification/Cgroup.thy ===== *)
theory Cgroup
  imports Emission
begin

text \<open>
  Containers and virtual machines from the cgroup v2 hierarchy
  (\<open>crates/sg-collect/src/cgroup.rs\<close>).
\<close>

record cgroup_stats =
  cg_path :: string
  cg_usage_usec :: u64
  cg_memory_bytes :: u64
  cg_inactive_file :: u64
  cg_memory_limit :: "u64 option"
  cg_pids :: u64

definition cgroup_default :: "string \<Rightarrow> cgroup_stats" where
  "cgroup_default path =
     \<lparr>cg_path = path, cg_usage_usec = 0, cg_memory_bytes = 0, cg_inactive_file = 0,
      cg_memory_limit = None, cg_pids = 0\<rparr>"

text \<open>The last and the last but one segment of a path, as \<open>rsplit('/')\<close> gives them.\<close>

definition path_leaf :: "string \<Rightarrow> string" where
  "path_leaf path = last (split_char (CHR ''/'') path)"

definition path_parent :: "string \<Rightarrow> string" where
  "path_parent path =
     (case rev (split_char (CHR ''/'') path) of _ # p # _ \<Rightarrow> p | _ \<Rightarrow> [])"

definition short_id :: "string \<Rightarrow> string" where
  "short_id i = concat (take 12 (chars i))"

definition between :: "string \<Rightarrow> string \<Rightarrow> string \<Rightarrow> string option" where
  "between pre suf s = Option.bind (strip_prefix pre s) (strip_suffix suf)"

definition identify :: "cgroup_stats \<Rightarrow> entity_kind \<times> string" where
  "identify self =
     (let leaf = path_leaf (cg_path self); parent = path_parent (cg_path self)
      in case between ''docker-'' ''.scope'' leaf of
           Some i \<Rightarrow> (Container, short_id i)
         | None \<Rightarrow>
             (case between ''libpod-'' ''.scope'' leaf of
                Some i \<Rightarrow> (Container, short_id i)
              | None \<Rightarrow>
                  if parent = ''docker'' then (Container, short_id leaf)
                  else if parent = ''lxc'' \<or> parent = ''lxc.payload'' then (Container, leaf)
                  else if parent = ''qemu.slice'' then
                    (VirtualMachine,
                     ''VM '' @ (case strip_suffix ''.scope'' leaf of Some i \<Rightarrow> i | None \<Rightarrow> leaf))
                  else (Container, leaf)))"

definition working_set :: "cgroup_stats \<Rightarrow> u64" where
  "working_set self = sat_sub (cg_memory_bytes self) (cg_inactive_file self)"

definition is_running :: "cgroup_stats \<Rightarrow> bool" where
  "is_running self \<longleftrightarrow> 0 < cg_pids self \<or> 0 < cg_memory_bytes self"

definition memory_fraction :: "cgroup_stats \<Rightarrow> f64 option" where
  "memory_fraction self =
     (case cg_memory_limit self of
        Some limit \<Rightarrow> if 0 < limit then Some (percent (working_set self) limit) else None
      | None \<Rightarrow> None)"

definition cgroup_argv :: "string list" where
  "cgroup_argv =
     [''sh'', ''-c'',
      ''for d in /sys/fs/cgroup/system.slice/docker-*.scope /sys/fs/cgroup/docker/*'' @
      '' /sys/fs/cgroup/machine.slice/libpod-*.scope /sys/fs/cgroup/lxc/*'' @
      '' /sys/fs/cgroup/lxc.payload/* /sys/fs/cgroup/qemu.slice/*.scope; do [ -f'' @
      '' \"$d/cpu.stat\" ] || continue; printf '#%s'' @ [CHR 92] @
      ''n' \"$d\"; cat \"$d/cpu.stat\" 2>/dev/null; printf 'memory.current %s'' @ [CHR 92] @
      ''n' \"$(cat \"$d/memory.current\" 2>/dev/null)\"; printf 'inactive_file %s'' @ [CHR 92] @
      ''n' \"$(awk '/^inactive_file /{print $2}' \"$d/memory.stat\" 2>/dev/null)\"; printf'' @
      '' 'memory.max %s'' @ [CHR 92] @
      ''n' \"$(cat \"$d/memory.max\" 2>/dev/null)\"; printf 'pids.current %s'' @ [CHR 92] @
      ''n' \"$(cat \"$d/pids.current\" 2>/dev/null)\"; done; exit 0'']"

text \<open>A line that is not a header, applied to the cgroup whose section it is in.\<close>

definition cgroup_field :: "string \<Rightarrow> cgroup_stats \<Rightarrow> cgroup_stats" where
  "cgroup_field line current =
     (case split_once_ws line of
        None \<Rightarrow> current
      | Some (key, v0) \<Rightarrow>
          (let v = trim v0
           in if key = ''usage_usec'' then current\<lparr>cg_usage_usec := u64_or_zero v\<rparr>
              else if key = ''memory.current'' then current\<lparr>cg_memory_bytes := u64_or_zero v\<rparr>
              else if key = ''inactive_file'' then current\<lparr>cg_inactive_file := u64_or_zero v\<rparr>
              else if key = ''memory.max'' then current\<lparr>cg_memory_limit := parse_u64 v\<rparr>
              else if key = ''pids.current'' then current\<lparr>cg_pids := u64_or_zero v\<rparr>
              else current))"

definition cgroup_line :: "string \<Rightarrow> cgroup_stats list \<Rightarrow> cgroup_stats list" where
  "cgroup_line line out =
     (case strip_prefix ''#'' line of
        Some path \<Rightarrow> out @ [cgroup_default (trim path)]
      | None \<Rightarrow>
          if out = [] then [] else butlast out @ [cgroup_field line (last out)])"

definition parse_cgroups :: "string \<Rightarrow> cgroup_stats list" where
  "parse_cgroups text = fold cgroup_line (lines text) []"

definition cgroup_descriptor :: source_descriptor where
  "cgroup_descriptor =
     \<lparr>sd_id = ''cgroup.containers'', sd_display = ''Containers & VMs'',
      sd_description =
        ''Per-container and per-VM CPU, memory and process counts, straight from cgroup v2'',
      sd_produces = [Container, VirtualMachine],
      sd_requires = requirements_path ''/sys/fs/cgroup/cgroup.controllers'',
      sd_default_enabled = True\<rparr>"

definition cgroup_request :: request where "cgroup_request = Exec cgroup_argv"

definition cgroup_entity :: "entity \<Rightarrow> cgroup_stats \<Rightarrow> entity" where
  "cgroup_entity host c =
     (let (kind, name) = identify c
      in ent_with_label (child_of host kind name) ''cgroup'' (cg_path c))"

definition cgroup_row_ops :: "source_id \<Rightarrow> entity \<Rightarrow> cgroup_stats \<Rightarrow> out_op list" where
  "cgroup_row_ops sid host c =
     (let e = cgroup_entity host c;
          memory = gauge sid (ent_id e) ''memory'' ''Memory'' Bytes
      in ([Emit (with_scale (counter sid (ent_id e) ''cpu'' ''CPU'' Percent)
             (f_div (f_of_nat 100) (f_of_nat 1000000))) (Uint (cg_usage_usec c)),
           Emit (case cg_memory_limit c of
                   Some limit \<Rightarrow> with_max memory (f_of_nat (unat limit)) | None \<Rightarrow> memory)
             (Uint (working_set c))]
          @ (case memory_fraction c of
               Some fraction \<Rightarrow>
                 [Emit (gauge sid (ent_id e) ''memory_usage'' ''Memory used'' Percent) (Float fraction)]
             | None \<Rightarrow> [])
          @ [Emit (gauge sid (ent_id e) ''pids'' ''Processes'' Count) (Uint (cg_pids c))])
         @ [Declare e])"

definition cgroup_ops :: "target_ctx \<Rightarrow> responses \<Rightarrow> out_op list" where
  "cgroup_ops ctx responses =
     (case responses_text responses cgroup_request of
        None \<Rightarrow> []
      | Some text \<Rightarrow>
          concat (map (cgroup_row_ops (sd_id cgroup_descriptor) (ctx_host ctx))
            (filter is_running (parse_cgroups text))))"

definition cgroup_source :: source where
  "cgroup_source = source_of cgroup_descriptor [cgroup_request] cgroup_ops"

lemma identify_kind: "fst (identify c) = Container \<or> fst (identify c) = VirtualMachine"
  by (simp add: identify_def Let_def split: option.split)

lemma cgroup_entity_simps [simp]:
  "ent_kind (cgroup_entity host c) = fst (identify c)"
  "ent_parent (cgroup_entity host c) = Some (ent_id host)"
  by (simp_all add: cgroup_entity_def split_beta)

lemma cgroup_row_ops_ok:
  "ops_ok cgroup_descriptor (ent_id host) (cgroup_row_ops (sd_id cgroup_descriptor) host c)"
  unfolding cgroup_row_ops_def Let_def
  by (rule ops_ok_entity)
    (use identify_kind in \<open>auto simp: cgroup_descriptor_def split: option.split\<close>)

interpretation cgroup_emits: emitting_source cgroup_descriptor "[cgroup_request]" cgroup_ops
proof
  show "is_remote r \<and> r \<noteq> Exec []" if "r \<in> set [cgroup_request]" for r
    using that by (simp add: cgroup_request_def cgroup_argv_def)
  show "ops_ok cgroup_descriptor (ent_id (ctx_host ctx)) (cgroup_ops ctx responses)" for ctx responses
    by (auto simp: cgroup_ops_def list_all_iff cgroup_row_ops_ok intro!: ops_ok_concat split: option.split)
  show "cgroup_ops ctx responses = cgroup_ops ctx responses'"
    if "\<And>r. r \<in> set [cgroup_request] \<Longrightarrow> responses_text responses r = responses_text responses' r"
    for ctx responses responses'
    using that [of cgroup_request] by (simp add: cgroup_ops_def)
  show "cgroup_ops ctx [] = []" for ctx by (simp add: cgroup_ops_def)
qed

end
