(* ===== verification/Sensors.thy ===== *)
theory Sensors
  imports Emission
begin

text \<open>
  Temperatures, fans and power (\<open>crates/sg-collect/src/sensors.rs\<close>).
\<close>

record reading =
  rd_chip :: string
  rd_key :: string
  rd_label :: string
  rd_value :: f64
  rd_critical :: "f64 option"

datatype quantity = Temperature | Fan | Power

definition quantity_of :: "reading \<Rightarrow> quantity" where
  "quantity_of self =
     (if prefix ''temp'' (rd_key self) then Temperature
      else if prefix ''fan'' (rd_key self) then Fan else Power)"

fun quantity_unit :: "quantity \<Rightarrow> munit" where
  "quantity_unit Temperature = Celsius"
| "quantity_unit Fan = Rpm"
| "quantity_unit Power = Watts"

fun quantity_metric :: "quantity \<Rightarrow> string" where
  "quantity_metric Temperature = ''temp''"
| "quantity_metric Fan = ''fan''"
| "quantity_metric Power = ''power''"

definition reading_display :: "reading \<Rightarrow> string" where
  "reading_display self =
     (if rd_label self = [] then rd_chip self @ '' '' @ rd_key self else rd_label self)"

definition cpu_chips :: "string list" where
  "cpu_chips = [''coretemp'', ''k10temp'', ''k8temp'', ''zenpower'', ''cpu_thermal'', ''x86_pkg_temp'']"

definition is_cpu_temperature :: "reading \<Rightarrow> bool" where
  "is_cpu_temperature self \<longleftrightarrow> quantity_of self = Temperature \<and> rd_chip self \<in> set cpu_chips"

definition sensors_argv :: "string list" where
  "sensors_argv =
     [''sh'', ''-c'',
      ''for d in /sys/class/hwmon/hwmon*; do [ -d \"$d\" ] || continue; printf '#|%s'' @ [CHR 92] @
      ''n' \"$(cat \"$d/name\" 2>/dev/null)\"; for f in \"$d\"/temp*_input \"$d\"/fan*_input'' @
      '' \"$d\"/power*_input; do [ -f \"$f\" ] || continue; b=${f##*/}; b=${b%_input}; printf'' @
      '' '%s|%s|%s|%s'' @ [CHR 92] @
      ''n' \"$b\" \"$(cat \"$f\" 2>/dev/null)\" \"$(cat \"$d/${b}_crit\" 2>/dev/null)\" \"$(cat'' @
      '' \"$d/${b}_label\" 2>/dev/null)\"; done; done; for z in'' @
      '' /sys/class/thermal/thermal_zone*; do [ -d \"$z\" ] || continue; printf '#|%s'' @ [CHR 92] @
      ''n' \"$(cat \"$z/type\" 2>/dev/null)\"; printf 'temp|%s||'' @ [CHR 92] @
      ''n' \"$(cat \"$z/temp\" 2>/dev/null)\"; done; exit 0'']"

text \<open>The conversion of one reading, by what it measures.\<close>

definition convert :: "reading \<Rightarrow> reading" where
  "convert r =
     (case quantity_of r of
        Temperature \<Rightarrow>
          r\<lparr>rd_value := f_div (rd_value r) (f_of_nat 1000),
            rd_critical := map_option (\<lambda>c. f_div c (f_of_nat 1000)) (rd_critical r)\<rparr>
      | Power \<Rightarrow> r\<lparr>rd_value := f_div (rd_value r) (f_of_nat 1000000), rd_critical := None\<rparr>
      | Fan \<Rightarrow> r\<lparr>rd_critical := None\<rparr>)"

definition sensor_row :: "string \<Rightarrow> string \<Rightarrow> reading option" where
  "sensor_row chip line =
     (case split_char (CHR ''|'') line of
        key # raw # cols \<Rightarrow>
          (case parse_f64 (trim raw) of
             None \<Rightarrow> None
           | Some v \<Rightarrow>
               (let r = convert \<lparr>rd_chip = chip, rd_key = trim key,
                          rd_label = (case cols of _ # l # _ \<Rightarrow> trim l | _ \<Rightarrow> []),
                          rd_value = v,
                          rd_critical = (case cols of c # _ \<Rightarrow> parse_f64 (trim c) | [] \<Rightarrow> None)\<rparr>
                in if f_lt (f_of_nat 0) (rd_value r) then Some r else None))
      | _ \<Rightarrow> None)"

fun sensors_loop :: "string \<Rightarrow> string list \<Rightarrow> reading list" where
  "sensors_loop chip [] = []"
| "sensors_loop chip (l # ls) =
     (case strip_prefix ''#|'' l of
        Some name \<Rightarrow> sensors_loop (trim name) ls
      | None \<Rightarrow>
          if chip = [] then sensors_loop chip ls
          else
            (case sensor_row chip l of
               Some r \<Rightarrow> r # sensors_loop chip ls
             | None \<Rightarrow> sensors_loop chip ls))"

definition parse_sensors :: "string \<Rightarrow> reading list" where
  "parse_sensors text = sensors_loop [] (lines text)"

text \<open>\<open>max_by\<close> keeps the later of two values that compare equal or do not compare.\<close>

fun last_greatest :: "f64 \<Rightarrow> f64 list \<Rightarrow> f64" where
  "last_greatest best [] = best"
| "last_greatest best (v # vs) =
     last_greatest (if f_cmp best v = Some 1 then best else v) vs"

definition cpu_temperature :: "reading list \<Rightarrow> f64 option" where
  "cpu_temperature readings =
     (case map rd_value (filter is_cpu_temperature readings) of
        [] \<Rightarrow> None
      | v # vs \<Rightarrow> Some (last_greatest v vs))"

definition sensor_descriptor :: source_descriptor where
  "sensor_descriptor =
     \<lparr>sd_id = ''sys.sensors'', sd_display = ''Sensors'',
      sd_description = ''Temperatures, fan speeds and power draw, straight from sysfs'',
      sd_produces = [Sensor], sd_requires = requirements_path ''/sys/class/hwmon'',
      sd_default_enabled = True\<rparr>"

definition sensor_request :: request where "sensor_request = Exec sensors_argv"

definition sensor_entity :: "entity \<Rightarrow> reading \<Rightarrow> entity" where
  "sensor_entity host r =
     ent_with_label (child_of host Sensor (reading_display r)) ''chip'' (rd_chip r)"

definition sensor_row_ops :: "source_id \<Rightarrow> entity \<Rightarrow> reading \<Rightarrow> out_op list" where
  "sensor_row_ops sid host r =
     (let q = quantity_of r; e = sensor_entity host r;
          g = gauge sid (ent_id e) (quantity_metric q) (reading_display r) (quantity_unit q)
      in [Emit (case rd_critical r of Some c \<Rightarrow> with_max g c | None \<Rightarrow> g) (Float (rd_value r))]
         @ [Declare e])"

definition sensor_ops :: "target_ctx \<Rightarrow> responses \<Rightarrow> out_op list" where
  "sensor_ops ctx responses =
     (case responses_text responses sensor_request of
        None \<Rightarrow> []
      | Some text \<Rightarrow>
          (let readings = parse_sensors text
           in (case cpu_temperature readings of
                 Some t \<Rightarrow>
                   [Emit (gauge (sd_id sensor_descriptor) (ent_id (ctx_host ctx)) ''cpu_temp''
                      ''CPU temperature'' Celsius) (Float t)]
               | None \<Rightarrow> [])
              @ concat (map (sensor_row_ops (sd_id sensor_descriptor) (ctx_host ctx)) readings)))"

definition sensor_source :: source where
  "sensor_source = source_of sensor_descriptor [sensor_request] sensor_ops"

lemma sensor_row_ops_ok:
  "ops_ok sensor_descriptor (ent_id host) (sensor_row_ops (sd_id sensor_descriptor) host r)"
  unfolding sensor_row_ops_def Let_def
  by (rule ops_ok_entity) (auto simp: sensor_entity_def sensor_descriptor_def split: option.split)

interpretation sensor_emits: emitting_source sensor_descriptor "[sensor_request]" sensor_ops
proof
  show "is_remote r \<and> r \<noteq> Exec []" if "r \<in> set [sensor_request]" for r
    using that by (simp add: sensor_request_def sensors_argv_def)
  show "ops_ok sensor_descriptor (ent_id (ctx_host ctx)) (sensor_ops ctx responses)" for ctx responses
  proof (cases "responses_text responses sensor_request")
    case (Some t)
    show ?thesis
      unfolding sensor_ops_def Some option.case Let_def
      by (rule ops_ok_append)
        (simp_all add: ops_ok_concat list_all_iff sensor_row_ops_ok split: option.split)
  qed (simp add: sensor_ops_def)
  show "sensor_ops ctx responses = sensor_ops ctx responses'"
    if "\<And>r. r \<in> set [sensor_request] \<Longrightarrow> responses_text responses r = responses_text responses' r"
    for ctx responses responses'
    using that [of sensor_request] by (simp add: sensor_ops_def)
  show "sensor_ops ctx [] = []" for ctx by (simp add: sensor_ops_def)
qed

end
