(* ===== verification/Builtin.thy ===== *)
theory Builtin
  imports Runtime Load Memory Tcp Pressure Cpu Filesystem Network Disk_Io Tasks Cgroup Sensors
begin

text \<open>
  The built-in collectors together (\<open>crates/sg-collect/src/lib.rs\<close>, \<open>sg-core/src/lib.rs\<close>): the
  contract of each, proved where it is defined, gives what holds of every refresh of a host.
\<close>

definition builtin_sources :: "source list" where
  "builtin_sources =
     [cpu_source, memory_source, load_source, filesystem_source, diskio_source, network_source,
      tcp_source, pressure_source, sensor_source, cgroup_source, process_source]"

definition default_sources :: "source list" where
  "default_sources = builtin_sources"

lemmas source_defs = cpu_source_def memory_source_def load_source_def filesystem_source_def
  diskio_source_def network_source_def tcp_source_def pressure_source_def sensor_source_def
  cgroup_source_def process_source_def

lemmas contracts = cpu_emits.keeps_contract memory_emits.keeps_contract load_emits.keeps_contract
  filesystem_emits.keeps_contract diskio_emits.keeps_contract network_emits.keeps_contract
  tcp_emits.keeps_contract pressure_emits.keeps_contract sensor_emits.keeps_contract
  cgroup_emits.keeps_contract process_emits.keeps_contract

interpretation builtin: sound_sources builtin_sources
  by (rule sound_sources.intro) (auto simp: builtin_sources_def source_defs contracts)

section \<open>Which series are whose\<close>

text \<open>
  The host-level metrics of each collector, and the kinds of entity its other series are about.
\<close>

definition claims :: "(source_id \<times> string list \<times> entity_kind list) list" where
  "claims =
     [(''proc.cpu'', [''cpu_usage'', ''cpu_user'', ''cpu_system'', ''cpu_iowait'', ''cpu_steal'',
        ''procs_running'', ''procs_blocked'', ''ctx_switches''], [CpuCore]),
      (''proc.memory'', [''mem_usage'', ''mem_used'', ''mem_total'', ''mem_available'', ''mem_free'',
        ''mem_cached'', ''mem_buffers'', ''swap_usage'', ''swap_used'', ''swap_total''], []),
      (''proc.load'', [''load1'', ''load5'', ''load15'', ''procs_total'', ''uptime''], []),
      (''proc.filesystem'', [''disk_usage''], [entity_kind.Filesystem]),
      (''proc.diskio'', [''disk_read'', ''disk_write''], [Disk]),
      (''proc.network'', [''net_rx'', ''net_tx''], [NetworkInterface]),
      (''proc.tcp'', [''sockets'', ''tcp_inuse'', ''tcp_timewait'', ''tcp_orphan'', ''udp_inuse'',
        ''tcp_established'', ''tcp_in_segs'', ''tcp_out_segs'', ''tcp_retrans'', ''tcp_active_opens'',
        ''tcp_passive_opens''], []),
      (''proc.pressure'', [''pressure_cpu'', ''pressure_cpu_60s'', ''pressure_cpu_full'',
        ''pressure_memory'', ''pressure_memory_60s'', ''pressure_memory_full'', ''pressure_io'',
        ''pressure_io_60s'', ''pressure_io_full''], []),
      (''sys.sensors'', [''cpu_temp''], [Sensor]),
      (''cgroup.containers'', [], [Container, VirtualMachine]),
      (''proc.process'', [], [Process])]"

definition hosted :: "entity_id \<Rightarrow> string list \<Rightarrow> entity_kind list \<Rightarrow> series_descriptor \<Rightarrow> bool" where
  "hosted host ms ks s \<longleftrightarrow>
     ser_entity s = host \<and> ser_metric s \<in> set ms
     \<or> (\<exists>k \<in> set ks. \<exists>n. ser_entity s = entity_child host (slug k) n)"

definition keeps_to :: "entity_id \<Rightarrow> string list \<Rightarrow> entity_kind list \<Rightarrow> out_op list \<Rightarrow> bool" where
  "keeps_to host ms ks ops \<longleftrightarrow> list_all (\<lambda>(s, _). hosted host ms ks s) (emitted ops)"

lemma keeps_to_simps [simp]:
  "keeps_to host ms ks []"
  "keeps_to host ms ks (Emit s v # ops) \<longleftrightarrow> hosted host ms ks s \<and> keeps_to host ms ks ops"
  "keeps_to host ms ks (Declare e # ops) \<longleftrightarrow> keeps_to host ms ks ops"
  "keeps_to host ms ks (a @ b) \<longleftrightarrow> keeps_to host ms ks a \<and> keeps_to host ms ks b"
  by (simp_all add: keeps_to_def)

lemma keeps_to_concat [simp]: "keeps_to host ms ks (concat xss) \<longleftrightarrow> (\<forall>xs \<in> set xss. keeps_to host ms ks xs)"
  by (induction xss) simp_all

lemma hosted_host [simp]: "ser_entity s = host \<Longrightarrow> ser_metric s \<in> set ms \<Longrightarrow> hosted host ms ks s"
  by (simp add: hosted_def)

lemma hosted_child: "k \<in> set ks \<Longrightarrow> ser_entity s = entity_child host (slug k) n \<Longrightarrow> hosted host ms ks s"
  by (auto simp: hosted_def)

text \<open>A collector's writes about one entity stay keeps_to the entity's kind.\<close>

lemma keeps_to_entity:
  assumes "list_all (about d (entity_child host (slug k) n)) os" "k \<in> set ks"
  shows "keeps_to host ms ks (os @ [Declare e])"
  unfolding keeps_to_def using assms
  by (induction os rule: emitted.induct) (auto intro: hosted_child)

lemma ent_ids [simp]:
  "ent_id (core_entity host i) = entity_child (ent_id host) (slug CpuCore) (show_nat (unat i))"
  "ent_id (fs_entity host fs) = entity_child (ent_id host) (slug entity_kind.Filesystem) (fs_mount fs)"
  "ent_id (if_entity host ph iface) = entity_child (ent_id host) (slug NetworkInterface) (if_name iface)"
  "ent_id (sensor_entity host r) = entity_child (ent_id host) (slug Sensor) (reading_display r)"
  "ent_id (process_entity host p) = entity_child (ent_id host) (slug Process) (show_nat (unat (pc_pid p)))"
  "ent_id (cgroup_entity host c) = entity_child (ent_id host) (slug (fst (identify c))) (snd (identify c))"
  by (simp_all add: core_entity_def fs_entity_def if_entity_def sensor_entity_def process_entity_def
      cgroup_entity_def split_beta)

definition metrics_of :: "source_id \<Rightarrow> string list" where
  "metrics_of sid = (case map_of claims sid of Some (ms, _) \<Rightarrow> ms | None \<Rightarrow> [])"

definition kinds_of :: "source_id \<Rightarrow> entity_kind list" where
  "kinds_of sid = (case map_of claims sid of Some (_, ks) \<Rightarrow> ks | None \<Rightarrow> [])"

definition claimed :: "source_descriptor \<Rightarrow> entity_id \<Rightarrow> out_op list \<Rightarrow> bool" where
  "claimed d host ops \<longleftrightarrow> keeps_to host (metrics_of (sd_id d)) (kinds_of (sd_id d)) ops"

lemmas claimed_simps = claimed_def metrics_of_def kinds_of_def claims_def

lemma cpu_claimed: "claimed cpu_descriptor (ent_id (ctx_host ctx)) (cpu_ops ctx responses)"
proof -
  have "keeps_to (ent_id (ctx_host ctx)) ms [CpuCore] (core_ops (sd_id cpu_descriptor) ctx c)" for ms c
    unfolding core_ops_def Let_def split_beta
    by (rule keeps_to_entity [where d = cpu_descriptor]) simp_all
  then show ?thesis
    by (auto simp: cpu_ops_def cpu_ops_of_def Let_def claimed_simps cpu_descriptor_def split: option.split)
qed

lemma memory_claimed: "claimed memory_descriptor (ent_id (ctx_host ctx)) (memory_ops ctx responses)"
  by (auto simp: memory_ops_def memory_ops_of_def Let_def claimed_simps memory_descriptor_def
      split: option.split)

lemma load_claimed: "claimed load_descriptor (ent_id (ctx_host ctx)) (load_ops ctx responses)"
  by (auto simp: load_ops_def Let_def claimed_simps load_descriptor_def split: option.split)

lemma filesystem_claimed:
  "claimed filesystem_descriptor (ent_id (ctx_host ctx)) (filesystem_ops ctx responses)"
proof -
  have "keeps_to (ent_id host) ms [entity_kind.Filesystem] (fs_row_ops (sd_id filesystem_descriptor) host fs)"
    for host ms fs
    unfolding fs_row_ops_def Let_def
    by (rule keeps_to_entity [where d = filesystem_descriptor]) simp_all
  then show ?thesis
    unfolding filesystem_ops_def filesystem_ops_of_def Let_def
    by (auto simp: claimed_simps filesystem_descriptor_def split: option.split)
qed

lemma diskio_claimed: "claimed diskio_descriptor (ent_id (ctx_host ctx)) (diskio_ops ctx responses)"
proof -
  have one: "keeps_to (ent_id host) ms [Disk] (disk_ops (sd_id diskio_descriptor) host all stacked disk)"
    for host ms all stacked disk
    unfolding disk_ops_def Let_def
    by (rule keeps_to_entity [where d = diskio_descriptor]) simp_all
  have "keeps_to (ent_id host) ms [Disk] (fst (disk_loop (sd_id diskio_descriptor) host all stacked ds rd wr))"
    for host ms all stacked ds rd wr
    by (induction ds arbitrary: rd wr) (auto simp: split_beta Let_def one)
  then show ?thesis
    unfolding diskio_ops_def diskio_ops_of_def Let_def split_beta
    by (auto simp: claimed_simps diskio_descriptor_def split: option.split)
qed

lemma network_claimed: "claimed network_descriptor (ent_id (ctx_host ctx)) (network_ops ctx responses)"
proof -
  have one: "keeps_to (ent_id host) ms [NetworkInterface] (iface_ops (sd_id network_descriptor) host ph iface)"
    for host ms ph iface
    unfolding iface_ops_def Let_def
    by (rule keeps_to_entity [where d = network_descriptor]) simp_all
  have "keeps_to (ent_id host) ms [NetworkInterface]
      (fst (iface_loop (sd_id network_descriptor) host ph is rx tx))" for host ms ph "is" rx tx
    by (induction "is" arbitrary: rx tx) (auto simp: split_beta Let_def one)
  then show ?thesis
    unfolding network_ops_def network_ops_of_def Let_def split_beta
    by (auto simp: claimed_simps network_descriptor_def split: option.split)
qed

lemma tcp_claimed: "claimed tcp_descriptor (ent_id (ctx_host ctx)) (tcp_ops ctx responses)"
proof -
  let ?host = "ent_id (ctx_host ctx)" and ?ms = "metrics_of ''proc.tcp''"
  have "keeps_to ?host ?ms [] (sockstat_ops sid ?host s)" for sid s
    unfolding sockstat_ops_def
    by (auto simp: claimed_simps split: option.split)
  moreover have "keeps_to ?host ?ms [] (snmp_ops sid ?host s)" for sid s
  proof (cases "hm_get s ''Tcp''")
    case (Some t)
    show ?thesis
      unfolding snmp_ops_def Some option.case
      by (auto simp: claimed_simps split: option.split)
  qed (simp add: snmp_ops_def)
  ultimately show ?thesis
    unfolding tcp_ops_def Let_def
    by (auto simp: claimed_def tcp_descriptor_def kinds_of_def claims_def split: option.split)
qed

lemma pressure_claimed: "claimed pressure_descriptor (ent_id (ctx_host ctx)) (pressure_ops ctx responses)"
  by (auto simp: pressure_ops_def resources_def pressure_resource_ops_def claimed_simps
      pressure_descriptor_def split: option.split)

lemma sensor_claimed: "claimed sensor_descriptor (ent_id (ctx_host ctx)) (sensor_ops ctx responses)"
proof -
  have "keeps_to (ent_id host) ms [Sensor] (sensor_row_ops (sd_id sensor_descriptor) host r)" for host ms r
    unfolding sensor_row_ops_def Let_def
    by (rule keeps_to_entity [where d = sensor_descriptor and k = Sensor and n = "reading_display r"])
      (simp_all split: option.split)
  then show ?thesis
    by (auto simp: sensor_ops_def Let_def claimed_simps sensor_descriptor_def split: option.split)
qed

lemma cgroup_claimed: "claimed cgroup_descriptor (ent_id (ctx_host ctx)) (cgroup_ops ctx responses)"
proof -
  have "keeps_to (ent_id host) ms [Container, VirtualMachine] (cgroup_row_ops (sd_id cgroup_descriptor) host c)"
    for host ms c
    unfolding cgroup_row_ops_def Let_def
    by (rule keeps_to_entity [where d = cgroup_descriptor and k = "fst (identify c)" and n = "snd (identify c)"])
      (use identify_kind in \<open>auto split: option.split\<close>)
  then show ?thesis
    by (auto simp: cgroup_ops_def claimed_simps cgroup_descriptor_def split: option.split)
qed

lemma process_claimed: "claimed process_descriptor (ent_id (ctx_host ctx)) (process_ops ctx responses)"
proof -
  have "keeps_to (ent_id (ctx_host ctx)) ms [Process] (process_row_ops (sd_id process_descriptor) ctx p)"
    for ctx ms p
    unfolding process_row_ops_def Let_def
    by (rule keeps_to_entity [where d = process_descriptor]) simp_all
  then show ?thesis
    by (auto simp: process_ops_def claimed_simps process_descriptor_def split: option.split)
qed

section \<open>Every refresh with the built-in collectors\<close>

lemma builtin_shape:
  assumes "s \<in> set builtin_sources"
  shows "\<exists>d reqs ops. s = source_of d reqs ops \<and> sd_id d \<in> fst ` set claims
    \<and> (\<forall>ctx responses. ops_ok d (ent_id (ctx_host ctx)) (ops ctx responses)
        \<and> claimed d (ent_id (ctx_host ctx)) (ops ctx responses))"
proof -
  have shape: "\<exists>d' reqs' ops'. source_of d reqs ops = source_of d' reqs' ops' \<and> sd_id d' \<in> fst ` set claims
    \<and> (\<forall>ctx responses. ops_ok d' (ent_id (ctx_host ctx)) (ops' ctx responses)
        \<and> claimed d' (ent_id (ctx_host ctx)) (ops' ctx responses))"
    if "sd_id d \<in> fst ` set claims" "emitting_source d reqs ops"
      "\<And>ctx responses. claimed d (ent_id (ctx_host ctx)) (ops ctx responses)" for d reqs ops
    using that emitting_source.writes_ok by blast
  show ?thesis
    using assms unfolding builtin_sources_def source_defs
    by (simp only: list.set insert_iff empty_iff)
      (elim disjE FalseE; simp only:; rule shape;
        (rule cpu_claimed memory_claimed load_claimed filesystem_claimed diskio_claimed network_claimed
          tcp_claimed pressure_claimed sensor_claimed cgroup_claimed process_claimed
          cpu_emits.emitting_source_axioms memory_emits.emitting_source_axioms
          load_emits.emitting_source_axioms filesystem_emits.emitting_source_axioms
          diskio_emits.emitting_source_axioms network_emits.emitting_source_axioms
          tcp_emits.emitting_source_axioms pressure_emits.emitting_source_axioms
          sensor_emits.emitting_source_axioms cgroup_emits.emitting_source_axioms
          process_emits.emitting_source_axioms
        | simp add: claims_def cpu_descriptor_def memory_descriptor_def load_descriptor_def
            filesystem_descriptor_def diskio_descriptor_def network_descriptor_def tcp_descriptor_def
            pressure_descriptor_def sensor_descriptor_def cgroup_descriptor_def process_descriptor_def))
qed

text \<open>A descriptor a built-in source writes, and what else it then is.\<close>

definition builtin_series :: "entity_id \<Rightarrow> series_descriptor \<Rightarrow> bool" where
  "builtin_series host s \<longleftrightarrow>
     ser_source s \<in> fst ` set claims \<and> ser_id s = series_of (ser_entity s) (ser_metric s)
     \<and> hosted host (metrics_of (ser_source s)) (kinds_of (ser_source s)) s
     \<and> ser_kind s \<in> {Gauge, Counter}"

lemma val_fits_kind: "val_fits k v \<Longrightarrow> k \<in> {Gauge, Counter} \<and> as_f64 v \<noteq> None"
  by (cases k; cases v) simp_all

lemma emitted_ok:
  assumes "ops_ok d host ops" "claimed d host ops" "sd_id d \<in> fst ` set claims" "(s, v) \<in> set (emitted ops)"
  shows "builtin_series host s \<and> as_f64 v \<noteq> None"
proof -
  have "op_ok d ids (Emit s v)" if "list_all (op_ok d ids) ops" for ids
    using that assms(4) by (induction ops rule: emitted.induct) auto
  then have "ser_source s = sd_id d" "ser_id s = series_of (ser_entity s) (ser_metric s)"
    "val_fits (ser_kind s) v"
    using assms(1) by (auto simp: ops_ok_def)
  moreover have "hosted host (metrics_of (sd_id d)) (kinds_of (sd_id d)) s"
    using assms(2,4) by (auto simp: claimed_def keeps_to_def list_all_iff)
  ultimately show ?thesis using assms(3) val_fits_kind by (auto simp: builtin_series_def)
qed

lemma builtin_writes:
  assumes "s \<in> set builtin_sources"
  shows "\<exists>ops. src_parse s ctx responses (sink_new at_ms) = (run_ops ops (sink_new at_ms), Inr ())
    \<and> (\<forall>(d, v) \<in> set (emitted ops). builtin_series (ent_id (ctx_host ctx)) d \<and> as_f64 v \<noteq> None)"
proof -
  obtain d reqs ops where s: "s = source_of d reqs ops" "sd_id d \<in> fst ` set claims"
    and ok: "ops_ok d (ent_id (ctx_host ctx)) (ops ctx responses)"
      "claimed d (ent_id (ctx_host ctx)) (ops ctx responses)"
    using builtin_shape [OF assms] by blast
  have "\<forall>(e, v) \<in> set (emitted (ops ctx responses)). builtin_series (ent_id (ctx_host ctx)) e \<and> as_f64 v \<noteq> None"
    using emitted_ok [OF ok s(2)] by blast
  then show ?thesis
    by (intro exI [of _ "ops ctx responses"]) (simp add: s(1) source_of_def)
qed

text \<open>The sink a tick is made of.\<close>

definition builtin_sink :: "sample_sink \<Rightarrow> entity_id \<Rightarrow> bool" where
  "builtin_sink sink host \<longleftrightarrow>
     list_all (builtin_series host) (sk_descriptors sink)
     \<and> list_all (\<lambda>x. as_f64 (sam_value x) \<noteq> None) (sk_samples sink)"

lemma builtin_sink_fold:
  "set ss \<subseteq> set builtin_sources \<Longrightarrow> builtin_sink sink (ent_id (ctx_host ctx)) \<Longrightarrow>
     builtin_sink (fold (\<lambda>s sink. sink_absorb sink (fst (src_parse s ctx responses (sink_new at_ms)))) ss sink)
       (ent_id (ctx_host ctx))"
proof (induction ss arbitrary: sink)
  case (Cons s ss)
  then obtain ops where ops: "src_parse s ctx responses (sink_new at_ms) = (run_ops ops (sink_new at_ms), Inr ())"
    "\<forall>(d, v) \<in> set (emitted ops). builtin_series (ent_id (ctx_host ctx)) d \<and> as_f64 v \<noteq> None"
    using builtin_writes [of s] by (meson list.set_intros(1) subsetD)
  have "builtin_sink (sink_absorb sink (run_ops ops (sink_new at_ms))) (ent_id (ctx_host ctx))"
    using Cons.prems(2) ops(2)
    by (auto simp: builtin_sink_def run_ops_fields list_all_iff sample_new_def)
  with Cons show ?case by (simp add: ops(1))
qed simp

lemma builtin_collect:
  assumes "co_sources self = builtin_sources" "collect ctx responses at_ms self = (self', t)"
  shows "tk_errors t = [] \<and> list_all (builtin_series (ent_id (ctx_host ctx))) (tk_descriptors t)
    \<and> list_all (\<lambda>x. as_f64 (sam_value x) \<noteq> None) (tk_samples t)"
proof -
  let ?ss = "applicable self (ctx_caps ctx)"
  let ?sink = "fold (\<lambda>s sink. sink_absorb sink (fst (src_parse s ctx responses (sink_new at_ms))))
      (filter (parses ctx responses at_ms) ?ss) (sink_new at_ms)"
  have sub: "set ?ss \<subseteq> set builtin_sources" using assms(1) by (auto simp: applicable_def)
  have sink: "builtin_sink ?sink (ent_id (ctx_host ctx))"
    by (rule builtin_sink_fold) (use sub in \<open>auto simp: builtin_sink_def\<close>)
  have t: "tk_descriptors t = sk_descriptors ?sink"
    "tk_samples t = snd (process (co_rate self) (sk_descriptors ?sink) (sk_samples ?sink))"
    "tk_errors t = failures ctx responses at_ms ?ss"
    using assms(2) by (auto simp: collect_eq Let_def split_beta)
  have "snd (src_parse s ctx responses (sink_new at_ms)) = Inr ()" if "s \<in> set ?ss" for s
  proof -
    from that sub have "s \<in> set builtin_sources" by blast
    from builtin_writes [OF this, of ctx responses at_ms] show ?thesis by (elim exE conjE) simp
  qed
  then have "failures ctx responses at_ms ?ss = []" by (auto simp: failures_def)
  moreover have "as_f64 (sam_value x) \<noteq> None" if "x \<in> set (tk_samples t)" for x
    using process_value [OF that [unfolded t(2)]] sink by (auto simp: builtin_sink_def list_all_iff)
  ultimately show ?thesis using sink by (simp add: t builtin_sink_def list_all_iff)
qed

text \<open>
  C18: what every refresh of the built-in collectors hands over, whatever the host answered: no
  collector reports an error; every sample carries the refresh's time, a number, and the id of a
  series described in the same refresh; every series is a gauge or a counter of one of the eleven
  collectors, is named by its entity and metric, and belongs to the host or to an entity reported
  in the same refresh; and every reported entity hangs below the host or another such entity.
\<close>

theorem builtin_tick_typed:
  "case collect ctx responses at_ms (self\<lparr>co_sources := builtin_sources\<rparr>) of (_, t) \<Rightarrow>
     tk_errors t = []
     \<and> list_all (\<lambda>x. sam_at x = at_ms \<and> as_f64 (sam_value x) \<noteq> None
          \<and> sam_series x \<in> ser_id ` set (tk_descriptors t)) (tk_samples t)
     \<and> list_all (\<lambda>d. ser_kind d \<in> {Gauge, Counter} \<and> ser_source d \<in> fst ` set claims
          \<and> ser_id d = series_of (ser_entity d) (ser_metric d)
          \<and> ser_entity d \<in> insert (ent_id (ctx_host ctx)) (set (entity_ids t))) (tk_descriptors t)
     \<and> list_all (\<lambda>e. \<exists>p \<in> insert (ent_id (ctx_host ctx)) (set (entity_ids t)). ent_parent e = Some p)
          (tk_entities t)"
proof -
  obtain self' t where c: "collect ctx responses at_ms (self\<lparr>co_sources := builtin_sources\<rparr>) = (self', t)"
    by fastforce
  have "co_sources (self\<lparr>co_sources := builtin_sources\<rparr>) = builtin_sources" by simp
  note a = builtin_collect [OF this c] and b = builtin.tick_sound [OF this c]
  show ?thesis
    unfolding c prod.case using a b by (auto simp: list_all_iff builtin_series_def)
qed

section \<open>No two collectors share a series\<close>

lemma claimed_metrics_distinct: "distinct (concat (map (\<lambda>(_, ms, _). ms) claims))"
  by (simp add: claims_def)

lemma claimed_kinds_distinct: "distinct (concat (map (\<lambda>(_, _, ks). map slug ks) claims))"
  by (simp add: claims_def)

lemma claimed_ids_distinct: "distinct (map fst claims)"
  by (simp add: claims_def)

lemma slug_no_colon: "(sid, ms, ks) \<in> set claims \<Longrightarrow> k \<in> set ks \<Longrightarrow> CHR '':'' \<notin> set (slug k)"
  by (auto simp: claims_def)

lemma distinct_concat_owner:
  "distinct (concat (map f xs)) \<Longrightarrow> x \<in> set xs \<Longrightarrow> y \<in> set xs \<Longrightarrow> z \<in> set (f x) \<Longrightarrow> z \<in> set (f y) \<Longrightarrow> x = y"
  by (induction xs) auto

lemma claim_of:
  assumes "sid \<in> fst ` set claims"
  shows "\<exists>ms ks. (sid, ms, ks) \<in> set claims \<and> metrics_of sid = ms \<and> kinds_of sid = ks"
proof -
  obtain ms ks where c: "(sid, ms, ks) \<in> set claims" using assms by auto
  then have "map_of claims sid = Some (ms, ks)"
    by (intro map_of_is_SomeI claimed_ids_distinct)
  with c show ?thesis by (auto simp: metrics_of_def kinds_of_def)
qed

lemma child_kind_eq:
  "entity_child host k n @ ''#'' @ m = entity_child host k' n' @ ''#'' @ m' \<Longrightarrow>
     CHR '':'' \<notin> set k \<Longrightarrow> CHR '':'' \<notin> set k' \<Longrightarrow> k = k'"
  by (auto simp: entity_child_def append_eq_append_conv2 Cons_eq_append_conv append_eq_Cons_conv)

lemma series_source_unique:
  assumes "builtin_series host a" "builtin_series host b" "ser_id a = ser_id b"
  shows "ser_source a = ser_source b"
proof -
  obtain ms ks where a: "(ser_source a, ms, ks) \<in> set claims" "hosted host ms ks a"
    using claim_of assms(1) unfolding builtin_series_def by metis
  obtain ms' ks' where b: "(ser_source b, ms', ks') \<in> set claims" "hosted host ms' ks' b"
    using claim_of assms(2) unfolding builtin_series_def by metis
  have eq: "ser_entity a @ ''#'' @ ser_metric a = ser_entity b @ ''#'' @ ser_metric b"
    using assms by (simp add: builtin_series_def series_of_def)
  consider
    (host) "ser_entity a = host" "ser_metric a \<in> set ms" "ser_entity b = host" "ser_metric b \<in> set ms'"
    | (child) k k' n n' where "k \<in> set ks" "ser_entity a = entity_child host (slug k) n"
        "k' \<in> set ks'" "ser_entity b = entity_child host (slug k') n'"
    | (mixed) k n where "ser_entity a = host \<and> ser_entity b = entity_child host (slug k) n
        \<or> ser_entity b = host \<and> ser_entity a = entity_child host (slug k) n"
    using a(2) b(2) unfolding hosted_def by blast
  then show ?thesis
  proof cases
    case host
    then have "ser_metric a = ser_metric b" using eq by simp
    with host a(1) b(1) distinct_concat_owner [OF claimed_metrics_distinct, of "(ser_source a, ms, ks)" "(ser_source b, ms', ks')"]
    show ?thesis by auto
  next
    case child
    have "slug k = slug k'"
      by (rule child_kind_eq [of host _ n "ser_metric a" _ n' "ser_metric b"])
        (use eq child slug_no_colon [OF a(1)] slug_no_colon [OF b(1)] in simp_all)
    then have "slug k \<in> slug ` set ks" "slug k \<in> slug ` set ks'"
      using child(1,3) by (metis imageI)+
    with a(1) b(1) distinct_concat_owner [OF claimed_kinds_distinct, of "(ser_source a, ms, ks)" "(ser_source b, ms', ks')" "slug k"]
    show ?thesis by auto
  next
    case mixed
    then show ?thesis using eq by (auto simp: entity_child_def)
  qed
qed

text \<open>
  C19: no two built-in collectors write to one series: there is a function from series ids to
  collectors that names the collector of every series of every refresh of a host. So a sample can
  only ever be mixed up with samples of its own collector.
\<close>

theorem series_have_one_source:
  "\<exists>owner. \<forall>ctx responses at_ms self.
     case collect (ctx\<lparr>ctx_host := host\<rparr>) responses at_ms (self\<lparr>co_sources := builtin_sources\<rparr>) of (_, t) \<Rightarrow>
       list_all (\<lambda>d. owner (ser_id d) = ser_source d) (tk_descriptors t)"
proof -
  let ?owner = "\<lambda>i. THE src. \<exists>d. builtin_series (ent_id host) d \<and> ser_id d = i \<and> ser_source d = src"
  have owner: "?owner (ser_id d) = ser_source d" if "builtin_series (ent_id host) d" for d
    using that series_source_unique by (intro the_equality) blast+
  have "case collect (ctx\<lparr>ctx_host := host\<rparr>) responses at_ms (self\<lparr>co_sources := builtin_sources\<rparr>) of (_, t) \<Rightarrow>
      list_all (\<lambda>d. ?owner (ser_id d) = ser_source d) (tk_descriptors t)" for ctx responses at_ms self
  proof -
    obtain self' t where c: "collect (ctx\<lparr>ctx_host := host\<rparr>) responses at_ms (self\<lparr>co_sources := builtin_sources\<rparr>) = (self', t)"
      by fastforce
    have "list_all (builtin_series (ent_id host)) (tk_descriptors t)"
      using builtin_collect [OF _ c] by simp
    with owner show ?thesis unfolding c prod.case list_all_iff by blast
  qed
  then show ?thesis by (intro exI [of _ ?owner] allI)
qed

section \<open>What a refresh costs\<close>

lemma first_by_id_all:
  "\<forall>r \<in> set rs. command_for r \<noteq> None \<Longrightarrow> distinct (map request_id rs) \<Longrightarrow> seen \<inter> request_id ` set rs = {} \<Longrightarrow>
     first_by_id seen rs = rs"
  by (induction rs arbitrary: seen) auto

lemma merge_requests_length: "length (merge_requests seen rs) \<le> length rs"
  by (induction rs arbitrary: seen) (auto simp: le_SucI)

lemma concat_filter_length: "length (concat (map f (filter P xs))) \<le> length (concat (map f xs))"
  by (induction xs) simp_all

lemma requests_at_most:
  assumes "co_sources self = builtin_sources"
  shows "length (requests self ctx) \<le> 17"
proof -
  have "length (requests self ctx) \<le> length (concat (map (\<lambda>s. src_requests s ctx) (applicable self (ctx_caps ctx))))"
    unfolding requests_def by (rule merge_requests_length)
  also have "\<dots> \<le> length (concat (map (\<lambda>s. src_requests s ctx) builtin_sources))"
    unfolding applicable_def filter_filter assms by (rule concat_filter_length)
  also have "\<dots> = 17"
    by (simp add: builtin_sources_def source_defs source_of_def load_requests_def diskio_requests_def
        network_requests_def tcp_requests_def pressure_requests_def resources_def)
  finally show ?thesis .
qed

lemma disconnected_session: "tr_session (on_disconnect e r) = None"
  by (simp add: on_disconnect_def Let_def)

lemma reachable_run:
  "runtime_reachable target spec sources r \<Longrightarrow> runtime_reachable target spec sources (fold runtime_exec ops r)"
  by (induction ops arbitrary: r) (simp_all add: reachable_exec)

text \<open>
  C20: the cost of a refresh of a host with the built-in collectors, after any run of connects,
  refreshes, commands and changes of the enabled set: at most seventeen requests are planned,
  whatever the host has; no two of them are the same, and every one of them is in the batch's
  script; and a refresh that succeeds has spent one round trip in all, or none when nothing was
  planned.
\<close>

theorem refresh_costs_one_round_trip:
  "let r = fold runtime_exec ops (runtime_new target spec builtin_sources); planned = planned_requests r
   in length planned \<le> 17 \<and> distinct (map request_id planned)
      \<and> snd (encode f planned) = map request_id planned
      \<and> (case rt_tick lk now r of
           (r', Inr t) \<Rightarrow> round_trips r' = round_trips r + (if planned = [] then 0 else 1)
         | (r', Inl e) \<Rightarrow> round_trips r' = (if tr_ctx r = None then round_trips r else 0))"
proof -
  define r where "r = fold runtime_exec ops (runtime_new target spec builtin_sources)"
  define planned where "planned = planned_requests r"
  have reach: "runtime_reachable target spec builtin_sources r"
    unfolding r_def by (rule reachable_run [OF runtime_reachable.created])
  note parts = reachable_parts [OF reach]
  have co: "co_sources (tr_collector r) = builtin_sources"
    using parts by (simp add: fixed_parts_def)
  have len: "length planned \<le> 17"
    using requests_at_most [OF co] by (simp add: planned_def planned_requests_def split: option.split)
  have dist: "distinct (map request_id planned)"
    using merge_ids.distinct_keys [of "{}"]
    by (simp add: planned_def planned_requests_def requests_def split: option.split)
  have "\<forall>q \<in> set planned. command_for q \<noteq> None"
    using builtin.all_remote [OF co]
    by (auto simp: planned_def planned_requests_def command_for_None split: option.splits)
  then have all: "first_by_id {} planned = planned"
    using dist by (intro first_by_id_all) auto
  have enc: "snd (encode f planned) = map request_id planned"
    by (simp add: encode_def encode_loop_eq all)
  have "case rt_tick lk now r of
      (r', Inr t) \<Rightarrow> round_trips r' = round_trips r + (if planned = [] then 0 else 1)
    | (r', Inl e) \<Rightarrow> round_trips r' = (if tr_ctx r = None then round_trips r else 0)"
  proof (cases "rt_tick lk now r")
    case (Pair r' res)
    show ?thesis
    proof (cases res)
      case (Inr t)
      then show ?thesis using tick_trips [of lk now r r' t] Pair all by (simp add: planned_def)
    next
      case (Inl e)
      then show ?thesis
        using Pair parts
        by (auto simp: rt_tick_def Let_def split_beta round_trips_def disconnected_session
            split: option.splits sum.splits prod.splits)
    qed
  qed
  with len dist enc have "length planned \<le> 17 \<and> distinct (map request_id planned)
      \<and> snd (encode f planned) = map request_id planned
      \<and> (case rt_tick lk now r of
           (r', Inr t) \<Rightarrow> round_trips r' = round_trips r + (if planned = [] then 0 else 1)
         | (r', Inl e) \<Rightarrow> round_trips r' = (if tr_ctx r = None then round_trips r else 0))"
    by blast
  then show ?thesis unfolding Let_def r_def planned_def .
qed

text \<open>
  A refresh depends only on what it asked for: dropping from the host's reply every answer
  that was not planned changes neither the refresh nor what the collector remembers. In particular
  the answers of one host's detection batch, or of a command, cannot leak into its readings.
\<close>

theorem refresh_reads_only_its_answers:
  "collect ctx responses at_ms (self\<lparr>co_sources := builtin_sources\<rparr>) =
   collect ctx (hm_retain (\<lambda>i. i \<in> request_id ` set (requests (self\<lparr>co_sources := builtin_sources\<rparr>) ctx)) responses)
     at_ms (self\<lparr>co_sources := builtin_sources\<rparr>)"
  by (rule builtin.tick_local) (auto simp: responses_get_def map_simps)

section \<open>Missing answers\<close>

context emitting_source
begin

text \<open>When none of its own requests was answered, a collector leaves the sink as it is.\<close>

lemma unanswered:
  "src_parse (source_of d reqs ops) ctx
     (hm_retain (\<lambda>i. i \<notin> request_id ` set (src_requests (source_of d reqs ops) ctx)) responses) out = (out, Inr ())"
proof -
  let ?rest = "hm_retain (\<lambda>i. i \<notin> request_id ` set reqs) responses"
  have "responses_text ?rest r = responses_text [] r" if "r \<in> set reqs" for r
    using that by (simp add: responses_text_def responses_get_def map_simps)
  then have "ops ctx ?rest = ops ctx []" by (rule own_answers)
  then show ?thesis by (simp add: source_of_def no_answers run_ops_def)
qed

end

text \<open>
  Data a host did not send is neither an error nor a zero: whatever else the host answered, a
  built-in collector none of whose own requests was answered writes nothing into the sink and
  reports success.
\<close>

theorem unanswered_collectors_silent:
  "list_all (\<lambda>s. src_parse s ctx
       (hm_retain (\<lambda>i. i \<notin> request_id ` set (src_requests s ctx)) responses) out = (out, Inr ()))
     builtin_sources"
  unfolding builtin_sources_def source_defs list.pred_inject(2)
  by (intro conjI list.pred_inject(1) cpu_emits.unanswered memory_emits.unanswered load_emits.unanswered
      filesystem_emits.unanswered diskio_emits.unanswered network_emits.unanswered
      tcp_emits.unanswered pressure_emits.unanswered sensor_emits.unanswered
      cgroup_emits.unanswered process_emits.unanswered)

end
