(* ===== verification/Poll.thy ===== *)
theory Poll
  imports Snapshot Builtin
begin

text \<open>
  The background poller of one host and the operations an interface calls on it
  (\<open>crates/sg-ffi/src/lib.rs\<close>). A poll loop runs beside the callers: a state of the system holds the
  target they share and every loop that was ever started, and a move is one uninterrupted piece of
  work of a caller or of a loop. Stopping a loop only asks it to end, so a stopped loop may still
  move before it is dropped. What the network and the clocks answer is part of a move.
\<close>

section \<open>The target and its loops\<close>

datatype sg_error = UnknownTarget string | Connection string bool | Internal string

record command_result =
  cr_output :: string
  cr_exit_code :: i32
  cr_elapsed_ms :: u64

record command_job =
  jb_id :: nat
  jb_command :: string
  jb_waiting :: bool

record target =
  tg_id :: string
  tg_config :: target_config
  tg_snapshot :: target_snapshot
  tg_task :: "nat option"
  tg_generation :: u64

text \<open>Where a loop is; a sleeping loop knows for how many milliseconds.\<close>

datatype phase = Top | Dialling | Sleeping u64 | Refreshing | Gap u64 | Over

record poll =
  pl_generation :: u64
  pl_phase :: phase
  pl_attempt :: u32
  pl_runtime :: target_runtime
  pl_published_first :: bool
  pl_inbox :: "command_job list"
  pl_answers :: "(nat \<times> (string + command_result)) list"

definition poll_runtime :: "target \<Rightarrow> target_runtime" where
  "poll_runtime tg = runtime_new (tg_id tg) (connection_spec_of (tg_config tg)) default_sources"

definition poll_new :: "u64 \<Rightarrow> target \<Rightarrow> poll" where
  "poll_new generation tg =
     \<lparr>pl_generation = generation, pl_phase = Top, pl_attempt = 0, pl_runtime = poll_runtime tg,
      pl_published_first = False, pl_inbox = [], pl_answers = []\<rparr>"

definition poll_interval :: "target_config \<Rightarrow> u64" where
  "poll_interval config = min (max (tc_refresh_ms config) 250) 60000"

text \<open>Only the loop of the current generation may publish.\<close>

definition publish :: "u64 \<Rightarrow> connection_state \<Rightarrow> target \<Rightarrow> target" where
  "publish generation state tg =
     (if tg_generation tg = generation then tg\<lparr>tg_snapshot := set_state state (tg_snapshot tg)\<rparr> else tg)"

definition publish_snapshot :: "u64 \<Rightarrow> target_snapshot \<Rightarrow> target \<Rightarrow> target" where
  "publish_snapshot generation snapshot tg =
     (if tg_generation tg = generation then tg\<lparr>tg_snapshot := snapshot\<rparr> else tg)"

section \<open>The loop\<close>

text \<open>
  What a move of the loop waits for: the end of a sleep, the outcome of dialling, of a refresh, or
  of a command.
\<close>

datatype poll_input =
  Proceed
  | Dial connect_env link
  | Tick link i64 u64 i64
  | RunJob link u64

definition next_attempt :: "u32 \<Rightarrow> u32" where
  "next_attempt attempt = sat_add attempt 1"

definition retry_later :: "poll \<Rightarrow> poll" where
  "retry_later p =
     (let attempt = next_attempt (pl_attempt p)
      in p\<lparr>pl_attempt := attempt, pl_phase := Sleeping (backoff_for attempt)\<rparr>)"

fun hopeless :: "target_state \<Rightarrow> bool" where
  "hopeless (target_state.Failed _ recoverable) \<longleftrightarrow> \<not> recoverable"
| "hopeless _ \<longleftrightarrow> False"

text \<open>The session is gone: tell the interface, refuse what is queued, and dial again or end.\<close>

definition session_lost :: "target \<Rightarrow> poll \<Rightarrow> target \<times> poll" where
  "session_lost tg p =
     (let state = tr_state (pl_runtime p);
          refused = map (\<lambda>j. (jb_id j, Inl ''The connection dropped before the command could run.'')) (pl_inbox p);
          p' = p\<lparr>pl_inbox := [], pl_answers := pl_answers p @ refused\<rparr>
      in (publish (pl_generation p) (connection_state_of state) tg,
          if hopeless state then p'\<lparr>pl_phase := Over\<rparr> else retry_later p'))"

definition poll_proceed :: "target \<Rightarrow> poll \<Rightarrow> target \<times> poll" where
  "poll_proceed tg p =
     (case pl_phase p of
        Top \<Rightarrow> (publish (pl_generation p) Connecting tg,
                p\<lparr>pl_runtime := poll_runtime tg, pl_phase := Dialling\<rparr>)
      | Sleeping _ \<Rightarrow> (tg, p\<lparr>pl_phase := Top\<rparr>)
      | Gap _ \<Rightarrow> (tg, p\<lparr>pl_phase := Refreshing\<rparr>)
      | _ \<Rightarrow> (tg, p))"

definition poll_dial :: "connect_env \<Rightarrow> link \<Rightarrow> target \<Rightarrow> poll \<Rightarrow> target \<times> poll" where
  "poll_dial env lk tg p =
     (case rt_connect env lk (pl_runtime p) of
        (rt, Inl error) \<Rightarrow>
          (let recoverable = is_transient error; p' = p\<lparr>pl_runtime := rt\<rparr>
           in (publish (pl_generation p) (Failed (transport_error_display error) recoverable) tg,
               if recoverable then retry_later p' else p'\<lparr>pl_phase := Over\<rparr>))
      | (rt, Inr _) \<Rightarrow>
          (tg, p\<lparr>pl_runtime := rt, pl_attempt := 0, pl_published_first := False,
                 pl_phase := Refreshing\<rparr>))"

definition poll_tick :: "link \<Rightarrow> i64 \<Rightarrow> u64 \<Rightarrow> i64 \<Rightarrow> target \<Rightarrow> poll \<Rightarrow> target \<times> poll" where
  "poll_tick lk now elapsed now' tg p =
     (case rt_tick lk now (pl_runtime p) of
        (rt, Inl _) \<Rightarrow> session_lost tg (p\<lparr>pl_runtime := rt\<rparr>)
      | (rt, Inr t) \<Rightarrow>
          (if pl_published_first p
           then publish_snapshot (pl_generation p) (build_snapshot (tg_id tg) rt t now') tg
           else publish (pl_generation p) Online tg,
           p\<lparr>pl_runtime := rt, pl_published_first := True,
             pl_phase := Gap (sat_sub (poll_interval (tg_config tg)) elapsed)\<rparr>))"

definition poll_job :: "link \<Rightarrow> u64 \<Rightarrow> target \<Rightarrow> poll \<Rightarrow> target \<times> poll" where
  "poll_job lk elapsed tg p =
     (case pl_inbox p of
        [] \<Rightarrow> (tg, p)
      | j # js \<Rightarrow>
          (if \<not> jb_waiting j then (tg, p\<lparr>pl_inbox := js\<rparr>)
           else
             (case rt_run_command lk elapsed (jb_command j) (pl_runtime p) of
                (rt, Inr out) \<Rightarrow>
                  (tg, p\<lparr>pl_runtime := rt, pl_inbox := js,
                         pl_answers := pl_answers p @
                           [(jb_id j, Inr \<lparr>cr_output = out_output out, cr_exit_code = out_exit_code out,
                                            cr_elapsed_ms = out_elapsed_ms out\<rparr>)]\<rparr>)
              | (rt, Inl error) \<Rightarrow>
                  session_lost tg (p\<lparr>pl_runtime := rt, pl_inbox := js,
                    pl_answers := pl_answers p @ [(jb_id j, Inl (transport_error_display error))]\<rparr>))))"

fun poll_step :: "poll_input \<Rightarrow> target \<Rightarrow> poll \<Rightarrow> target \<times> poll" where
  "poll_step Proceed tg p = poll_proceed tg p"
| "poll_step (Dial env lk) tg p = (if pl_phase p = Dialling then poll_dial env lk tg p else (tg, p))"
| "poll_step (Tick lk now elapsed now') tg p =
     (if pl_phase p = Refreshing then poll_tick lk now elapsed now' tg p else (tg, p))"
| "poll_step (RunJob lk elapsed) tg p =
     (case pl_phase p of Gap _ \<Rightarrow> poll_job lk elapsed tg p | _ \<Rightarrow> (tg, p))"

section \<open>What an interface calls\<close>

record host_system =
  sy_target :: target
  sy_loops :: "poll list"
  sy_jobs :: nat

definition system_new :: "string \<Rightarrow> target_config \<Rightarrow> host_system" where
  "system_new tid config =
     \<lparr>sy_target = \<lparr>tg_id = tid, tg_config = config,
         tg_snapshot = placeholder tid (tc_host config) Idle, tg_task = None, tg_generation = 0\<rparr>,
      sy_loops = [], sy_jobs = 0\<rparr>"

definition is_running_task :: "host_system \<Rightarrow> bool" where
  "is_running_task sy =
     (case tg_task (sy_target sy) of
        Some i \<Rightarrow> i < length (sy_loops sy) \<and> pl_phase (sy_loops sy ! i) \<noteq> Over
      | None \<Rightarrow> False)"

definition start_poll :: "host_system \<Rightarrow> host_system" where
  "start_poll sy =
     (if is_running_task sy then sy
      else
        (let tg = sy_target sy; generation = tg_generation tg + 1;
             tg' = tg\<lparr>tg_generation := generation,
                     tg_snapshot := set_state Connecting (tg_snapshot tg),
                     tg_task := Some (length (sy_loops sy))\<rparr>
         in sy\<lparr>sy_target := tg', sy_loops := sy_loops sy @ [poll_new generation tg']\<rparr>))"

definition stop_poll :: "host_system \<Rightarrow> host_system" where
  "stop_poll sy =
     (let tg = sy_target sy
      in sy\<lparr>sy_target := tg\<lparr>tg_task := None, tg_generation := tg_generation tg + 1,
                             tg_snapshot := set_state Idle (tg_snapshot tg)\<rparr>\<rparr>)"

definition not_connected :: sg_error where
  "not_connected = Connection ''This server is not connected, so the command was not run.'' True"

text \<open>A command: answered at once when empty, refused, or queued under a number.\<close>

definition submit ::
  "string \<Rightarrow> host_system \<Rightarrow> host_system \<times> (sg_error + (command_result + nat))" where
  "submit command0 sy =
     (let command = trim command0; tg = sy_target sy
      in if command = [] then (sy, Inr (Inl \<lparr>cr_output = [], cr_exit_code = 0, cr_elapsed_ms = 0\<rparr>))
         else if \<not> is_running_task sy then (sy, Inl not_connected)
         else if sn_state (tg_snapshot tg) \<noteq> Online then (sy, Inl not_connected)
         else
           (let i = the (tg_task tg); n = sy_jobs sy;
                p = sy_loops sy ! i;
                job = \<lparr>jb_id = n, jb_command = command, jb_waiting = True\<rparr>
            in (sy\<lparr>sy_loops := (sy_loops sy)[i := p\<lparr>pl_inbox := pl_inbox p @ [job]\<rparr>],
                   sy_jobs := Suc n\<rparr>, Inr (Inr n))))"

text \<open>What the caller of a queued command is told, by how its wait ends.\<close>

datatype wait_end = Answered "string + command_result" | ReplyDropped | WaitElapsed

fun command_outcome :: "wait_end \<Rightarrow> sg_error + command_result" where
  "command_outcome (Answered (Inr result)) = Inr result"
| "command_outcome (Answered (Inl detail)) = Inl (Connection detail True)"
| "command_outcome ReplyDropped =
     Inl (Connection ''The connection dropped before the command finished.'' True)"
| "command_outcome WaitElapsed =
     Inl (Connection ''The command did not finish within 60 seconds. Interactive programs such as top or vim cannot run here.'' True)"

section \<open>Moves\<close>

datatype move =
  Start
  | Stop
  | Submit string
  | GiveUp nat
  | LoopMove nat poll_input
  | LoopDropped nat

definition give_up :: "nat \<Rightarrow> poll \<Rightarrow> poll" where
  "give_up n p =
     p\<lparr>pl_inbox := map (\<lambda>j. if jb_id j = n then j\<lparr>jb_waiting := False\<rparr> else j) (pl_inbox p)\<rparr>"

definition loop_move :: "nat \<Rightarrow> poll_input \<Rightarrow> host_system \<Rightarrow> host_system" where
  "loop_move i inp sy =
     (if i < length (sy_loops sy) then
        (let (tg, p) = poll_step inp (sy_target sy) (sy_loops sy ! i)
         in sy\<lparr>sy_target := tg, sy_loops := (sy_loops sy)[i := p]\<rparr>)
      else sy)"

text \<open>A loop that was stopped and is no longer the target's task is dropped at some time.\<close>

definition loop_dropped :: "nat \<Rightarrow> host_system \<Rightarrow> host_system" where
  "loop_dropped i sy =
     (if i < length (sy_loops sy) \<and> tg_task (sy_target sy) \<noteq> Some i then
        sy\<lparr>sy_loops := (sy_loops sy)[i := (sy_loops sy ! i)\<lparr>pl_phase := Over, pl_inbox := []\<rparr>]\<rparr>
      else sy)"

fun system_move :: "move \<Rightarrow> host_system \<Rightarrow> host_system" where
  "system_move Start sy = start_poll sy"
| "system_move Stop sy = stop_poll sy"
| "system_move (Submit command) sy = fst (submit command sy)"
| "system_move (GiveUp n) sy = sy\<lparr>sy_loops := map (give_up n) (sy_loops sy)\<rparr>"
| "system_move (LoopMove i inp) sy = loop_move i inp sy"
| "system_move (LoopDropped i) sy = loop_dropped i sy"

section \<open>Stopping\<close>

lemma publish_simps [simp]:
  "tg_generation (publish g state tg) = tg_generation tg" "tg_id (publish g state tg) = tg_id tg"
  "tg_config (publish g state tg) = tg_config tg" "tg_task (publish g state tg) = tg_task tg"
  "tg_generation (publish_snapshot g sn tg) = tg_generation tg"
  "tg_id (publish_snapshot g sn tg) = tg_id tg" "tg_config (publish_snapshot g sn tg) = tg_config tg"
  "tg_task (publish_snapshot g sn tg) = tg_task tg"
  by (simp_all add: publish_def publish_snapshot_def)

lemma retry_later_simps [simp]:
  "pl_generation (retry_later p) = pl_generation p" "pl_inbox (retry_later p) = pl_inbox p"
  "pl_answers (retry_later p) = pl_answers p" "pl_runtime (retry_later p) = pl_runtime p"
  "pl_phase (retry_later p) = Sleeping (backoff_for (next_attempt (pl_attempt p)))"
  "pl_attempt (retry_later p) = next_attempt (pl_attempt p)"
  by (simp_all add: retry_later_def Let_def)

lemmas poll_defs = poll_proceed_def poll_dial_def poll_tick_def poll_job_def session_lost_def Let_def

text \<open>
  What a move of a loop can do to the target: nothing but publish, and that only under the loop's
  own generation, which never changes.
\<close>

lemma poll_step_target:
  assumes "poll_step inp tg p = (tg', p')"
  shows "pl_generation p' = pl_generation p \<and> tg_generation tg' = tg_generation tg
    \<and> tg_id tg' = tg_id tg \<and> tg_config tg' = tg_config tg \<and> tg_task tg' = tg_task tg
    \<and> (tg_generation tg \<noteq> pl_generation p \<longrightarrow> tg_snapshot tg' = tg_snapshot tg)
    \<and> (coherent (tg_snapshot tg) \<longrightarrow> coherent (tg_snapshot tg'))
    \<and> (sn_target_id (tg_snapshot tg) = tg_id tg \<longrightarrow> sn_target_id (tg_snapshot tg') = tg_id tg)"
  using assms
  by (cases inp)
    (auto simp: poll_defs publish_def publish_snapshot_def split: phase.splits prod.splits sum.splits
      list.splits if_splits)

text \<open>Generations only grow, as long as there were fewer moves than generations.\<close>

definition aged :: "nat \<Rightarrow> host_system \<Rightarrow> bool" where
  "aged n sy \<longleftrightarrow> unat (tg_generation (sy_target sy)) \<le> n
     \<and> (\<forall>p \<in> set (sy_loops sy). unat (pl_generation p) \<le> unat (tg_generation (sy_target sy)))"

lemma next_generation: "unat (g :: u64) \<le> n \<Longrightarrow> Suc n < 2 ^ 64 \<Longrightarrow> unat (g + 1) = Suc (unat g)"
  by (subst unat_add_lem [THEN iffD1]) simp_all

lemma set_list_update_all: "\<forall>x \<in> set xs. P x \<Longrightarrow> P y \<Longrightarrow> \<forall>x \<in> set (xs[i := y]). P x"
  using set_update_subset_insert [of xs i y] by blast

lemma loop_move_cases:
  obtains "loop_move i inp sy = sy"
  | tg p where "i < length (sy_loops sy)" "poll_step inp (sy_target sy) (sy_loops sy ! i) = (tg, p)"
      "loop_move i inp sy = sy\<lparr>sy_target := tg, sy_loops := (sy_loops sy)[i := p]\<rparr>"
  by (cases "i < length (sy_loops sy)"; cases "poll_step inp (sy_target sy) (sy_loops sy ! i)")
    (auto simp: loop_move_def)

lemma submit_target [simp]: "sy_target (fst (submit command sy)) = sy_target sy"
  by (simp add: submit_def Let_def)

lemma loop_dropped_target [simp]: "sy_target (loop_dropped i sy) = sy_target sy"
  by (simp add: loop_dropped_def)

text \<open>The moves that only touch queues and phases leave every loop its generation.\<close>

lemma quiet_loops:
  "p \<in> set (sy_loops (fst (submit command sy))) \<Longrightarrow> \<exists>q \<in> set (sy_loops sy). pl_generation p = pl_generation q"
  "p \<in> set (map (give_up n) (sy_loops sy)) \<Longrightarrow> \<exists>q \<in> set (sy_loops sy). pl_generation p = pl_generation q"
  "p \<in> set (sy_loops (loop_dropped i sy)) \<Longrightarrow> \<exists>q \<in> set (sy_loops sy). pl_generation p = pl_generation q"
proof -
  have upd: "\<exists>q \<in> set ls. pl_generation p = pl_generation q"
    if "p \<in> set (ls[i := r])" "i < length ls" "pl_generation r = pl_generation (ls ! i)" for ls i r
    using that by (metis insertE nth_mem set_update_subset_insert subsetD)
  show "p \<in> set (sy_loops (fst (submit command sy))) \<Longrightarrow> \<exists>q \<in> set (sy_loops sy). pl_generation p = pl_generation q"
    by (auto simp: submit_def Let_def is_running_task_def split: if_splits option.splits dest!: upd)
  show "p \<in> set (map (give_up n) (sy_loops sy)) \<Longrightarrow> \<exists>q \<in> set (sy_loops sy). pl_generation p = pl_generation q"
    by (auto simp: give_up_def)
  show "p \<in> set (sy_loops (loop_dropped i sy)) \<Longrightarrow> \<exists>q \<in> set (sy_loops sy). pl_generation p = pl_generation q"
    by (auto simp: loop_dropped_def split: if_splits dest!: upd)
qed

fun quiet :: "move \<Rightarrow> bool" where
  "quiet (Submit _) \<longleftrightarrow> True"
| "quiet (GiveUp _) \<longleftrightarrow> True"
| "quiet (LoopDropped _) \<longleftrightarrow> True"
| "quiet _ \<longleftrightarrow> False"

lemma quiet_move:
  assumes "quiet m"
  shows "sy_target (system_move m sy) = sy_target sy"
    and "p \<in> set (sy_loops (system_move m sy)) \<Longrightarrow> \<exists>q \<in> set (sy_loops sy). pl_generation p = pl_generation q"
proof -
  show "sy_target (system_move m sy) = sy_target sy" using assms by (cases m) simp_all
  show "\<exists>q \<in> set (sy_loops sy). pl_generation p = pl_generation q" if "p \<in> set (sy_loops (system_move m sy))"
  proof (cases m)
    case (GiveUp n)
    with that have "p \<in> set (map (give_up n) (sy_loops sy))" by simp
    then show ?thesis by (rule quiet_loops(2))
  qed (use assms that quiet_loops(1,3) in simp_all)
qed

lemma aged_quiet: "aged n sy \<Longrightarrow> quiet m \<Longrightarrow> aged (Suc n) (system_move m sy)"
  unfolding aged_def quiet_move(1) by (metis le_SucI quiet_move(2))

lemma aged_move:
  assumes "aged n sy" "Suc n < 2 ^ 64"
  shows "aged (Suc n) (system_move m sy)"
proof (cases m)
  case Start
  show ?thesis
  proof (cases "is_running_task sy")
    case False
    have g: "unat (tg_generation (sy_target sy) + 1) = Suc (unat (tg_generation (sy_target sy)))"
      using assms by (intro next_generation) (simp_all add: aged_def)
    with False assms show ?thesis
      unfolding Start system_move.simps start_poll_def aged_def Let_def
      by (auto simp: poll_new_def)
  qed (use assms Start in \<open>simp add: start_poll_def aged_def\<close>)
next
  case Stop
  have g: "unat (tg_generation (sy_target sy) + 1) = Suc (unat (tg_generation (sy_target sy)))"
    using assms by (intro next_generation) (simp_all add: aged_def)
  with assms show ?thesis
    unfolding Stop system_move.simps stop_poll_def aged_def Let_def by auto
next
  case (LoopMove i inp)
  from loop_move_cases [of i inp sy] show ?thesis
  proof cases
    case 1
    with assms LoopMove show ?thesis by (simp add: aged_def)
  next
    case (2 tg p)
    note t = poll_step_target [OF 2(2)]
    have "unat (pl_generation p) \<le> unat (tg_generation (sy_target sy))"
      using assms(1) 2(1) t by (simp add: aged_def)
    with assms(1) have "\<forall>x \<in> set ((sy_loops sy)[i := p]). unat (pl_generation x) \<le> unat (tg_generation (sy_target sy))"
      unfolding aged_def by (intro set_list_update_all) simp_all
    with assms(1) t LoopMove 2(3) show ?thesis by (simp add: aged_def)
  qed
qed (use aged_quiet [OF assms(1), of m] in simp_all)

lemma aged_run: "n + length ms < 2 ^ 64 \<Longrightarrow> aged n sy \<Longrightarrow> aged (n + length ms) (fold system_move ms sy)"
proof (induction ms arbitrary: n sy)
  case (Cons m ms)
  then have "aged (Suc n) (system_move m sy)" by (intro aged_move) simp_all
  from Cons.IH [OF _ this] Cons.prems show ?case by simp
qed simp

lemma aged_new: "aged 0 (system_new tid config)"
  by (simp add: aged_def system_new_def)

text \<open>A stopped target: no task, no loop of its generation, and nothing to tell but that it is idle.\<close>

definition at_rest :: "target_snapshot \<Rightarrow> host_system \<Rightarrow> bool" where
  "at_rest sn sy \<longleftrightarrow> tg_task (sy_target sy) = None \<and> tg_snapshot (sy_target sy) = sn \<and> set_state Idle sn = sn
     \<and> (\<forall>p \<in> set (sy_loops sy). unat (pl_generation p) < unat (tg_generation (sy_target sy)))"

lemma set_state_twice [simp]: "set_state s (set_state s' x) = set_state s x"
  by (simp add: set_state_def all_gauges_def Let_def)

lemma stop_rests:
  assumes "aged n sy" "Suc n < 2 ^ 64"
  shows "at_rest (set_state Idle (tg_snapshot (sy_target sy))) (stop_poll sy)"
proof -
  have "unat (tg_generation (sy_target sy) + 1) = Suc (unat (tg_generation (sy_target sy)))"
    using assms by (intro next_generation) (simp_all add: aged_def)
  with assms(1) show ?thesis
    unfolding at_rest_def stop_poll_def aged_def Let_def by auto
qed

lemma rest_quiet: "at_rest sn sy \<Longrightarrow> quiet m \<Longrightarrow> at_rest sn (system_move m sy)"
  unfolding at_rest_def quiet_move(1) by (metis quiet_move(2))

lemma rest_move:
  assumes "at_rest sn sy" "aged n sy" "Suc n < 2 ^ 64" "m \<noteq> Start"
  shows "at_rest sn (system_move m sy)"
proof (cases m)
  case Stop
  have "tg_snapshot (sy_target sy) = sn" "set_state Idle sn = sn" using assms(1) by (simp_all add: at_rest_def)
  with stop_rests [OF assms(2,3)] Stop show ?thesis by simp
next
  case (LoopMove i inp)
  from loop_move_cases [of i inp sy] show ?thesis
  proof cases
    case (2 tg p)
    note t = poll_step_target [OF 2(2)]
    have old: "unat (pl_generation (sy_loops sy ! i)) < unat (tg_generation (sy_target sy))"
      using assms(1) 2(1) by (simp add: at_rest_def)
    then have "tg_generation (sy_target sy) \<noteq> pl_generation (sy_loops sy ! i)" by auto
    moreover have "\<forall>x \<in> set ((sy_loops sy)[i := p]). unat (pl_generation x) < unat (tg_generation (sy_target sy))"
      using assms(1) old t unfolding at_rest_def by (intro set_list_update_all) simp_all
    ultimately show ?thesis
      using assms(1) t LoopMove 2(3) by (simp add: at_rest_def)
  qed (use assms LoopMove in simp)
qed (use assms rest_quiet [OF assms(1), of m] in simp_all)

lemma rest_run:
  "at_rest sn sy \<Longrightarrow> aged n sy \<Longrightarrow> n + length ms < 2 ^ 64 \<Longrightarrow> Start \<notin> set ms \<Longrightarrow>
     at_rest sn (fold system_move ms sy)"
proof (induction ms arbitrary: n sy)
  case (Cons m ms)
  then have "at_rest sn (system_move m sy)" "aged (Suc n) (system_move m sy)"
    by (auto intro: rest_move aged_move)
  with Cons.IH [of _ "Suc n"] Cons.prems show ?case by simp
qed simp

text \<open>
  C24: stopping is final: after a host was stopped, whatever its loops were doing at that moment and
  whatever they and the callers still do, nothing changes the published view of the host, which
  says that it is idle, and every command is refused, until it is started again. (A target that
  lives through fewer than 2^64 moves; the generation is a 64-bit counter.)
\<close>

theorem stop_is_final:
  assumes "Suc (length before + length after) < 2 ^ 64" "Start \<notin> set after"
  shows "let stopped = fold system_move (before @ [Stop]) (system_new tid config);
             later = fold system_move after stopped
         in tg_snapshot (sy_target later) = tg_snapshot (sy_target stopped)
            \<and> sn_state (tg_snapshot (sy_target later)) = Idle
            \<and> (trim command = [] \<or> submit command later = (later, Inl not_connected))"
proof -
  let ?s = "fold system_move before (system_new tid config)"
  let ?n = "length before"
  have aged: "aged ?n ?s" using aged_run [OF _ aged_new, of before tid config] assms(1) by simp
  define sn where "sn = set_state Idle (tg_snapshot (sy_target ?s))"
  have rest: "at_rest sn (stop_poll ?s)"
    unfolding sn_def by (rule stop_rests [OF aged]) (use assms(1) in simp)
  have "aged (Suc ?n) (stop_poll ?s)"
    using aged_move [OF aged, of Stop] assms(1) by simp
  from rest_run [OF rest this _ assms(2)] assms(1)
  have later: "at_rest sn (fold system_move after (stop_poll ?s))" by simp
  have "sn_state sn = Idle" by (simp add: sn_def)
  moreover have "submit command sy = (sy, Inl not_connected)" if "at_rest sn sy" "trim command \<noteq> []" for sy
    using that by (simp add: submit_def is_running_task_def at_rest_def)
  ultimately show ?thesis
    using rest later by (auto simp: Let_def at_rest_def [of sn])
qed

lemma stop_is_final_witness:
  "\<forall>config. sn_state (tg_snapshot (sy_target (fold system_move [LoopMove 0 Proceed, LoopDropped 0]
     (fold system_move ([Start, LoopMove 0 Proceed] @ [Stop]) (system_new ''t1'' config))))) = Idle"
proof -
  have "Suc (length [Start, LoopMove 0 Proceed] + length [LoopMove 0 Proceed, LoopDropped 0]) < 2 ^ 64"
    "Start \<notin> set [LoopMove 0 Proceed, LoopDropped 0]" by simp_all
  from stop_is_final [OF this] show ?thesis unfolding Let_def by blast
qed

section \<open>One view, one publisher\<close>

text \<open>The published view of a target at any time: one value, about this target, by one loop.\<close>

definition view_ok :: "string \<Rightarrow> host_system \<Rightarrow> bool" where
  "view_ok tid sy \<longleftrightarrow> coherent (tg_snapshot (sy_target sy)) \<and> tg_id (sy_target sy) = tid
     \<and> sn_target_id (tg_snapshot (sy_target sy)) = tid"

lemma view_move: "view_ok tid sy \<Longrightarrow> view_ok tid (system_move m sy)"
proof (cases m)
  case (LoopMove i inp)
  assume ok: "view_ok tid sy"
  from loop_move_cases [of i inp sy] show ?thesis
  proof cases
    case (2 tg p)
    with ok poll_step_target [OF 2(2)] LoopMove show ?thesis by (simp add: view_ok_def)
  qed (use ok LoopMove in simp)
qed (simp_all add: view_ok_def start_poll_def stop_poll_def Let_def)

lemma view_run: "view_ok tid sy \<Longrightarrow> view_ok tid (fold system_move ms sy)"
  by (induction ms arbitrary: sy) (simp_all add: view_move)

text \<open>The loops have different generations: each start takes the next one.\<close>

definition numbered :: "host_system \<Rightarrow> bool" where
  "numbered sy \<longleftrightarrow> distinct (map pl_generation (sy_loops sy))"

lemma generations_kept:
  assumes "m \<noteq> Start"
  shows "map pl_generation (sy_loops (system_move m sy)) = map pl_generation (sy_loops sy)"
proof -
  have upd: "map pl_generation (ls[i := r]) = map pl_generation ls"
    if "pl_generation r = pl_generation (ls ! i)" for ls i r
    using that by (cases "i < length ls") (simp_all add: map_update list_update_same_conv list_update_beyond not_less)
  show ?thesis
  proof (cases m)
    case (LoopMove i inp)
    from loop_move_cases [of i inp sy] show ?thesis
    proof cases
      case (2 tg p)
      with poll_step_target [OF 2(2)] LoopMove show ?thesis by (simp add: upd)
    qed (use LoopMove in simp)
  qed (use assms in \<open>simp_all add: submit_def Let_def upd stop_poll_def give_up_def loop_dropped_def o_def\<close>)
qed

lemma numbered_move:
  assumes "numbered sy" "aged n sy" "Suc n < 2 ^ 64"
  shows "numbered (system_move m sy)"
proof (cases "m = Start")
  case True
  have "unat (tg_generation (sy_target sy) + 1) = Suc (unat (tg_generation (sy_target sy)))"
    using assms by (intro next_generation) (simp_all add: aged_def)
  then have "tg_generation (sy_target sy) + 1 \<notin> pl_generation ` set (sy_loops sy)"
    using assms(2) by (force simp: aged_def)
  with assms(1) show ?thesis
    by (simp add: True start_poll_def numbered_def Let_def poll_new_def)
qed (use assms generations_kept in \<open>simp add: numbered_def\<close>)

lemma numbered_run: "numbered sy \<Longrightarrow> aged n sy \<Longrightarrow> n + length ms < 2 ^ 64 \<Longrightarrow> numbered (fold system_move ms sy)"
proof (induction ms arbitrary: n sy)
  case (Cons m ms)
  then have "numbered (system_move m sy)" "aged (Suc n) (system_move m sy)"
    by (auto intro: numbered_move aged_move)
  with Cons.IH [of _ "Suc n"] Cons.prems show ?case by simp
qed simp

text \<open>
  C25: after any interleaving of starts, stops, commands and moves of any of a host's loops, the
  view published is about this host and its verdict is the verdict on the state and the readings
  published with it; and at most one of the loops can change it.
\<close>

theorem published_view_coherent:
  assumes "length moves < 2 ^ 64"
  shows "let sy = fold system_move moves (system_new tid config); sn = tg_snapshot (sy_target sy)
         in sn_target_id sn = tid \<and> sn_health sn = assess (sn_state sn) (all_gauges sn) (all_gauges sn \<noteq> [])
            \<and> length (filter (\<lambda>p. pl_generation p = tg_generation (sy_target sy)) (sy_loops sy)) \<le> 1"
proof -
  let ?sy = "fold system_move moves (system_new tid config)"
  have "view_ok tid (system_new tid config)" by (simp add: view_ok_def system_new_def)
  then have view: "view_ok tid ?sy" by (rule view_run)
  have "numbered ?sy"
    by (rule numbered_run [OF _ aged_new]) (use assms in \<open>simp_all add: numbered_def system_new_def\<close>)
  moreover have "length (filter (\<lambda>p. f p = g) ps) \<le> 1" if "distinct (map f ps)" for f :: "poll \<Rightarrow> u64" and g ps
    using that by (induction ps) (auto simp: filter_empty_conv image_iff)
  ultimately show ?thesis using view by (simp add: Let_def view_ok_def coherent_def numbered_def)
qed

lemma published_view_coherent_witness:
  "\<forall>config. sn_target_id (tg_snapshot (sy_target (fold system_move [Start, LoopMove 0 Proceed, Stop, Start]
     (system_new ''t1'' config)))) = ''t1''"
  using published_view_coherent [of "[Start, LoopMove 0 Proceed, Stop, Start]" "''t1''"]
  by (simp add: Let_def del: system_move.simps)

section \<open>Dialling again\<close>

text \<open>A loop on its own, given what it waits for; and the sleeps it takes between attempts.\<close>

definition poll_run :: "poll_input list \<Rightarrow> target \<times> poll \<Rightarrow> target \<times> poll" where
  "poll_run = fold (\<lambda>inp (tg, p). poll_step inp tg p)"

fun waits :: "poll_input list \<Rightarrow> target \<times> poll \<Rightarrow> u64 list" where
  "waits [] tp = []"
| "waits (inp # inps) (tg, p) =
     (let (tg', p') = poll_step inp tg p
      in (case pl_phase p' of
            Sleeping ms \<Rightarrow> if pl_phase p = Sleeping ms then [] else [ms]
          | _ \<Rightarrow> []) @ waits inps (tg', p'))"

lemma poll_run_simps [simp]:
  "poll_run [] tp = tp" "poll_run (inp # inps) (tg, p) = poll_run inps (poll_step inp tg p)"
  "poll_run (xs @ ys) tp = poll_run ys (poll_run xs tp)"
  by (simp_all add: poll_run_def)

lemma waits_append: "waits (xs @ ys) tp = waits xs tp @ waits ys (poll_run xs tp)"
proof (induction xs arbitrary: tp)
  case (Cons x xs)
  then show ?case by (cases tp) (simp add: split_beta Let_def)
qed simp

definition dial_round :: "connect_env \<times> link \<Rightarrow> poll_input list" where
  "dial_round = (\<lambda>(env, lk). [Proceed, Dial env lk, Proceed])"

definition fails_transiently :: "target_runtime \<Rightarrow> connect_env \<times> link \<Rightarrow> bool" where
  "fails_transiently rt = (\<lambda>(env, lk).
     case snd (rt_connect env lk rt) of Inl e \<Rightarrow> is_transient e | Inr _ \<Rightarrow> False)"

lemma poll_runtime_publish [simp]: "poll_runtime (publish g state tg) = poll_runtime tg"
  by (simp add: poll_runtime_def)

lemma failed_round:
  assumes "pl_phase p = Top" "fails_transiently (poll_runtime tg) el"
  shows "\<exists>tg' p'. poll_run (dial_round el) (tg, p) = (tg', p') \<and> pl_phase p' = Top
    \<and> pl_attempt p' = next_attempt (pl_attempt p) \<and> pl_generation p' = pl_generation p
    \<and> tg_generation tg' = tg_generation tg \<and> poll_runtime tg' = poll_runtime tg \<and> tg_id tg' = tg_id tg
    \<and> tg_config tg' = tg_config tg
    \<and> waits (dial_round el) (tg, p) = [backoff_for (next_attempt (pl_attempt p))]"
proof -
  obtain env lk e rt where el: "el = (env, lk)" "rt_connect env lk (poll_runtime tg) = (rt, Inl e)" "is_transient e"
    using assms(2) by (cases el; cases "rt_connect (fst el) (snd el) (poll_runtime tg)")
      (auto simp: fails_transiently_def split: sum.splits)
  show ?thesis
    by (simp add: el dial_round_def poll_proceed_def assms(1) poll_dial_def Let_def)
qed

lemma next_attempt_of_nat: "Suc k < 2 ^ 32 \<Longrightarrow> next_attempt (word_of_nat k) = word_of_nat (Suc k)"
  by (rule word_unat_eq_iff [THEN iffD2])
    (simp add: next_attempt_def unat_sat_add unsigned_of_nat take_bit_nat_eq_self del: of_nat_Suc)

lemma failed_rounds:
  "pl_phase p = Top \<Longrightarrow> pl_attempt p = word_of_nat k \<Longrightarrow> k + length fails < 2 ^ 32 \<Longrightarrow>
     list_all (fails_transiently (poll_runtime tg)) fails \<Longrightarrow>
   \<exists>tg' p'. poll_run (concat (map dial_round fails)) (tg, p) = (tg', p') \<and> pl_phase p' = Top
    \<and> pl_generation p' = pl_generation p \<and> tg_generation tg' = tg_generation tg
    \<and> poll_runtime tg' = poll_runtime tg \<and> tg_id tg' = tg_id tg \<and> tg_config tg' = tg_config tg
    \<and> waits (concat (map dial_round fails)) (tg, p) =
        map (\<lambda>i. backoff_for (word_of_nat i)) [Suc k..<Suc (k + length fails)]"
proof (induction fails arbitrary: tg p k)
  case (Cons el fails)
  obtain tg1 p1 where one: "poll_run (dial_round el) (tg, p) = (tg1, p1)" "pl_phase p1 = Top"
    "pl_attempt p1 = word_of_nat (Suc k)" "pl_generation p1 = pl_generation p"
    "tg_generation tg1 = tg_generation tg" "poll_runtime tg1 = poll_runtime tg" "tg_id tg1 = tg_id tg"
    "tg_config tg1 = tg_config tg" "waits (dial_round el) (tg, p) = [backoff_for (word_of_nat (Suc k))]"
    using failed_round [of p tg el] next_attempt_of_nat [of k] Cons.prems by auto
  obtain tg2 p2 where "poll_run (concat (map dial_round fails)) (tg1, p1) = (tg2, p2)" "pl_phase p2 = Top"
    "pl_generation p2 = pl_generation p1" "tg_generation tg2 = tg_generation tg1"
    "poll_runtime tg2 = poll_runtime tg1" "tg_id tg2 = tg_id tg1" "tg_config tg2 = tg_config tg1"
    "waits (concat (map dial_round fails)) (tg1, p1) =
       map (\<lambda>i. backoff_for (word_of_nat i)) [Suc (Suc k)..<Suc (Suc k + length fails)]"
    using Cons.IH [of p1 "Suc k" tg1] one Cons.prems by auto
  moreover have "[Suc k..<Suc (k + length (el # fails))] = Suc k # [Suc (Suc k)..<Suc (Suc k + length fails)]"
    by (subst upt_conv_Cons) (simp_all del: upt_Suc)
  ultimately show ?case
    using one by (simp add: waits_append del: upt_Suc of_nat_Suc)
qed simp

lemma connected_online: "rt_connect env lk rt = (rt', Inr u) \<Longrightarrow> tr_state rt' = target_state.Online"
  by (auto simp: rt_connect_def come_online_def Let_def split: sum.splits prod.splits)

lemma tick_state: "rt_tick lk now rt = (rt', Inr t) \<Longrightarrow> tr_state rt' = tr_state rt"
  by (auto simp: rt_tick_def Let_def split: option.splits sum.splits prod.splits)

text \<open>
  C26: a host that comes back is back on screen: after any number of attempts that failed in a way
  that can pass, the loop has slept 1, 2, 5, 10, 20 and then 30 seconds between them; and from
  there one successful connection and two successful refreshes make the host online in the
  published view, with the readings of the second refresh, and reset the sleeps to the first.
\<close>

theorem poll_recovers:
  assumes "list_all (fails_transiently (poll_runtime tg)) fails" "length fails < 2 ^ 32"
    and "rt_connect env lk (poll_runtime tg) = (rt1, Inr ())"
    and "rt_tick lk1 now1 rt1 = (rt2, Inr t1)" "rt_tick lk2 now2 rt2 = (rt3, Inr t2)"
  shows "case poll_run (concat (map dial_round fails) @
              [Proceed, Dial env lk, Tick lk1 now1 elapsed1 at1, Proceed, Tick lk2 now2 elapsed2 at2])
            (tg, poll_new (tg_generation tg) tg) of
          (tg', p') \<Rightarrow>
            waits (concat (map dial_round fails)) (tg, poll_new (tg_generation tg) tg) =
              map (\<lambda>k. [1000, 2000, 5000, 10000, 20000, 30000] ! min k 5) [0..<length fails]
            \<and> sn_state (tg_snapshot tg') = Online
            \<and> tg_snapshot tg' = build_snapshot (tg_id tg) rt3 t2 at2
            \<and> pl_attempt p' = 0
            \<and> pl_phase p' = Gap (sat_sub (poll_interval (tg_config tg)) elapsed2)"
proof -
  obtain tg' p' where down: "poll_run (concat (map dial_round fails)) (tg, poll_new (tg_generation tg) tg) = (tg', p')"
    "pl_phase p' = Top" "pl_generation p' = tg_generation tg" "tg_generation tg' = tg_generation tg"
    "poll_runtime tg' = poll_runtime tg" "tg_id tg' = tg_id tg" "tg_config tg' = tg_config tg"
    "waits (concat (map dial_round fails)) (tg, poll_new (tg_generation tg) tg) =
       map (\<lambda>i. backoff_for (word_of_nat i)) [Suc 0..<Suc (0 + length fails)]"
    using failed_rounds [of "poll_new (tg_generation tg) tg" 0 fails tg] assms(1,2)
    by (auto simp: poll_new_def)
  have wait: "backoff_for (word_of_nat (Suc k)) = [1000, 2000, 5000, 10000, 20000, 30000] ! min k 5"
    if "k < length fails" for k
  proof -
    have "length backoff_ms - 1 = 5" by (simp add: backoff_ms_def)
    then show ?thesis using that assms(2)
      by (simp add: backoff_for_def unsigned_of_nat take_bit_nat_eq_self del: of_nat_Suc)
        (simp add: backoff_ms_def)
  qed
  have waits: "map (\<lambda>i. backoff_for (word_of_nat i)) [Suc 0..<Suc (0 + length fails)] =
      map (\<lambda>k. [1000, 2000, 5000, 10000, 20000, 30000] ! min k 5) [0..<length fails]"
    by (rule nth_equalityI) (simp_all add: wait del: upt_Suc of_nat_Suc)
  have online: "tr_state rt3 = target_state.Online"
    using connected_online [OF assms(3)] tick_state [OF assms(4)] tick_state [OF assms(5)] by simp
  show ?thesis
    using online unfolding poll_run_simps(3) down(1) down(8) waits
    by (simp add: poll_proceed_def down(2-7) poll_dial_def assms(3-5) poll_tick_def publish_snapshot_def)
qed

definition demo_target :: target where
  "demo_target = \<lparr>tg_id = ''t1'',
     tg_config = \<lparr>tc_host = ''h'', tc_port = 0, tc_user = ''u'', tc_auth_kind = ''password'',
       tc_key_path = None, tc_key_text = None, tc_secret = Some ''pw'', tc_host_key_policy = ''strict'',
       tc_known_hosts_path = None, tc_refresh_ms = 1000\<rparr>,
     tg_snapshot = placeholder ''t1'' ''h'' Idle, tg_task = Some 0, tg_generation = 0\<rparr>"

lemma delivered_answers:
  assumes "delivers lk (ss_framing s) out"
  shows "\<exists>s' rsp. session_batch lk rs s = (s', Inr rsp) \<and> ss_framing s' = ss_framing s"
proof (cases "snd (encode (ss_framing s) rs) = []")
  case True
  then show ?thesis by (auto simp: session_batch_def batch_def Let_def split_beta)
next
  case False
  from session_batch_delivers [OF assms this] show ?thesis by simp
qed

lemma delivers_terminator:
  "length (terminator f) \<le> max_batch_bytes \<Longrightarrow>
     delivers \<lparr>lk_lossy = id, lk_write = Written, lk_events = [Msg (Data (terminator f))]\<rparr> f (terminator f)"
  unfolding delivers_def
  by (auto simp: terminator_def intro!: exI [of _ "[terminator f]"])

theorem poll_recovers_witness:
  "\<exists>lk. sn_state (tg_snapshot (fst (poll_run
       (concat (map dial_round [(dead_network, lk)])
        @ [Proceed, Dial demo_env lk, Tick lk 1 0 1, Proceed, Tick lk 2 0 2])
       (demo_target, poll_new (tg_generation demo_target) demo_target)))) = Online"
proof -
  let ?rt = "poll_runtime demo_target"
  obtain s where s: "session_connect demo_env (tr_spec ?rt) = Inr s" "length (terminator (ss_framing s)) \<le> max_batch_bytes"
    by (simp add: session_connect_def demo_env_def demo_server_def check_server_key_def poll_runtime_def
        runtime_new_def demo_target_def connection_spec_of_def auth_of_def policy_of_def nonempty_def
        or_empty_def connection_spec_new_def authenticate_def judge_def terminator_def max_batch_bytes_def
        generate_nonce_def framing_new_def length_hex16)
  define lk where "lk = \<lparr>lk_lossy = id, lk_write = Written, lk_events = [Msg (Data (terminator (ss_framing s)))]\<rparr>"
  have del: "delivers lk (ss_framing s) (terminator (ss_framing s))"
    unfolding lk_def by (rule delivers_terminator [OF s(2)])
  have "\<exists>rt1 s1. rt_connect demo_env lk ?rt = (rt1, Inr ()) \<and> tr_session rt1 = Some s1 \<and> ss_framing s1 = ss_framing s
      \<and> tr_ctx rt1 \<noteq> None"
  proof -
    obtain s1 rsp where "session_batch lk probe_requests s = (s1, Inr rsp)" "ss_framing s1 = ss_framing s"
      using delivered_answers [OF del] by blast
    then show ?thesis using s(1) by (simp add: rt_connect_def Let_def come_online_def)
  qed
  then obtain rt1 s1 where rt1: "rt_connect demo_env lk ?rt = (rt1, Inr ())" "tr_session rt1 = Some s1"
    "ss_framing s1 = ss_framing s" "tr_ctx rt1 \<noteq> None" by blast
  have tick: "\<exists>rt' t s'. rt_tick lk now rt = (rt', Inr t) \<and> tr_session rt' = Some s' \<and> ss_framing s' = ss_framing s
      \<and> tr_ctx rt' \<noteq> None"
    if rt: "tr_session rt = Some s0" "ss_framing s0 = ss_framing s" "tr_ctx rt \<noteq> None" for rt s0 now
  proof -
    obtain ctx where ctx: "tr_ctx rt = Some ctx" using rt(3) by blast
    obtain s' rsp where b: "session_batch lk (requests (tr_collector rt) ctx) s0 = (s', Inr rsp)"
      "ss_framing s' = ss_framing s0"
      using delivered_answers [of lk s0] del rt(2) by metis
    show ?thesis
      using rt b by (cases "requests (tr_collector rt) ctx = []") (auto simp: rt_tick_def ctx Let_def split_beta)
  qed
  from tick [OF rt1(2-4)] obtain rt2 t1 s2 where rt2: "rt_tick lk 1 rt1 = (rt2, Inr t1)"
    "tr_session rt2 = Some s2" "ss_framing s2 = ss_framing s" "tr_ctx rt2 \<noteq> None" by blast
  from tick [OF rt2(2-4)] obtain rt3 t2 where rt3: "rt_tick lk 2 rt2 = (rt3, Inr t2)" by blast
  have "list_all (fails_transiently ?rt) [(dead_network, lk)]"
    by (simp add: fails_transiently_def rt_connect_def session_connect_def dead_network_def Let_def)
  moreover have "length [(dead_network, lk)] < 2 ^ 32" by simp
  ultimately show ?thesis
    using poll_recovers [OF _ _ rt1(1) rt2(1) rt3, where ?elapsed1.0 = 0 and ?at1.0 = 1 and ?elapsed2.0 = 0 and ?at2.0 = 2]
    unfolding split_beta by blast
qed

text \<open>
  C27: what cannot pass is not tried again: when connecting or refreshing fails for good (a rejected
  sign-in, a changed host key), the loop ends there, having said so and having refused every queued
  command, and nothing that happens later makes it move or publish again.
\<close>

theorem hopeless_failure_ends:
  assumes "pl_phase p = Dialling \<and> inp = Dial env lk \<and> snd (rt_connect env lk (pl_runtime p)) = Inl e
      \<or> pl_phase p = Refreshing \<and> inp = Tick lk now elapsed at_ms \<and> snd (rt_tick lk now (pl_runtime p)) = Inl e"
    and "\<not> is_transient e" "tg_generation tg = pl_generation p"
  shows "case poll_step inp tg p of (tg', p') \<Rightarrow>
      pl_phase p' = Over \<and> sn_state (tg_snapshot tg') = Failed (transport_error_display e) False
      \<and> (pl_phase p = Refreshing \<longrightarrow>
           pl_inbox p' = [] \<and> map fst (pl_answers p') = map fst (pl_answers p) @ map jb_id (pl_inbox p))
      \<and> poll_run later (tg', p') = (tg', p')"
proof -
  have over: "poll_run later (t, q) = (t, q)" if "pl_phase q = Over" for t q
  proof -
    have "poll_step inp t q = (t, q)" for inp
      using that by (cases inp) (simp_all add: poll_proceed_def)
    then show ?thesis by (induction later) simp_all
  qed
  from assms(1) show ?thesis
  proof (elim disjE conjE)
    assume a: "pl_phase p = Dialling" "inp = Dial env lk" "snd (rt_connect env lk (pl_runtime p)) = Inl e"
    then show ?thesis
      using assms(2,3)
      by (cases "rt_connect env lk (pl_runtime p)") (simp add: poll_dial_def Let_def publish_def over)
  next
    assume a: "pl_phase p = Refreshing" "inp = Tick lk now elapsed at_ms"
      "snd (rt_tick lk now (pl_runtime p)) = Inl e"
    obtain rt where rt: "rt_tick lk now (pl_runtime p) = (rt, Inl e)"
      using a(3) by (cases "rt_tick lk now (pl_runtime p)") simp
    have "tr_state rt = target_state.Failed (transport_error_display e) False"
      using rt assms(2)
      by (auto simp: rt_tick_def on_disconnect_def Let_def split: option.splits sum.splits prod.splits)
    then show ?thesis
      using a rt assms(3) by (simp add: poll_tick_def session_lost_def Let_def publish_def over o_def)
  qed
qed

theorem hopeless_failure_ends_witness:
  "pl_phase (snd (poll_step (Dial (demo_env\<lparr>ce_pins := (ce_pins demo_env)\<lparr>ps_check := \<lambda>_ _ _. KeyChanged\<rparr>\<rparr>) dead_link)
     demo_target ((poll_new 0 demo_target)\<lparr>pl_phase := Dialling\<rparr>))) = Over"
proof -
  let ?p = "(poll_new 0 demo_target)\<lparr>pl_phase := Dialling\<rparr>"
  let ?env = "demo_env\<lparr>ce_pins := (ce_pins demo_env)\<lparr>ps_check := \<lambda>_ _ _. KeyChanged\<rparr>\<rparr>"
  have e: "snd (rt_connect ?env dead_link (pl_runtime ?p)) = Inl (HostKeyMismatch ''h'' 22 ''fp'')"
    by (simp add: rt_connect_def session_connect_def demo_env_def check_server_key_def poll_new_def poll_runtime_def
        runtime_new_def demo_target_def connection_spec_of_def policy_of_def nonempty_def
        connection_spec_new_def Let_def)
  have "pl_phase ?p = Dialling" "tg_generation demo_target = pl_generation ?p"
    by (simp_all add: poll_new_def demo_target_def)
  with hopeless_failure_ends [where p = ?p and inp = "Dial ?env dead_link" and env = ?env and lk = dead_link
      and e = "HostKeyMismatch ''h'' 22 ''fp''" and tg = demo_target] e
  show ?thesis by (simp add: split_beta)
qed

section \<open>Many targets\<close>

record server_glass =
  sg_targets :: "(string, host_system) hmap"
  sg_next_id :: u64

definition server_new :: server_glass where
  "server_new = \<lparr>sg_targets = [], sg_next_id = 0\<rparr>"

definition add_target :: "target_config \<Rightarrow> server_glass \<Rightarrow> server_glass \<times> string" where
  "add_target config sg =
     (let n = sg_next_id sg + 1; tid = ''t'' @ show_word n
      in (sg\<lparr>sg_targets := hm_insert tid (system_new tid config) (sg_targets sg), sg_next_id := n\<rparr>, tid))"

definition find_target :: "string \<Rightarrow> server_glass \<Rightarrow> sg_error + host_system" where
  "find_target tid sg =
     (case hm_get (sg_targets sg) tid of Some sy \<Rightarrow> Inr sy | None \<Rightarrow> Inl (UnknownTarget tid))"

definition start_target :: "string \<Rightarrow> server_glass \<Rightarrow> server_glass \<times> (sg_error + unit)" where
  "start_target tid sg =
     (case find_target tid sg of
        Inl e \<Rightarrow> (sg, Inl e)
      | Inr sy \<Rightarrow> (sg\<lparr>sg_targets := hm_insert tid (start_poll sy) (sg_targets sg)\<rparr>, Inr ()))"

definition stop_target :: "string \<Rightarrow> server_glass \<Rightarrow> server_glass \<times> (sg_error + unit)" where
  "stop_target tid sg =
     (case find_target tid sg of
        Inl e \<Rightarrow> (sg, Inl e)
      | Inr sy \<Rightarrow> (sg\<lparr>sg_targets := hm_insert tid (stop_poll sy) (sg_targets sg)\<rparr>, Inr ()))"

definition remove_target :: "string \<Rightarrow> server_glass \<Rightarrow> server_glass \<times> (sg_error + unit)" where
  "remove_target tid sg =
     (case stop_target tid sg of
        (sg', Inl e) \<Rightarrow> (sg', Inl e)
      | (sg', Inr _) \<Rightarrow> (sg'\<lparr>sg_targets := hm_remove tid (sg_targets sg')\<rparr>, Inr ()))"

definition target_snapshot_of :: "string \<Rightarrow> server_glass \<Rightarrow> sg_error + target_snapshot" where
  "target_snapshot_of tid sg =
     (case find_target tid sg of Inl e \<Rightarrow> Inl e | Inr sy \<Rightarrow> Inr (tg_snapshot (sy_target sy)))"

definition target_ids :: "server_glass \<Rightarrow> string list" where
  "target_ids sg = sort (map fst (sg_targets sg))"

text \<open>Every target's id is a number already given out, so a new target never replaces another.\<close>

definition ids_issued :: "server_glass \<Rightarrow> bool" where
  "ids_issued sg \<longleftrightarrow> hm_wf (sg_targets sg)
     \<and> (\<forall>tid \<in> hm_keys (sg_targets sg). \<exists>n \<le> unat (sg_next_id sg). tid = ''t'' @ show_nat n)"

lemma add_target_fresh:
  assumes "ids_issued sg" "sg_next_id sg \<noteq> - 1"
  shows "snd (add_target config sg) \<notin> hm_keys (sg_targets sg) \<and> ids_issued (fst (add_target config sg))"
proof -
  have "1 + sg_next_id sg \<noteq> 0"
    using assms(2) by (simp add: add.commute [of 1] eq_neg_iff_add_eq_0)
  then have n: "unat (sg_next_id sg + 1) = Suc (unat (sg_next_id sg))"
    unfolding add.commute [of _ 1] by (rule unatSuc)
  have "''t'' @ show_nat (Suc (unat (sg_next_id sg))) \<notin> hm_keys (sg_targets sg)"
    using assms(1) by (auto simp: ids_issued_def show_nat_inj)
  with assms(1) show ?thesis
    unfolding add_target_def Let_def fst_conv snd_conv ids_issued_def show_word_def n
    by (auto simp: map_simps n show_word_def intro: hm_wf_insert) (metis fst_conv le_SucI)
qed

end
