(* ===== verification/Merge.thy ===== *)
theory Merge
  imports Rust_Text
begin

text \<open>
  What two devices exchange when they are paired, and how a device applies what it received
  (\<open>crates/sg-sync/src/payload.rs\<close>, \<open>merge.rs\<close>). A known-hosts line is kept as text; the host it
  is about and the key it pins are what the code reads off it.
\<close>

section \<open>What crosses the wire\<close>

record sync_host =
  sh_address :: string
  sh_port :: u16
  sh_user :: string
  sh_auth_kind :: string
  sh_key_path :: "string option"
  sh_host_key_policy :: string
  sh_refresh_ms :: u64

text \<open>What makes two records the same server.\<close>

definition identity :: "sync_host \<Rightarrow> string \<times> u16 \<times> string" where
  "identity h = (sh_address h, sh_port h, sh_user h)"

record payload =
  py_hosts :: "sync_host list"
  py_known_hosts :: "string list"

section \<open>Applying a received payload\<close>

record pin_conflict =
  pc_host :: string
  pc_existing :: string
  pc_incoming :: string

record merged =
  mr_hosts :: "sync_host list"
  mr_known_hosts :: "string list"
  mr_added_hosts :: nat
  mr_kept_hosts :: nat
  mr_added_pins :: nat
  mr_conflicts :: "pin_conflict list"

definition pin_host :: "string \<Rightarrow> string option" where
  "pin_host line = (case split_whitespace line of [] \<Rightarrow> None | w # _ \<Rightarrow> Some w)"

definition pin_key :: "string \<Rightarrow> string option" where
  "pin_key line = map_option (\<lambda>(_, rest). trim rest) (split_once_ws line)"

definition merge_host :: "sync_host \<Rightarrow> merged \<Rightarrow> merged" where
  "merge_host h out =
     (if \<exists>k \<in> set (mr_hosts out). identity k = identity h
      then out\<lparr>mr_kept_hosts := mr_kept_hosts out + 1\<rparr>
      else out\<lparr>mr_hosts := mr_hosts out @ [h], mr_added_hosts := mr_added_hosts out + 1\<rparr>)"

text \<open>The line held for a host: the first about it.\<close>

definition held_line :: "string list \<Rightarrow> string \<Rightarrow> string option" where
  "held_line ls host = find (\<lambda>l. pin_host l = Some host) ls"

definition merge_pin :: "string \<Rightarrow> merged \<Rightarrow> merged" where
  "merge_pin line0 out =
     (let line = trim line0
      in if line = [] \<or> hd line = CHR ''#'' then out
         else
           (case pin_host line of
              None \<Rightarrow> out
            | Some host \<Rightarrow>
                (case held_line (mr_known_hosts out) host of
                   Some held \<Rightarrow>
                     if pin_key held = pin_key line then out
                     else out\<lparr>mr_conflicts := mr_conflicts out @
                            [\<lparr>pc_host = host, pc_existing = held, pc_incoming = line\<rparr>]\<rparr>
                 | None \<Rightarrow>
                     out\<lparr>mr_known_hosts := mr_known_hosts out @ [line],
                         mr_added_pins := mr_added_pins out + 1\<rparr>)))"

definition merge_start :: "payload \<Rightarrow> merged" where
  "merge_start existing =
     \<lparr>mr_hosts = py_hosts existing, mr_known_hosts = py_known_hosts existing,
      mr_added_hosts = 0, mr_kept_hosts = 0, mr_added_pins = 0, mr_conflicts = []\<rparr>"

definition merge :: "payload \<Rightarrow> payload \<Rightarrow> merged" where
  "merge existing incoming =
     fold merge_pin (py_known_hosts incoming)
       (fold merge_host (py_hosts incoming) (merge_start existing))"

section \<open>Host records\<close>

text \<open>The records of a list that are new: neither held before nor earlier in the list.\<close>

fun new_hosts :: "(string \<times> u16 \<times> string) set \<Rightarrow> sync_host list \<Rightarrow> sync_host list" where
  "new_hosts seen [] = []"
| "new_hosts seen (h # hs) =
     (if identity h \<in> seen \<or> \<not> True then new_hosts seen hs
      else h # new_hosts (insert (identity h) seen) hs)"

interpretation host_merge: first_seen identity "\<lambda>_. True" new_hosts
  by unfold_locales simp_all

lemma merge_host_known [simp]:
  "mr_known_hosts (merge_host h out) = mr_known_hosts out"
  "mr_conflicts (merge_host h out) = mr_conflicts out"
  "mr_added_pins (merge_host h out) = mr_added_pins out"
  by (simp_all add: merge_host_def)

lemma fold_merge_host:
  "let out' = fold merge_host hs out; new = new_hosts (identity ` set (mr_hosts out)) hs
   in mr_hosts out' = mr_hosts out @ new
      \<and> mr_added_hosts out' = mr_added_hosts out + length new
      \<and> mr_added_hosts out' + mr_kept_hosts out' = mr_added_hosts out + mr_kept_hosts out + length hs
      \<and> mr_known_hosts out' = mr_known_hosts out \<and> mr_conflicts out' = mr_conflicts out
      \<and> mr_added_pins out' = mr_added_pins out"
proof (induction hs arbitrary: out)
  case (Cons h hs)
  show ?case
  proof (cases "identity h \<in> identity ` set (mr_hosts out)")
    case True
    then have "merge_host h out = out\<lparr>mr_kept_hosts := mr_kept_hosts out + 1\<rparr>"
      by (auto simp: merge_host_def image_iff)
    with True Cons [of "merge_host h out"] show ?thesis by (simp add: Let_def)
  next
    case False
    then have "merge_host h out = out\<lparr>mr_hosts := mr_hosts out @ [h], mr_added_hosts := mr_added_hosts out + 1\<rparr>"
      by (auto simp: merge_host_def image_iff)
    with False Cons [of "merge_host h out"] show ?thesis by (simp add: Let_def)
  qed
qed (simp add: Let_def)

section \<open>Host-key pins\<close>

text \<open>The lines of a payload that are about a host, and the host each is about.\<close>

definition pin_lines :: "string list \<Rightarrow> string list" where
  "pin_lines ls = filter (\<lambda>l. l \<noteq> [] \<and> hd l \<noteq> CHR ''#'' \<and> pin_host l \<noteq> None) (map trim ls)"

fun new_pins :: "string option set \<Rightarrow> string list \<Rightarrow> string list" where
  "new_pins seen [] = []"
| "new_pins seen (l # ls) =
     (if pin_host l \<in> seen \<or> \<not> True then new_pins seen ls
      else l # new_pins (insert (pin_host l) seen) ls)"

interpretation pin_merge: first_seen pin_host "\<lambda>_. True" new_pins
  by unfold_locales simp_all

text \<open>The lines that disagree with what is held for their host.\<close>

definition disagreements :: "string list \<Rightarrow> string list \<Rightarrow> pin_conflict list" where
  "disagreements held ls =
     concat (map (\<lambda>l. case pin_host l of None \<Rightarrow> [] | Some host \<Rightarrow>
       (case held_line held host of None \<Rightarrow> []
        | Some k \<Rightarrow> if pin_key k = pin_key l then []
                    else [\<lparr>pc_host = host, pc_existing = k, pc_incoming = l\<rparr>])) ls)"

lemma held_line_append:
  "held_line (xs @ ys) host =
     (case held_line xs host of Some l \<Rightarrow> Some l | None \<Rightarrow> held_line ys host)"
  by (induction xs) (simp_all add: held_line_def)

lemma held_line_None: "held_line ls host = None \<longleftrightarrow> Some host \<notin> pin_host ` set ls"
  by (auto simp: held_line_def find_None_iff image_iff dest: sym)

lemma held_line_kept: "held_line xs host = Some l \<Longrightarrow> held_line (xs @ ys) host = Some l"
  by (simp add: held_line_append)

lemma disagreements_kept:
  "\<forall>l \<in> set ls. pin_host l \<in> pin_host ` set held \<Longrightarrow> disagreements (held @ ys) ls = disagreements held ls"
proof -
  assume *: "\<forall>l \<in> set ls. pin_host l \<in> pin_host ` set held"
  have "held_line (held @ ys) host = held_line held host"
    if "l \<in> set ls" "pin_host l = Some host" for l host
  proof -
    from * that(1) have "pin_host l \<in> pin_host ` set held" ..
    with that(2) have "held_line held host \<noteq> None" by (simp add: held_line_None)
    then show ?thesis by (auto simp: held_line_append)
  qed
  then show ?thesis
    unfolding disagreements_def
    by (intro arg_cong [where f = concat] map_cong refl) (auto split: option.split)
qed

lemma fold_merge_pin:
  "let out' = fold merge_pin ls out; new = new_pins (pin_host ` set (mr_known_hosts out)) (pin_lines ls)
   in mr_known_hosts out' = mr_known_hosts out @ new
      \<and> mr_added_pins out' = mr_added_pins out + length new
      \<and> mr_conflicts out' = mr_conflicts out @ disagreements (mr_known_hosts out @ new) (pin_lines ls)
      \<and> mr_hosts out' = mr_hosts out \<and> mr_added_hosts out' = mr_added_hosts out
      \<and> mr_kept_hosts out' = mr_kept_hosts out"
proof (induction ls arbitrary: out)
  case (Cons l0 ls)
  define l where "l = trim l0"
  show ?case
  proof (cases "l = [] \<or> hd l = CHR ''#'' \<or> pin_host l = None")
    case True
    then have "merge_pin l0 out = out" "pin_lines (l0 # ls) = pin_lines ls"
      by (auto simp: merge_pin_def pin_lines_def l_def Let_def)
    with Cons [of out] show ?thesis by simp
  next
    case False
    then obtain host where host: "pin_host l = Some host" by auto
    from False have lines: "pin_lines (l0 # ls) = l # pin_lines ls"
      by (simp add: pin_lines_def l_def)
    let ?held = "mr_known_hosts out"
    show ?thesis
    proof (cases "held_line ?held host")
      case None
      then have m: "merge_pin l0 out = out\<lparr>mr_known_hosts := ?held @ [l], mr_added_pins := mr_added_pins out + 1\<rparr>"
        using False host by (simp add: merge_pin_def l_def Let_def)
      from None have new: "pin_host l \<notin> pin_host ` set ?held" using host by (simp add: held_line_None)
      have "held_line (?held @ l # ys) host = Some l" for ys
        using None host by (simp add: held_line_append) (simp add: held_line_def)
      then have "disagreements (?held @ l # ys) (l # pin_lines ls) = disagreements (?held @ l # ys) (pin_lines ls)" for ys
        using host by (simp add: disagreements_def)
      with Cons [of "merge_pin l0 out"] new m lines show ?thesis by (simp add: Let_def)
    next
      case (Some k)
      then have old: "pin_host l \<in> pin_host ` set ?held"
        using host held_line_None [of ?held host] by auto
      have m: "merge_pin l0 out =
          (if pin_key k = pin_key l then out
           else out\<lparr>mr_conflicts := mr_conflicts out @ [\<lparr>pc_host = host, pc_existing = k, pc_incoming = l\<rparr>]\<rparr>)"
        using False host Some by (simp add: merge_pin_def l_def Let_def)
      have "disagreements (?held @ ys) (l # pin_lines ls) =
          (if pin_key k = pin_key l then [] else [\<lparr>pc_host = host, pc_existing = k, pc_incoming = l\<rparr>])
            @ disagreements (?held @ ys) (pin_lines ls)" for ys
        using host held_line_kept [OF Some, of ys] by (simp add: disagreements_def)
      with Cons [of "merge_pin l0 out"] old m lines show ?thesis by (simp add: Let_def)
    qed
  qed
qed (simp add: Let_def pin_lines_def disagreements_def)

text \<open>
  C34: a transfer never changes what a device trusts, where the host of a line is its first field, as the
  code takes it: after a merge the key held for any host is the
  one held before, and only a host without one takes the first key the transfer brings for it; every
  line that brings another key is reported with the line it disagrees with, in order, and nothing
  else is reported; all lines held before are still there, in place.
\<close>

theorem merge_keeps_pins:
  "let m = merge existing incoming; brought = pin_lines (py_known_hosts incoming)
   in (\<forall>host. held_line (mr_known_hosts m) host =
         (case held_line (py_known_hosts existing) host of
            Some line \<Rightarrow> Some line | None \<Rightarrow> held_line brought host))
      \<and> mr_conflicts m = disagreements (mr_known_hosts m) brought
      \<and> (\<exists>new. mr_known_hosts m = py_known_hosts existing @ new \<and> subseq new brought
            \<and> length new = mr_added_pins m)"
proof -
  let ?old = "py_known_hosts existing" and ?brought = "pin_lines (py_known_hosts incoming)"
  let ?new = "new_pins (pin_host ` set ?old) ?brought"
  have m: "mr_known_hosts (merge existing incoming) = ?old @ ?new"
    "mr_added_pins (merge existing incoming) = length ?new"
    "mr_conflicts (merge existing incoming) = disagreements (?old @ ?new) ?brought"
    using fold_merge_host [of "py_hosts incoming" "merge_start existing"]
      fold_merge_pin [of "py_known_hosts incoming" "fold merge_host (py_hosts incoming) (merge_start existing)"]
    by (simp_all add: merge_def Let_def merge_start_def)
  have "held_line (new_pins seen ls) host = held_line ls host" if "Some host \<notin> seen" for seen ls host
    using that by (induction ls arbitrary: seen) (auto simp: held_line_def)
  then have "held_line (?old @ ?new) host = (case held_line ?old host of Some line \<Rightarrow> Some line
      | None \<Rightarrow> held_line ?brought host)" for host
    using held_line_None [of ?old host] by (auto simp: held_line_append split: option.split)
  with m pin_merge.in_order show ?thesis by (auto simp: Let_def)
qed

text \<open>
  A transfer adds servers and changes none: the servers held before come first, unchanged; after
  them comes the first record of every server that is new, in the order they were sent; every
  record sent is counted as added or as kept. Applying the same transfer again adds nothing and
  reports the same conflicts.
\<close>

theorem merge_adds_only:
  "let m = merge existing incoming;
       again = merge \<lparr>py_hosts = mr_hosts m, py_known_hosts = mr_known_hosts m\<rparr> incoming
   in (\<exists>new. mr_hosts m = py_hosts existing @ new \<and> subseq new (py_hosts incoming)
         \<and> distinct (map identity new) \<and> length new = mr_added_hosts m
         \<and> identity ` set new = identity ` set (py_hosts incoming) - identity ` set (py_hosts existing))
      \<and> mr_added_hosts m + mr_kept_hosts m = length (py_hosts incoming)
      \<and> mr_hosts again = mr_hosts m \<and> mr_known_hosts again = mr_known_hosts m
      \<and> mr_added_hosts again = 0 \<and> mr_added_pins again = 0 \<and> mr_conflicts again = mr_conflicts m"
proof -
  let ?hosts = "\<lambda>p. new_hosts (identity ` set (py_hosts p)) (py_hosts incoming)"
  let ?pins = "\<lambda>p. new_pins (pin_host ` set (py_known_hosts p)) (pin_lines (py_known_hosts incoming))"
  have m: "mr_hosts (merge p incoming) = py_hosts p @ ?hosts p"
    "mr_added_hosts (merge p incoming) = length (?hosts p)"
    "mr_added_hosts (merge p incoming) + mr_kept_hosts (merge p incoming) = length (py_hosts incoming)"
    "mr_known_hosts (merge p incoming) = py_known_hosts p @ ?pins p"
    "mr_added_pins (merge p incoming) = length (?pins p)"
    "mr_conflicts (merge p incoming) =
       disagreements (py_known_hosts p @ ?pins p) (pin_lines (py_known_hosts incoming))" for p
    using fold_merge_host [of "py_hosts incoming" "merge_start p"]
      fold_merge_pin [of "py_known_hosts incoming" "fold merge_host (py_hosts incoming) (merge_start p)"]
    by (simp_all add: merge_def Let_def merge_start_def)
  let ?m = "merge existing incoming"
  let ?next = "\<lparr>py_hosts = mr_hosts ?m, py_known_hosts = mr_known_hosts ?m\<rparr>"
  have "?hosts ?next = []"
    by (rule host_merge.none_new) (auto simp: m image_Un host_merge.keys)
  moreover have "?pins ?next = []"
    by (rule pin_merge.none_new) (auto simp: m image_Un pin_merge.keys)
  moreover have "identity ` set (?hosts existing) = identity ` set (py_hosts incoming) - identity ` set (py_hosts existing)"
    unfolding host_merge.keys by auto
  ultimately show ?thesis
    using host_merge.in_order host_merge.distinct_keys m(3) [of existing, unfolded m(2)]
    by (auto simp: Let_def m)
qed


text \<open>
  The host of a pin is its whole first field: a line for a list of names is a pin of no held host,
  also when a name of the list has one.
\<close>

lemma name_list_passes_conflict_check:
  "let held = ''web ssh-ed25519 HONEST''; sent = ''x,web ssh-ed25519 OTHER'';
       m = merge \<lparr>py_hosts = [], py_known_hosts = [held]\<rparr> \<lparr>py_hosts = [], py_known_hosts = [sent]\<rparr>
   in mr_conflicts m = [] \<and> mr_known_hosts m = [held, sent]"
  by code_simp

text \<open>Only the first pin of a host is looked at: the second of two equal ones is a conflict.\<close>

lemma second_key_type_conflicts:
  "let pins = [''web ssh-ed25519 A'', ''web ssh-rsa B''];
       m = merge \<lparr>py_hosts = [], py_known_hosts = pins\<rparr> \<lparr>py_hosts = [], py_known_hosts = pins\<rparr>
   in map pc_incoming (mr_conflicts m) = [''web ssh-rsa B'']"
  by code_simp

end
