(* ===== verification/Pairing.thy ===== *)
theory Pairing
  imports Transport
begin

text \<open>
  Pairing two devices (\<open>crates/sg-sync/src/pairing.rs\<close>, \<open>transfer.rs\<close>): the offer one device shows,
  the handshake the other completes with it, and the sealed transfer. Bytes are texts. Base64,
  X25519, HKDF and ChaCha20-Poly1305 are libraries, so they are a record of functions; random bytes,
  the clock and what the network does are arguments.
\<close>

section \<open>Errors and libraries\<close>

datatype sync_error =
  Malformed string | Version string | Handshake string | Crypto string | Transfer string

fun sync_error_display :: "sync_error \<Rightarrow> string" where
  "sync_error_display (Malformed m) = m"
| "sync_error_display (Version v) =
     ''this pairing code is from a newer version of ServerGlass (v'' @ v @ '')''"
| "sync_error_display (Handshake m) = m"
| "sync_error_display (Crypto m) = m"
| "sync_error_display (Transfer m) = m"

record crypto =
  cy_b64_encode :: "string \<Rightarrow> string"
  cy_b64_decode :: "string \<Rightarrow> string option"
  cy_public :: "string \<Rightarrow> string"
  cy_dh :: "string \<Rightarrow> string \<Rightarrow> string"
  cy_contributory :: "string \<Rightarrow> bool"
  cy_hkdf :: "string \<Rightarrow> string \<Rightarrow> string \<Rightarrow> nat \<Rightarrow> string option"
  cy_encrypt :: "string \<Rightarrow> string \<Rightarrow> string \<Rightarrow> string option"
  cy_decrypt :: "string \<Rightarrow> string \<Rightarrow> string \<Rightarrow> string option"

section \<open>The offer\<close>

definition version :: u8 where "version = 1"
definition offer_ttl_secs :: u64 where "offer_ttl_secs = 120"

record offer =
  of_public_key :: string
  of_nonce :: string
  of_addresses :: "string list"

definition offer_encode :: "crypto \<Rightarrow> offer \<Rightarrow> string" where
  "offer_encode c self =
     ''SG'' @ show_word version @ '':'' @ cy_b64_encode c (of_public_key self) @ '':''
       @ cy_b64_encode c (of_nonce self) @ '':'' @ join '','' (of_addresses self)"

text \<open>\<open>splitn(n, c)\<close>: at most n pieces, the last with whatever is left.\<close>

fun splitn :: "nat \<Rightarrow> char \<Rightarrow> string \<Rightarrow> string list" where
  "splitn 0 d s = []"
| "splitn (Suc 0) d s = [s]"
| "splitn (Suc (Suc n)) d s =
     (case split_once d s of None \<Rightarrow> [s] | Some (a, b) \<Rightarrow> a # splitn (Suc n) d b)"

definition sized :: "nat \<Rightarrow> string option \<Rightarrow> string option" where
  "sized n bytes = (case bytes of Some b \<Rightarrow> if length b = n then Some b else None | None \<Rightarrow> None)"

definition offer_addresses :: "string \<Rightarrow> string list" where
  "offer_addresses s = filter (\<lambda>a. a \<noteq> []) (map trim (split_char (CHR '','') s))"

definition offer_parts :: "crypto \<Rightarrow> string list \<Rightarrow> sync_error + offer" where
  "offer_parts c parts =
     (case parts of
        [] \<Rightarrow> Inl (Malformed ''no key'')
      | [_] \<Rightarrow> Inl (Malformed ''no nonce'')
      | [_, _] \<Rightarrow> Inl (Malformed ''no address'')
      | key_part # salt_part # address_part # _ \<Rightarrow>
          (case sized 32 (cy_b64_decode c key_part) of
             None \<Rightarrow> Inl (Malformed ''bad key'')
           | Some key \<Rightarrow>
               (case sized 16 (cy_b64_decode c salt_part) of
                  None \<Rightarrow> Inl (Malformed ''bad nonce'')
                | Some salt \<Rightarrow>
                    (let as = offer_addresses address_part
                     in if as = [] then Inl (Malformed ''no address'')
                        else if length as > 32 then Inl (Malformed ''too many pairing addresses'')
                        else Inr \<lparr>of_public_key = key, of_nonce = salt, of_addresses = as\<rparr>))))"

definition offer_decode :: "crypto \<Rightarrow> string \<Rightarrow> sync_error + offer" where
  "offer_decode c text0 =
     (let s = trim text0
      in if length s > 4096 then Inl (Malformed ''pairing code is too large'')
         else
           (case strip_prefix ''SG'' s of
              None \<Rightarrow> Inl (Malformed ''not a ServerGlass pairing code'')
            | Some rest \<Rightarrow>
                (case split_once (CHR '':'') rest of
                   None \<Rightarrow> Inl (Malformed ''truncated pairing code'')
                 | Some (v, rest) \<Rightarrow>
                     if v \<noteq> show_word version then Inl (Version v)
                     else offer_parts c (splitn 3 (CHR '':'') rest))))"

section \<open>The handshake\<close>

record handshake =
  hs_secret :: string
  hs_public :: string
  hs_nonce :: string

definition offering :: "crypto \<Rightarrow> string \<Rightarrow> string \<Rightarrow> string list \<Rightarrow> handshake \<times> offer" where
  "offering c secret salt addresses =
     (let public = cy_public c secret
      in (\<lparr>hs_secret = secret, hs_public = public, hs_nonce = salt\<rparr>,
          \<lparr>of_public_key = public, of_nonce = salt, of_addresses = addresses\<rparr>))"

definition accepting :: "crypto \<Rightarrow> string \<Rightarrow> offer \<Rightarrow> handshake" where
  "accepting c secret offer =
     \<lparr>hs_secret = secret, hs_public = cy_public c secret, hs_nonce = of_nonce offer\<rparr>"

record pair_session =
  pr_key :: string
  pr_code :: u32

definition be_word :: "string \<Rightarrow> u32" where
  "be_word bytes = foldl (\<lambda>w b. w * 256 + of_nat (byte b)) 0 bytes"

definition transcript :: "handshake \<Rightarrow> string \<Rightarrow> bool \<Rightarrow> string" where
  "transcript self theirs offered =
     (let (first_key, second_key) =
        (if offered then (hs_public self, theirs) else (theirs, hs_public self))
      in [char_of (unat version)] @ first_key @ second_key @ hs_nonce self)"

definition handshake_complete ::
  "crypto \<Rightarrow> handshake \<Rightarrow> string \<Rightarrow> bool \<Rightarrow> sync_error + pair_session" where
  "handshake_complete c self theirs offered =
     (let shared = cy_dh c (hs_secret self) theirs
      in if \<not> cy_contributory c shared then Inl (Handshake ''the other device sent an unusable key'')
         else
           (let prk = cy_hkdf c (transcript self theirs offered) shared
            in case prk ''serverglass pairing key'' 32 of
                 None \<Rightarrow> Inl (Handshake ''key derivation failed'')
               | Some key \<Rightarrow>
                   (case prk ''serverglass verification code'' 4 of
                      None \<Rightarrow> Inl (Handshake ''key derivation failed'')
                    | Some sas \<Rightarrow> Inr \<lparr>pr_key = key, pr_code = be_word sas mod 1000000\<rparr>)))"

text \<open>Six digits, zero-padded, in two groups.\<close>

definition verification_code :: "pair_session \<Rightarrow> string" where
  "verification_code self =
     (let digits = show_word (pr_code self); code = replicate (6 - length digits) (CHR ''0'') @ digits
      in take 3 code @ '' '' @ drop 3 code)"

definition seal :: "crypto \<Rightarrow> string \<Rightarrow> pair_session \<Rightarrow> string \<Rightarrow> sync_error + string" where
  "seal c salt self plaintext =
     (case cy_encrypt c (pr_key self) salt plaintext of
        None \<Rightarrow> Inl (Crypto ''could not encrypt the transfer'')
      | Some sealed \<Rightarrow> Inr (salt @ sealed))"

definition open_sealed :: "crypto \<Rightarrow> pair_session \<Rightarrow> string \<Rightarrow> sync_error + string" where
  "open_sealed c self sealed =
     (if length sealed < 12 then Inl (Crypto ''the transfer was truncated'')
      else
        (case cy_decrypt c (pr_key self) (take 12 sealed) (drop 12 sealed) of
           None \<Rightarrow> Inl (Crypto ''the transfer could not be decrypted'')
         | Some plaintext \<Rightarrow> Inr plaintext))"

section \<open>Listening\<close>

text \<open>
  A listener holds a handshake and when its offer expires, in milliseconds. What binding the two
  sockets gives: a port, or why there is none; of the IPv6 socket only a port counts.
\<close>

record listener =
  ln_handshake :: handshake
  ln_offer :: offer
  ln_expires_at :: nat

datatype bind_end = BindFailed string | AddrFailed string | BoundAt u16

definition advertise :: "u16 \<Rightarrow> u16 option \<Rightarrow> string \<Rightarrow> string option" where
  "advertise port port_v6 host =
     (if CHR '':'' \<in> set host then
        (case port_v6 of
           None \<Rightarrow> None
         | Some p \<Rightarrow>
             if prefix ''['' host then Some (host @ '':'' @ show_word p)
             else Some (''['' @ host @ '']:'' @ show_word p))
      else Some (host @ '':'' @ show_word port))"

definition listener_bind ::
  "crypto \<Rightarrow> bind_end \<Rightarrow> u16 option \<Rightarrow> string \<Rightarrow> string \<Rightarrow> nat \<Rightarrow> string list \<Rightarrow> sync_error + listener" where
  "listener_bind c v4 v6 secret salt now hosts =
     (if hosts = [] then Inl (Transfer ''this device has no network address to offer'')
      else
        (case v4 of
           BindFailed e \<Rightarrow> Inl (Transfer (''could not listen: '' @ e))
         | AddrFailed e \<Rightarrow> Inl (Transfer e)
         | BoundAt port \<Rightarrow>
             (let port_v6 = (if \<exists>h \<in> set hosts. CHR '':'' \<in> set h then v6 else None);
                  addresses = List.map_filter (advertise port port_v6) hosts
              in if addresses = []
                 then Inl (Transfer ''could not listen on any of this device's network addresses'')
                 else
                   (let (hs, shown) = offering c secret salt addresses
                    in Inr \<lparr>ln_handshake = hs, ln_offer = shown,
                            ln_expires_at = now + 1000 * unat offer_ttl_secs\<rparr>))))"

text \<open>
  What became of the exchange by the time the offer expires: nothing, no connection, a connection
  that broke, or the 32 bytes the peer sent, answered with this side's key.
\<close>

datatype accept_end = NoDevice string | ExchangeBroke string | PeerKey string

definition listener_accept ::
  "crypto \<Rightarrow> nat \<Rightarrow> accept_end option \<Rightarrow> listener \<Rightarrow> sync_error + pair_session" where
  "listener_accept c now exchange self =
     (let expired = Inl (Transfer ''The pairing code expired. Create a new one.'')
      in if now \<ge> ln_expires_at self then expired
         else
           (case exchange of
              None \<Rightarrow> expired
            | Some (NoDevice e) \<Rightarrow> Inl (Transfer (''no device connected: '' @ e))
            | Some (ExchangeBroke e) \<Rightarrow> Inl (Transfer (''handshake failed: '' @ e))
            | Some (PeerKey theirs) \<Rightarrow> handshake_complete c (ln_handshake self) theirs True))"

section \<open>Dialling\<close>

datatype dial_end = NoAnswer string | AnswerKey string

definition dial_one :: "crypto \<Rightarrow> offer \<Rightarrow> string \<Rightarrow> dial_end \<Rightarrow> sync_error + pair_session" where
  "dial_one c offer secret answer =
     (case answer of
        NoAnswer e \<Rightarrow> Inl (Transfer e)
      | AnswerKey theirs \<Rightarrow>
          if theirs \<noteq> of_public_key offer
          then Inl (Handshake ''The device's key does not match the pairing code.'')
          else handshake_complete c (accepting c secret offer) theirs False)"

text \<open>
  Every address in turn, with a fresh secret each and what came of it within the time one address
  is given; the first that completes is used.
\<close>

fun dial_loop ::
  "crypto \<Rightarrow> offer \<Rightarrow> (nat \<Rightarrow> string \<times> dial_end option) \<Rightarrow> nat \<Rightarrow> string list \<Rightarrow> string option
     \<Rightarrow> sync_error + nat \<times> pair_session" where
  "dial_loop c offer net i [] final =
     Inl (Transfer (''could not reach the other device. Check both are on the same network or VPN''
       @ (case final of Some e \<Rightarrow> '' ('' @ e @ '')'' | None \<Rightarrow> [])))"
| "dial_loop c offer net i (a # as) final =
     (case net i of
        (secret, None) \<Rightarrow> dial_loop c offer net (Suc i) as (Some (a @ '': timed out''))
      | (secret, Some answer) \<Rightarrow>
          (case dial_one c offer secret answer of
             Inr session \<Rightarrow> Inr (i, session)
           | Inl e \<Rightarrow> dial_loop c offer net (Suc i) as (Some (a @ '': '' @ sync_error_display e))))"

definition send_transfer ::
  "crypto \<Rightarrow> (nat \<Rightarrow> string \<times> dial_end option) \<Rightarrow> offer \<Rightarrow> sync_error + nat \<times> pair_session" where
  "send_transfer c net offer = dial_loop c offer net 0 (of_addresses offer) None"

section \<open>The sealed transfer\<close>

definition max_transfer :: nat where "max_transfer = 2 ^ 20"

fun be_bytes :: "nat \<Rightarrow> nat \<Rightarrow> string" where
  "be_bytes 0 n = []"
| "be_bytes (Suc k) n = be_bytes k (n div 256) @ [char_of (n mod 256)]"

definition be_nat :: "string \<Rightarrow> nat" where
  "be_nat bytes = foldl (\<lambda>n b. n * 256 + byte b) 0 bytes"

definition pairing_slow :: sync_error where
  "pairing_slow = Transfer ''The transfer timed out. Pair the devices again.''"

definition too_large :: sync_error where
  "too_large = Transfer ''the inventory is too large to send''"

text \<open>What happens to the bytes written, and what a reader finds when it wants more.\<close>

datatype wire_end = Delivered | Broke string | Slow
datatype read_stop = Stopped string | Stalled

definition write_payload ::
  "crypto \<Rightarrow> string \<Rightarrow> wire_end \<Rightarrow> pair_session \<Rightarrow> string \<Rightarrow> sync_error + string" where
  "write_payload c salt fate session plaintext =
     (if length plaintext > max_transfer - 28 then Inl too_large
      else
        (case seal c salt session plaintext of
           Inl e \<Rightarrow> Inl e
         | Inr sealed \<Rightarrow>
             if length sealed \<ge> 2 ^ 32 then Inl too_large
             else
               (case fate of
                  Delivered \<Rightarrow> Inr (be_bytes 4 (length sealed) @ sealed)
                | Broke e \<Rightarrow> Inl (Transfer e)
                | Slow \<Rightarrow> Inl pairing_slow)))"

definition read_exact :: "read_stop \<Rightarrow> nat \<Rightarrow> string \<Rightarrow> sync_error + string \<times> string" where
  "read_exact stop n incoming =
     (if n \<le> length incoming then Inr (take n incoming, drop n incoming)
      else
        (case stop of
           Stalled \<Rightarrow> Inl pairing_slow
         | Stopped e \<Rightarrow> Inl (Transfer (''the transfer stopped early: '' @ e))))"

definition accept_transfer ::
  "crypto \<Rightarrow> read_stop \<Rightarrow> pair_session \<Rightarrow> string \<Rightarrow> sync_error + string" where
  "accept_transfer c stop session incoming =
     (case read_exact stop 4 incoming of
        Inl e \<Rightarrow> Inl e
      | Inr (size_bytes, rest) \<Rightarrow>
          (if be_nat size_bytes > max_transfer
           then Inl (Transfer ''the other device offered more than an inventory could be'')
           else
             (case read_exact stop (be_nat size_bytes) rest of
                Inl e \<Rightarrow> Inl e
              | Inr (sealed, _) \<Rightarrow> open_sealed c session sealed)))"

section \<open>An offer survives the trip through a code\<close>

text \<open>What the libraries are relied on for: Base64 (URL-safe, unpadded) decodes what it encoded.\<close>

definition plain_char :: "char \<Rightarrow> bool" where
  "plain_char ch \<longleftrightarrow> byte ch < 128 \<and> \<not> is_ascii_ws ch"

definition base64_laws :: "crypto \<Rightarrow> bool" where
  "base64_laws c \<longleftrightarrow>
     (\<forall>bs. cy_b64_decode c (cy_b64_encode c bs) = Some bs
        \<and> length (cy_b64_encode c bs) \<le> 2 * length bs
        \<and> list_all (\<lambda>ch. plain_char ch \<and> ch \<noteq> CHR '':'') (cy_b64_encode c bs))"

text \<open>An offer a device can make: addresses are printable, without a comma, and not too many.\<close>

definition address_ok :: "string \<Rightarrow> bool" where
  "address_ok a \<longleftrightarrow> a \<noteq> [] \<and> list_all (\<lambda>ch. plain_char ch \<and> ch \<noteq> CHR '','') a"

definition offer_ok :: "offer \<Rightarrow> bool" where
  "offer_ok self \<longleftrightarrow> length (of_public_key self) = 32 \<and> length (of_nonce self) = 16
     \<and> of_addresses self \<noteq> [] \<and> length (of_addresses self) \<le> 32
     \<and> list_all address_ok (of_addresses self) \<and> length (join '','' (of_addresses self)) \<le> 3994"

lemma plain_ws_free: "list_all plain_char s \<Longrightarrow> ws_free s"
  by (rule ws_free_ascii) (simp add: list_all_iff plain_char_def)

lemma separators_plain: "plain_char (CHR '','')" "plain_char (CHR '':'')" "plain_char (CHR ''S'')" "plain_char (CHR ''G'')"
  by (simp_all add: plain_char_def is_ascii_ws_def)

lemma address_plain: "address_ok a \<Longrightarrow> list_all plain_char a"
  unfolding address_ok_def list_all_iff by blast

lemma join_plain: "list_all address_ok as \<Longrightarrow> list_all plain_char (join '','' as)"
  by (induction as rule: induct_list012) (simp_all add: address_plain separators_plain)

lemma splitn_three:
  assumes "d \<notin> set a" "d \<notin> set b"
  shows "splitn 3 d (a @ d # b @ d # rest) = [a, b, rest]"
  using assms by (simp add: numeral_3_eq_3 split_once_append)

lemma address_trim: "address_ok a \<Longrightarrow> a \<noteq> [] \<and> trim a = a"
proof -
  assume a: "address_ok a"
  then have "list_all plain_char a" by (rule address_plain)
  with a show ?thesis by (simp add: address_ok_def trim_ws_free plain_ws_free)
qed

lemma offer_addresses_join:
  assumes "list_all address_ok as" "as \<noteq> []"
  shows "offer_addresses (join '','' as) = as"
proof -
  have "split_char (CHR '','') (join '','' as) = as"
  proof (rule split_char_join)
    show "\<forall>p \<in> set as. CHR '','' \<notin> set p"
      using assms(1) unfolding list_all_iff address_ok_def by blast
  qed (rule assms(2))
  moreover have "map trim as = as" "filter (\<lambda>a. a \<noteq> []) as = as"
    using assms(1) by (induction as) (simp_all add: address_trim)
  ultimately show ?thesis by (simp only: offer_addresses_def)
qed

lemma base64_decodes: "base64_laws c \<Longrightarrow> cy_b64_decode c (cy_b64_encode c bs) = Some bs"
  by (simp add: base64_laws_def)

lemma offer_parts_ok:
  assumes "base64_laws c" "offer_ok self"
  shows "offer_parts c [cy_b64_encode c (of_public_key self), cy_b64_encode c (of_nonce self),
           join '','' (of_addresses self)] = Inr self"
proof -
  have "offer_addresses (join '','' (of_addresses self)) = of_addresses self"
    using assms(2) by (intro offer_addresses_join) (simp_all add: offer_ok_def)
  with assms(2) show ?thesis
    unfolding offer_parts_def list.case base64_decodes [OF assms(1)] Let_def
    by (simp add: offer_ok_def sized_def)
qed

lemma show_version: "show_word version = ''1''"
  by code_simp

lemma offer_decode_plain:
  assumes "list_all plain_char rest" "length rest \<le> 4093" "CHR '':'' \<notin> set v" "list_all plain_char v" "length v + length rest \<le> 4093"
  shows "offer_decode c (''SG'' @ v @ '':'' @ rest) =
    (if v \<noteq> ''1'' then Inl (Version v) else offer_parts c (splitn 3 (CHR '':'') rest))"
proof -
  let ?t = "''SG'' @ v @ '':'' @ rest"
  have "list_all plain_char ?t"
    using assms by (simp add: separators_plain)
  then have "trim ?t = ?t" by (intro trim_ws_free plain_ws_free)
  moreover have "length ?t \<le> 4096" using assms(5) by simp
  moreover have "strip_prefix ''SG'' ?t = Some (v @ '':'' @ rest)" by (simp add: strip_prefix_def)
  moreover have "split_once (CHR '':'') (v @ '':'' @ rest) = Some (v, rest)"
    using split_once_append [OF assms(3), of rest] by simp
  ultimately show ?thesis by (simp add: offer_decode_def show_version Let_def)
qed

lemma offer_decode_encode:
  assumes "base64_laws c" "offer_ok self"
  shows "offer_decode c (offer_encode c self) = Inr self"
proof -
  let ?k = "cy_b64_encode c (of_public_key self)" and ?n = "cy_b64_encode c (of_nonce self)"
  let ?as = "join '','' (of_addresses self)"
  have plain: "list_all plain_char ?k" "list_all plain_char ?n" "list_all plain_char ?as"
    and colon: "CHR '':'' \<notin> set ?k" "CHR '':'' \<notin> set ?n"
    using assms join_plain by (auto simp: base64_laws_def list_all_iff offer_ok_def)
  have sizes: "length ?k \<le> 64" "length ?n \<le> 32" "length ?as \<le> 3994"
    using assms by (auto simp: base64_laws_def offer_ok_def dest: spec [of _ "of_public_key self"] spec [of _ "of_nonce self"])
  let ?rest = "?k @ '':'' @ ?n @ '':'' @ ?as"
  have "list_all plain_char ?rest" using plain by (simp add: separators_plain)
  then have "offer_decode c (''SG'' @ ''1'' @ '':'' @ ?rest) = offer_parts c (splitn 3 (CHR '':'') ?rest)"
    using sizes by (subst offer_decode_plain) (simp_all add: plain_char_def is_ascii_ws_def)
  also have "\<dots> = Inr self"
    using offer_parts_ok [OF assms] splitn_three [OF colon, of ?as] by simp
  finally show ?thesis by (simp only: offer_encode_def show_version)
qed

text \<open>
  C33: a code that was scanned or typed is read as exactly the offer that was shown: key, nonce and
  every address in order; and a code of another version is named as such, whatever follows.
\<close>

theorem offer_round_trip:
  assumes "base64_laws c" "offer_ok self"
  shows "offer_decode c (offer_encode c self) = Inr self
    \<and> (v \<noteq> ''1'' \<and> list_all (\<lambda>ch. plain_char ch \<and> ch \<noteq> CHR '':'') v \<and> list_all plain_char rest
         \<and> length v + length rest \<le> 4093
       \<longrightarrow> offer_decode c (''SG'' @ v @ '':'' @ rest) = Inl (Version v))"
proof -
  have "offer_decode c (''SG'' @ v @ '':'' @ rest) = Inl (Version v)"
    if "v \<noteq> ''1''" "list_all (\<lambda>ch. plain_char ch \<and> ch \<noteq> CHR '':'') v" "list_all plain_char rest"
      "length v + length rest \<le> 4093"
    using that by (subst offer_decode_plain) (auto simp: list_all_iff)
  with offer_decode_encode [OF assms] show ?thesis by blast
qed

section \<open>Two devices derive one session\<close>

text \<open>Diffie-Hellman: both sides compute one secret, and a public key is 32 bytes.\<close>

definition dh_laws :: "crypto \<Rightarrow> bool" where
  "dh_laws c \<longleftrightarrow> (\<forall>a b. cy_dh c a (cy_public c b) = cy_dh c b (cy_public c a))
     \<and> (\<forall>a. length (cy_public c a) = 32)"

lemma transcript_eq:
  assumes "length (hs_public hs) = 32" "length (hs_public peer) = 32" "length theirs = 32" "length theirs' = 32"
  shows "transcript hs theirs True = transcript peer theirs' False \<longleftrightarrow>
    theirs = hs_public peer \<and> theirs' = hs_public hs \<and> hs_nonce hs = hs_nonce peer"
  using assms by (auto simp: transcript_def)

lemma length_show_nat: "n < 10 ^ Suc k \<Longrightarrow> length (show_nat n) \<le> Suc k"
proof (induction k arbitrary: n)
  case (Suc k)
  then have "n div 10 < 10 ^ Suc k" by (simp add: div_less_iff_less_mult mult.commute)
  with Suc.IH [of "n div 10"] show ?case by (subst show_nat.simps) simp
qed (subst show_nat.simps, simp)

lemma digits_val_zeros: "digits_val (replicate k (CHR ''0'') @ s) = digits_val s"
  by (induction k) (simp_all add: digits_val_def)

lemma code_text:
  assumes "unat (pr_code s) < 1000000"
  shows "length (verification_code s) = 7"
    and "digits_val (take 3 (verification_code s) @ drop 4 (verification_code s)) = unat (pr_code s)"
proof -
  define code where "code = replicate (6 - length (show_word (pr_code s))) (CHR ''0'') @ show_word (pr_code s)"
  have "length (show_word (pr_code s)) \<le> 6"
    unfolding show_word_def using length_show_nat [of "unat (pr_code s)" 5] assms by simp
  then have six: "length code = 6" by (simp add: code_def)
  have v: "verification_code s = take 3 code @ '' '' @ drop 3 code"
    by (simp add: verification_code_def code_def Let_def)
  with six show "length (verification_code s) = 7" by simp
  have "take 3 (verification_code s) @ drop 4 (verification_code s) = code" using six by (simp add: v)
  then show "digits_val (take 3 (verification_code s) @ drop 4 (verification_code s)) = unat (pr_code s)"
    by (simp add: code_def digits_val_zeros show_word_def digits_val_show_nat)
qed

lemma complete_code:
  assumes "handshake_complete c hs theirs offered = Inr s"
  shows "unat (pr_code s) < 1000000"
proof -
  obtain sas where "pr_code s = be_word sas mod 1000000"
    using assms by (auto simp: handshake_complete_def Let_def split: if_splits option.splits)
  then show ?thesis by (simp add: unat_mod)
qed

lemma offering_fields:
  assumes "offering c secret salt addresses = (hs, shown)"
  shows "hs_public hs = cy_public c secret" "hs_secret hs = secret" "hs_nonce hs = salt"
    "of_public_key shown = cy_public c secret" "of_nonce shown = salt" "of_addresses shown = addresses"
  using assms by (auto simp: offering_def Let_def)

lemma complete_agrees:
  assumes "dh_laws c" "offering c secret salt addresses = (hs, shown)"
  shows "handshake_complete c hs (cy_public c secret') True
    = handshake_complete c (accepting c secret' shown) (of_public_key shown) False"
proof -
  let ?peer = "accepting c secret' shown"
  note o = offering_fields [OF assms(2)]
  have "transcript hs (cy_public c secret') True = transcript ?peer (of_public_key shown) False"
    by (simp add: transcript_def accepting_def o)
  moreover have "cy_dh c (hs_secret hs) (cy_public c secret') = cy_dh c (hs_secret ?peer) (of_public_key shown)"
    using assms(1) by (simp add: dh_laws_def accepting_def o)
  ultimately show ?thesis by (simp only: handshake_complete_def)
qed

text \<open>
  C32: the two devices of a pairing compute one session or fail alike: the device that shows the
  offer, given the key of the device that read it, derives exactly what that device derives, the
  same key and the same six digits. What the digits are derived from is equal on both sides only
  if each side was given the very key the other holds and both belong to this offer, so a device
  in between cannot leave the two derivations with one input. Two texts of six digits that look
  alike are the same code.
\<close>

theorem handshake_agreement:
  assumes "dh_laws c"
  shows "case offering c secret salt addresses of (hs, shown) \<Rightarrow>
      (let peer = accepting c secret' shown
       in handshake_complete c hs (hs_public peer) True = handshake_complete c peer (of_public_key shown) False
          \<and> (length theirs = 32 \<and> length theirs' = 32 \<longrightarrow>
               transcript hs theirs True = transcript (accepting c secret' other) theirs' False \<longrightarrow>
               theirs = cy_public c secret' \<and> theirs' = of_public_key shown \<and> of_nonce other = salt)
          \<and> (handshake_complete c hs theirs True = Inr s \<longrightarrow>
             handshake_complete c (accepting c secret' other) theirs' False = Inr s' \<longrightarrow>
               length (verification_code s) = 7
               \<and> (verification_code s = verification_code s' \<longleftrightarrow> pr_code s = pr_code s')))"
proof -
  obtain hs shown where shown: "offering c secret salt addresses = (hs, shown)" by (rule prod.exhaust)
  note o = offering_fields [OF shown]
  have same: "handshake_complete c hs (hs_public (accepting c secret' shown)) True
      = handshake_complete c (accepting c secret' shown) (of_public_key shown) False"
    using complete_agrees [OF assms shown] by (simp add: accepting_def)
  have "theirs = cy_public c secret' \<and> theirs' = of_public_key shown \<and> of_nonce other = salt"
    if "length theirs = 32" "length theirs' = 32"
      "transcript hs theirs True = transcript (accepting c secret' other) theirs' False"
    using that assms transcript_eq [of hs "accepting c secret' other" theirs theirs']
    by (simp add: accepting_def o dh_laws_def)
  moreover have "length (verification_code s) = 7
      \<and> (verification_code s = verification_code s' \<longleftrightarrow> pr_code s = pr_code s')"
    if "handshake_complete c hs theirs True = Inr s"
      "handshake_complete c (accepting c secret' other) theirs' False = Inr s'"
    using code_text [OF complete_code [OF that(1)]] code_text [OF complete_code [OF that(2)]]
    by (metis verification_code_def word_unat_eq_iff)
  ultimately show ?thesis unfolding shown prod.case Let_def using same by blast
qed

section \<open>The sealed transfer arrives\<close>

definition aead_laws :: "crypto \<Rightarrow> bool" where
  "aead_laws c \<longleftrightarrow>
     (\<forall>k n p s. length n = 12 \<longrightarrow> cy_encrypt c k n p = Some s \<longrightarrow>
        length s = length p + 16 \<and> cy_decrypt c k n s = Some p)"

lemma be_bytes_length [simp]: "length (be_bytes k n) = k"
  by (induction k arbitrary: n) simp_all

lemma be_nat_bytes: "be_nat (be_bytes k n) = n mod 256 ^ k"
proof (induction k arbitrary: n)
  case (Suc k)
  have "be_nat (be_bytes (Suc k) n) = (n div 256 mod 256 ^ k) * 256 + n mod 256"
    using Suc.IH by (simp add: be_nat_def)
  also have "\<dots> = n mod (256 * 256 ^ k)" by (simp add: mod_mult2_eq)
  finally show ?case by simp
qed (simp add: be_nat_def)

text \<open>
  What one device seals and writes, the other reads and opens, byte for byte, and nothing after
  it; a transfer that stops anywhere before its end is refused. The sender refuses exactly what
  would exceed the receiver's limit: every transfer it writes is one the receiver takes.
\<close>

lemma transfer_arrives:
  assumes "aead_laws c" "length salt = 12" "cy_encrypt c (pr_key session) salt plaintext = Some sealed"
  shows "if length plaintext + 28 > max_transfer
    then write_payload c salt fate session plaintext = Inl too_large
    else \<exists>wire. write_payload c salt Delivered session plaintext = Inr wire
      \<and> accept_transfer c stop session (wire @ after) = Inr plaintext
      \<and> (\<forall>n < length wire. accept_transfer c (Stopped e) session (take n wire)
            = Inl (Transfer (''the transfer stopped early: '' @ e)))"
proof (cases "length plaintext + 28 > max_transfer")
  case True
  then show ?thesis by (simp add: write_payload_def max_transfer_def)
next
  case False
  from assms have sealed: "length sealed = length plaintext + 16" "cy_decrypt c (pr_key session) salt sealed = Some plaintext"
    by (auto simp: aead_laws_def)
  let ?body = "salt @ sealed" and ?n = "length plaintext + 28"
  let ?wire = "be_bytes 4 ?n @ ?body"
  from False have n: "?n \<le> max_transfer" "?n < 2 ^ 32" by (simp_all add: max_transfer_def)
  then have size: "be_nat (be_bytes 4 ?n) = ?n" by (simp add: be_nat_bytes)
  have body: "length ?body = ?n" using assms(2) sealed(1) by simp
  have w: "write_payload c salt Delivered session plaintext = Inr ?wire"
    using n assms(2,3) sealed(1)
    by (simp add: write_payload_def max_transfer_def seal_def add.commute)
  have "open_sealed c session ?body = Inr plaintext"
    using assms(2) sealed(2) by (simp add: open_sealed_def)
  then have "accept_transfer c stop session (?wire @ after) = Inr plaintext"
    using n(1) size body by (simp add: accept_transfer_def read_exact_def)
  moreover have "accept_transfer c (Stopped e) session (take k ?wire)
      = Inl (Transfer (''the transfer stopped early: '' @ e))" if "k < length ?wire" for k
  proof (cases "k < 4")
    case True
    then show ?thesis by (simp add: accept_transfer_def read_exact_def)
  next
    case False
    define part where "part = take (k - 4) ?body"
    have "take k ?wire = be_bytes 4 ?n @ part" using False by (simp add: part_def)
    moreover have "length part < ?n" using that body False by (simp add: part_def)
    ultimately show ?thesis using n(1) size by (simp add: accept_transfer_def read_exact_def)
  qed
  ultimately show ?thesis using False w by auto
qed

section \<open>Which address is used\<close>

text \<open>Whether dialling the address at a position completes: within its time, with the shown key.\<close>

definition dial_at :: "crypto \<Rightarrow> offer \<Rightarrow> (nat \<Rightarrow> string \<times> dial_end option) \<Rightarrow> nat \<Rightarrow> pair_session option" where
  "dial_at c shown net i =
     (case net i of
        (secret, Some (AnswerKey theirs)) \<Rightarrow>
          if theirs = of_public_key shown
          then (case handshake_complete c (accepting c secret shown) (of_public_key shown) False of
                  Inr session \<Rightarrow> Some session | Inl _ \<Rightarrow> None)
          else None
      | _ \<Rightarrow> None)"

lemma dial_one_at:
  "net i = (secret, Some answer) \<Longrightarrow>
     dial_at c shown net i = (case dial_one c shown secret answer of Inr s \<Rightarrow> Some s | Inl _ \<Rightarrow> None)"
  by (cases answer) (simp_all add: dial_at_def dial_one_def)

lemma dial_loop_spec:
  "case find (\<lambda>j. dial_at c shown net j \<noteq> None) [i..<i + length as] of
     Some j \<Rightarrow> dial_loop c shown net i as final = Inr (j, the (dial_at c shown net j))
   | None \<Rightarrow> \<exists>m. dial_loop c shown net i as final = Inl (Transfer m)"
proof (induction as arbitrary: i final)
  case (Cons a as)
  have upt: "[i..<i + length (a # as)] = i # [Suc i..<Suc i + length as]" by (simp add: upt_rec)
  show ?case
  proof (cases "dial_at c shown net i")
    case None
    then have "\<exists>final'. dial_loop c shown net i (a # as) final = dial_loop c shown net (Suc i) as final'"
      using dial_one_at [of net i _ _ c shown]
      by (cases "net i") (auto split: option.split sum.splits)
    then obtain final' where "dial_loop c shown net i (a # as) final = dial_loop c shown net (Suc i) as final'" ..
    with None Cons.IH [of "Suc i" final'] show ?thesis by (simp only: upt find.simps) simp
  next
    case (Some s)
    then have "\<exists>answer. snd (net i) = Some answer" by (auto simp: dial_at_def split: prod.splits option.splits)
    then obtain secret answer where n: "net i = (secret, Some answer)" by (cases "net i") auto
    with Some have "dial_one c shown secret answer = Inr s"
      using dial_one_at [of net i secret answer c shown, OF n] by (simp split: sum.splits)
    with n Some show ?thesis by (simp only: upt find.simps) simp
  qed
qed simp

text \<open>
  A scanned offer reaches the device that showed it or nobody: dialling uses the first of the
  offered addresses that answers in time with exactly the key in the code and completes with it,
  whatever the addresses before it do; when there is none it fails, and never gives a session with
  another key.
\<close>

theorem dial_first_match:
  "case find (\<lambda>i. dial_at c shown net i \<noteq> None) [0..<length (of_addresses shown)] of
     Some i \<Rightarrow> send_transfer c net shown = Inr (i, the (dial_at c shown net i))
   | None \<Rightarrow> \<exists>m. send_transfer c net shown = Inl (Transfer m)"
  using dial_loop_spec [of c shown net 0 "of_addresses shown" None] unfolding send_transfer_def add_0 .

section \<open>A concrete set of libraries\<close>

text \<open>
  Base64 as specified, and stand-ins for the cryptography that have the laws asked of it (and no
  secrecy, which no property here is about).
\<close>

fun sextets :: "nat list \<Rightarrow> nat list" where
  "sextets [] = []"
| "sextets [a] = [a div 4, a mod 4 * 16]"
| "sextets [a, b] = [a div 4, a mod 4 * 16 + b div 16, b mod 16 * 4]"
| "sextets (a # b # d # rest) =
     a div 4 # (a mod 4 * 16 + b div 16) # (b mod 16 * 4 + d div 64) # d mod 64 # sextets rest"

fun octets :: "nat list \<Rightarrow> nat list" where
  "octets (p # q # r # s # rest) =
     (p * 4 + q div 16) # (q mod 16 * 16 + r div 4) # (r mod 4 * 64 + s) # octets rest"
| "octets [p, q, r] = [p * 4 + q div 16, q mod 16 * 16 + r div 4]"
| "octets [p, q] = [p * 4 + q div 16]"
| "octets _ = []"

definition b64_alphabet :: string where
  "b64_alphabet = ''ABCDEFGHIJKLMNOPQRSTUVWXYZabcdefghijklmnopqrstuvwxyz0123456789-_''"

definition b64_value :: "char \<Rightarrow> nat option" where
  "b64_value ch = find (\<lambda>i. b64_alphabet ! i = ch) [0..<64]"

lemma small_div:
  fixes b :: nat
  assumes "b < 256"
  shows "b div 16 div 16 = 0" "b div 16 mod 16 = b div 16" "b div 64 div 4 = 0" "b div 64 mod 4 = b div 64"
proof -
  have "b div 16 < 16" "b div 64 < 4" using assms by (simp_all add: less_mult_imp_div_less)
  then show "b div 16 div 16 = 0" "b div 16 mod 16 = b div 16" "b div 64 div 4 = 0" "b div 64 mod 4 = b div 64"
    by simp_all
qed

lemma octets_sextets: "\<forall>x \<in> set xs. x < 256 \<Longrightarrow> octets (sextets xs) = xs"
  by (induction xs rule: sextets.induct) (simp_all add: small_div)

lemma six_bits:
  fixes a b d :: nat
  shows "a < 256 \<Longrightarrow> a div 4 < 64" "b < 256 \<Longrightarrow> a mod 4 * 16 + b div 16 < 64"
    "a mod 4 * 16 < 64" "d < 256 \<Longrightarrow> b mod 16 * 4 + d div 64 < 64" "b mod 16 * 4 < 64"
proof -
  have m: "a mod 4 \<le> 3" "b mod 16 \<le> 15" using mod_less_divisor [of 4 a] mod_less_divisor [of 16 b] by linarith+
  show "a < 256 \<Longrightarrow> a div 4 < 64" by (simp add: less_mult_imp_div_less)
  show "b < 256 \<Longrightarrow> a mod 4 * 16 + b div 16 < 64" "d < 256 \<Longrightarrow> b mod 16 * 4 + d div 64 < 64"
    using m less_mult_imp_div_less [of b 16 16] less_mult_imp_div_less [of d 4 64] by linarith+
  show "a mod 4 * 16 < 64" "b mod 16 * 4 < 64" using m by linarith+
qed

lemma sextets_small: "\<forall>x \<in> set xs. x < 256 \<Longrightarrow> \<forall>x \<in> set (sextets xs). x < 64"
  by (induction xs rule: sextets.induct) (simp_all add: six_bits)

lemma sextets_length: "length (sextets xs) \<le> 2 * length xs"
  by (induction xs rule: sextets.induct) simp_all

definition demo_crypto :: crypto where
  "demo_crypto =
     (let public = (\<lambda>s. take 32 (s @ replicate 32 (CHR ''.'')));
          tag = (\<lambda>k. take 16 (k @ replicate 16 (CHR ''.'')))
      in \<lparr>cy_b64_encode = (\<lambda>bs. map (\<lambda>d. b64_alphabet ! d) (sextets (map of_char bs))),
          cy_b64_decode = (\<lambda>s. map_option (\<lambda>ds. map char_of (octets ds)) (those (map b64_value s))),
          cy_public = public,
          cy_dh = (\<lambda>s theirs. map2 (\<lambda>a b. char_of ((byte a + byte b) mod 256)) (public s) theirs),
          cy_contributory = (\<lambda>shared. shared \<noteq> []),
          cy_hkdf = (\<lambda>salt ikm info n.
             Some (map (\<lambda>i. char_of ((sum_list (map of_char (salt @ ikm @ info)) + i) mod 256)) [0..<n])),
          cy_encrypt = (\<lambda>k n p. if length n = 12 then Some (p @ tag k) else None),
          cy_decrypt = (\<lambda>k n s. if suffix (tag k) s then Some (take (length s - 16) s) else None)\<rparr>)"

lemma b64_alphabet_ok:
  "list_all (\<lambda>d. b64_value (b64_alphabet ! d) = Some d
     \<and> plain_char (b64_alphabet ! d) \<and> b64_alphabet ! d \<noteq> CHR '':'') [0..<64]"
  by code_simp

lemma b64_char: "d < 64 \<Longrightarrow> b64_value (b64_alphabet ! d) = Some d
     \<and> plain_char (b64_alphabet ! d) \<and> b64_alphabet ! d \<noteq> CHR '':''"
  using b64_alphabet_ok by (simp add: list_all_iff)

lemma demo_base64: "base64_laws demo_crypto"
proof -
  have "cy_b64_decode demo_crypto (cy_b64_encode demo_crypto bs) = Some bs
      \<and> length (cy_b64_encode demo_crypto bs) \<le> 2 * length bs
      \<and> list_all (\<lambda>ch. plain_char ch \<and> ch \<noteq> CHR '':'') (cy_b64_encode demo_crypto bs)" for bs
  proof -
    let ?ds = "sextets (map of_char bs)"
    have small: "\<forall>d \<in> set ?ds. d < 64" by (rule sextets_small) simp
    have "those (map b64_value (map (\<lambda>d. b64_alphabet ! d) ds)) = Some ds" if "\<forall>d \<in> set ds. d < 64" for ds
      using that by (induction ds) (simp_all add: b64_char)
    from this [OF small] have "cy_b64_decode demo_crypto (cy_b64_encode demo_crypto bs) = Some bs"
      by (simp add: demo_crypto_def Let_def octets_sextets o_def)
    with small show ?thesis
      using sextets_length [of "map of_char bs"]
      by (simp add: demo_crypto_def Let_def list_all_iff b64_char)
  qed
  then show ?thesis by (simp add: base64_laws_def)
qed

lemma demo_dh: "dh_laws demo_crypto"
proof -
  have "map2 (\<lambda>a b. char_of ((byte a + byte b) mod 256)) xs ys =
      map2 (\<lambda>a b. char_of ((byte a + byte b) mod 256)) ys xs" for xs ys :: string
    by (induction xs ys rule: list_induct2') (simp_all add: add.commute)
  then show ?thesis by (simp add: dh_laws_def demo_crypto_def Let_def min_def)
qed

lemma demo_aead: "aead_laws demo_crypto"
  by (simp add: aead_laws_def demo_crypto_def Let_def suffix_def min_def)

definition demo_offer :: offer where
  "demo_offer = \<lparr>of_public_key = replicate 32 (CHR ''k''), of_nonce = replicate 16 (CHR ''n''),
     of_addresses = [''192.168.1.10:8765'', ''[fd00::9]:8765'']\<rparr>"

lemma demo_offer_ok: "offer_ok demo_offer"
  by code_simp

lemma offer_round_trip_witness:
  "offer_decode demo_crypto (offer_encode demo_crypto demo_offer) = Inr demo_offer
   \<and> offer_decode demo_crypto (''SG'' @ ''9'' @ '':'' @ ''AAAA:BBBB:1.2.3.4:9'') = Inl (Version ''9'')"
proof -
  have "''9'' \<noteq> ''1'' \<and> list_all (\<lambda>ch. plain_char ch \<and> ch \<noteq> CHR '':'') ''9'' \<and> list_all plain_char ''AAAA:BBBB:1.2.3.4:9''
         \<and> length ''9'' + length ''AAAA:BBBB:1.2.3.4:9'' \<le> 4093" by code_simp
  with offer_round_trip [OF demo_base64 demo_offer_ok, of "''9''" "''AAAA:BBBB:1.2.3.4:9''"]
  show ?thesis by blast
qed

lemma handshake_agreement_witness:
  "case offering demo_crypto ''a'' (replicate 16 (CHR ''n'')) [''h:1''] of (hs, shown) \<Rightarrow>
     handshake_complete demo_crypto hs (hs_public (accepting demo_crypto ''b'' shown)) True
     = handshake_complete demo_crypto (accepting demo_crypto ''b'' shown) (of_public_key shown) False"
  using handshake_agreement [OF demo_dh, where secret = "''a''" and salt = "replicate 16 (CHR ''n'')"
      and addresses = "[''h:1'']" and secret' = "''b''"]
  unfolding split_beta Let_def by blast

end
