(* ===== verification/Pair_Api.thy ===== *)
theory Pair_Api
  imports Merge Pairing
begin

text \<open>
  Pairing as an interface sees it (\<open>crates/sg-ffi/src/sync.rs\<close>): a receiver that shows an offer,
  waits and then takes the transfer, a sender that reads an offer and then sends, each usable once,
  with the code the user compares in between. The JSON library is a pair of functions.
\<close>

section \<open>The records that cross\<close>

record sync_host_view =
  hv_address :: string
  hv_port :: u16
  hv_user :: string
  hv_auth_kind :: string
  hv_key_path :: "string option"
  hv_host_key_policy :: string
  hv_refresh_ms :: u64

definition host_of_view :: "sync_host_view \<Rightarrow> sync_host" where
  "host_of_view v =
     \<lparr>sh_address = hv_address v, sh_port = hv_port v, sh_user = hv_user v,
      sh_auth_kind = hv_auth_kind v, sh_key_path = hv_key_path v,
      sh_host_key_policy = hv_host_key_policy v, sh_refresh_ms = hv_refresh_ms v\<rparr>"

definition view_of_host :: "sync_host \<Rightarrow> sync_host_view" where
  "view_of_host h =
     \<lparr>hv_address = sh_address h, hv_port = sh_port h, hv_user = sh_user h,
      hv_auth_kind = sh_auth_kind h, hv_key_path = sh_key_path h,
      hv_host_key_policy = sh_host_key_policy h, hv_refresh_ms = sh_refresh_ms h\<rparr>"

record pin_conflict_view =
  cv_host :: string
  cv_existing :: string
  cv_incoming :: string

record sync_bundle =
  sb_hosts :: "sync_host_view list"
  sb_known_hosts :: "string list"

definition payload_of_bundle :: "sync_bundle \<Rightarrow> payload" where
  "payload_of_bundle b =
     \<lparr>py_hosts = map host_of_view (sb_hosts b), py_known_hosts = sb_known_hosts b\<rparr>"

definition bundle_of_payload :: "payload \<Rightarrow> sync_bundle" where
  "bundle_of_payload p =
     \<lparr>sb_hosts = map view_of_host (py_hosts p), sb_known_hosts = py_known_hosts p\<rparr>"

record merge_result =
  mg_hosts :: "sync_host_view list"
  mg_known_hosts :: "string list"
  mg_added_hosts :: u32
  mg_kept_hosts :: u32
  mg_added_pins :: u32
  mg_conflicts :: "pin_conflict_view list"

definition merge_bundle :: "sync_bundle \<Rightarrow> sync_bundle \<Rightarrow> merge_result" where
  "merge_bundle existing incoming =
     (let m = merge (payload_of_bundle existing) (payload_of_bundle incoming)
      in \<lparr>mg_hosts = map view_of_host (mr_hosts m), mg_known_hosts = mr_known_hosts m,
          mg_added_hosts = word_of_nat (mr_added_hosts m),
          mg_kept_hosts = word_of_nat (mr_kept_hosts m),
          mg_added_pins = word_of_nat (mr_added_pins m),
          mg_conflicts = map (\<lambda>k. \<lparr>cv_host = pc_host k, cv_existing = pc_existing k,
                                    cv_incoming = pc_incoming k\<rparr>) (mr_conflicts m)\<rparr>)"

datatype pairing_error = PairingError string

fun pairing_error_of :: "sync_error \<Rightarrow> pairing_error" where
  "pairing_error_of e = PairingError (sync_error_display e)"

section \<open>The payload as text\<close>

record json =
  js_encode :: "payload \<Rightarrow> string + string"
  js_decode :: "string \<Rightarrow> string + payload"

definition to_json :: "json \<Rightarrow> payload \<Rightarrow> sync_error + string" where
  "to_json j self = (case js_encode j self of Inl e \<Rightarrow> Inl (Malformed e) | Inr s \<Rightarrow> Inr s)"

definition from_json :: "json \<Rightarrow> string \<Rightarrow> sync_error + payload" where
  "from_json j bytes = (case js_decode j bytes of Inl e \<Rightarrow> Inl (Malformed e) | Inr p \<Rightarrow> Inr p)"

definition json_laws :: "json \<Rightarrow> bool" where
  "json_laws j \<longleftrightarrow> (\<forall>p s. js_encode j p = Inr s \<longrightarrow> js_decode j s = Inr p)"

section \<open>The receiving device\<close>

record sync_receiver =
  rc_offer_text :: string
  rc_listener :: "listener option"
  rc_connected :: "pair_session option"

definition start_receiving ::
  "crypto \<Rightarrow> bind_end \<Rightarrow> u16 option \<Rightarrow> string \<Rightarrow> string \<Rightarrow> nat \<Rightarrow> string list
     \<Rightarrow> pairing_error + sync_receiver" where
  "start_receiving c v4 v6 secret salt now hosts =
     (case listener_bind c v4 v6 secret salt now hosts of
        Inl e \<Rightarrow> Inl (pairing_error_of e)
      | Inr l \<Rightarrow> Inr \<lparr>rc_offer_text = offer_encode c (ln_offer l), rc_listener = Some l,
                      rc_connected = None\<rparr>)"

definition await_connection ::
  "crypto \<Rightarrow> nat \<Rightarrow> accept_end option \<Rightarrow> sync_receiver \<Rightarrow> sync_receiver \<times> (pairing_error + string)" where
  "await_connection c now exchange self0 =
     (case rc_listener self0 of
        None \<Rightarrow> (self0, Inl (PairingError ''this pairing has already been used''))
      | Some l \<Rightarrow>
          (let self = self0\<lparr>rc_listener := None\<rparr>
           in case listener_accept c now exchange l of
                Inl e \<Rightarrow> (self, Inl (pairing_error_of e))
              | Inr session \<Rightarrow>
                  (self\<lparr>rc_connected := Some session\<rparr>, Inr (verification_code session))))"

definition receive ::
  "crypto \<Rightarrow> json \<Rightarrow> read_stop \<Rightarrow> string \<Rightarrow> sync_receiver \<Rightarrow> sync_receiver \<times> (pairing_error + sync_bundle)" where
  "receive c j stop incoming self0 =
     (case rc_connected self0 of
        None \<Rightarrow> (self0, Inl (PairingError ''no device is connected''))
      | Some session \<Rightarrow>
          (self0\<lparr>rc_connected := None\<rparr>,
           case accept_transfer c stop session incoming of
             Inl e \<Rightarrow> Inl (pairing_error_of e)
           | Inr bytes \<Rightarrow>
               (case from_json j bytes of
                  Inl e \<Rightarrow> Inl (pairing_error_of e)
                | Inr p \<Rightarrow> Inr (bundle_of_payload p))))"

section \<open>The sending device\<close>

record sync_sender =
  sd_connected :: "pair_session option"
  sd_code :: string

definition scan_pairing_code ::
  "crypto \<Rightarrow> (nat \<Rightarrow> string \<times> dial_end option) \<Rightarrow> string \<Rightarrow> pairing_error + sync_sender" where
  "scan_pairing_code c net code =
     (case offer_decode c code of
        Inl e \<Rightarrow> Inl (pairing_error_of e)
      | Inr shown \<Rightarrow>
          (case send_transfer c net shown of
             Inl e \<Rightarrow> Inl (pairing_error_of e)
           | Inr (_, session) \<Rightarrow>
               Inr \<lparr>sd_connected = Some session, sd_code = verification_code session\<rparr>))"

text \<open>What goes out on success is part of the result.\<close>

definition send_bundle ::
  "crypto \<Rightarrow> json \<Rightarrow> string \<Rightarrow> wire_end \<Rightarrow> sync_bundle \<Rightarrow> sync_sender
     \<Rightarrow> sync_sender \<times> (pairing_error + string)" where
  "send_bundle c j salt fate bundle self0 =
     (case sd_connected self0 of
        None \<Rightarrow> (self0, Inl (PairingError ''this transfer has already been sent''))
      | Some session \<Rightarrow>
          (self0\<lparr>sd_connected := None\<rparr>,
           case to_json j (payload_of_bundle bundle) of
             Inl e \<Rightarrow> Inl (pairing_error_of e)
           | Inr bytes \<Rightarrow>
               (case write_payload c salt fate session bytes of
                  Inl e \<Rightarrow> Inl (pairing_error_of e)
                | Inr wire \<Rightarrow> Inr wire)))"

section \<open>A whole pairing\<close>

lemma view_of_host_of_view: "view_of_host (host_of_view v) = v"
  by (simp add: view_of_host_def host_of_view_def)

lemma bundle_of_payload_of_bundle: "bundle_of_payload (payload_of_bundle b) = b"
  by (simp add: bundle_of_payload_def payload_of_bundle_def o_def view_of_host_of_view)

lemma used_up:
  "rc_listener r = None \<Longrightarrow> await_connection c now exchange r = (r, Inl (PairingError ''this pairing has already been used''))"
  "rc_connected r = None \<Longrightarrow> receive c j stop incoming r = (r, Inl (PairingError ''no device is connected''))"
  "sd_connected s = None \<Longrightarrow> send_bundle c j salt fate b s = (s, Inl (PairingError ''this transfer has already been sent''))"
  by (simp_all add: await_connection_def receive_def send_bundle_def)

lemma started_receiver:
  assumes "start_receiving c v4 v6 secret salt now hosts = Inr r"
  obtains hs shown addresses where "offering c secret salt addresses = (hs, shown)"
    "rc_listener r = Some \<lparr>ln_handshake = hs, ln_offer = shown, ln_expires_at = now + 120000\<rparr>"
    "rc_offer_text r = offer_encode c shown" "rc_connected r = None"
  using assms
  by (auto simp: start_receiving_def listener_bind_def Let_def offer_ttl_secs_def
      split: sum.splits if_splits bind_end.splits prod.splits)

lemma send_transfer_session:
  assumes "send_transfer c net shown = Inr (i, session)"
  shows "handshake_complete c (accepting c (fst (net i)) shown) (of_public_key shown) False = Inr session"
proof -
  from assms dial_loop_spec [of c shown net 0 "of_addresses shown" None]
  obtain j where "find (\<lambda>j. dial_at c shown net j \<noteq> None) [0..<length (of_addresses shown)] = Some j"
    "send_transfer c net shown = Inr (j, the (dial_at c shown net j))"
    unfolding send_transfer_def add_0 by (auto split: option.splits)
  with assms have "dial_at c shown net i = Some session"
    by (auto simp: find_Some_iff)
  then show ?thesis
    by (auto simp: dial_at_def split: prod.splits option.splits dial_end.splits if_splits sum.splits)
qed

text \<open>
  C30: pairing works: when one device starts receiving, the other reads the code it shows and reaches
  it before the offer expires, both show the same six digits; the bundle then sent is the bundle
  received, servers and trusted keys unchanged; and each of the four steps works once, so nothing
  more can be sent or received over that pairing.
\<close>

theorem pairing_moves_bundle:
  assumes laws: "base64_laws c" "dh_laws c" "aead_laws c" "json_laws j"
    and start: "start_receiving c v4 v6 secret salt now hosts = Inr r"
    and shown: "rc_listener r = Some l" "offer_ok (ln_offer l)" "now' < now + 120000"
    and dial: "send_transfer c net (ln_offer l) = Inr (i, session)"
    and send: "to_json j (payload_of_bundle bundle) = Inr bytes"
      "cy_encrypt c (pr_key session) salt' bytes = Some sealed" "length salt' = 12"
      "length bytes + 28 \<le> max_transfer"
  shows "\<exists>sd wire. scan_pairing_code c net (rc_offer_text r) = Inr sd
      \<and> send_bundle c j salt' Delivered bundle sd = (sd\<lparr>sd_connected := None\<rparr>, Inr wire)
      \<and> snd (send_bundle c j salt' Delivered bundle (sd\<lparr>sd_connected := None\<rparr>))
          = Inl (PairingError ''this transfer has already been sent'')
      \<and> (case await_connection c now' (Some (PeerKey (cy_public c (fst (net i))))) r of (r1, code) \<Rightarrow>
           code = Inr (sd_code sd)
           \<and> snd (await_connection c now'' exchange r1) = Inl (PairingError ''this pairing has already been used'')
           \<and> (case receive c j stop (wire @ after) r1 of (r2, got) \<Rightarrow>
                got = Inr bundle
                \<and> snd (receive c j stop' incoming r2) = Inl (PairingError ''no device is connected'')))"
proof -
  from start obtain hs o' addresses where r: "offering c secret salt addresses = (hs, o')"
    "rc_listener r = Some \<lparr>ln_handshake = hs, ln_offer = o', ln_expires_at = now + 120000\<rparr>"
    "rc_offer_text r = offer_encode c o'" "rc_connected r = None"
    by (rule started_receiver)
  then have l: "ln_offer l = o'" using shown(1) by simp
  let ?sd = "\<lparr>sd_connected = Some session, sd_code = verification_code session\<rparr>"
  have scan: "scan_pairing_code c net (rc_offer_text r) = Inr ?sd"
    using offer_decode_encode [OF laws(1) shown(2)] dial
    by (simp add: scan_pairing_code_def r(3) l)
  have "handshake_complete c hs (cy_public c (fst (net i))) True = Inr session"
    using send_transfer_session [OF dial] complete_agrees [OF laws(2) r(1)] by (simp add: l)
  then have await: "await_connection c now' (Some (PeerKey (cy_public c (fst (net i))))) r
      = (r\<lparr>rc_listener := None, rc_connected := Some session\<rparr>, Inr (verification_code session))"
    using shown(3) by (simp add: await_connection_def r(2) listener_accept_def Let_def)
  obtain wire where wire: "write_payload c salt' Delivered session bytes = Inr wire"
    "accept_transfer c stop session (wire @ after) = Inr bytes"
    using transfer_arrives [OF laws(3) send(3,2), of Delivered stop after] send(4) by auto
  have "from_json j bytes = Inr (payload_of_bundle bundle)"
    using send(1) laws(4) by (auto simp: to_json_def from_json_def json_laws_def split: sum.splits)
  then have "receive c j stop (wire @ after) (r\<lparr>rc_listener := None, rc_connected := Some session\<rparr>)
      = (r\<lparr>rc_listener := None, rc_connected := None\<rparr>, Inr bundle)"
    using wire(2) by (simp add: receive_def bundle_of_payload_of_bundle)
  moreover have "send_bundle c j salt' Delivered bundle ?sd = (?sd\<lparr>sd_connected := None\<rparr>, Inr wire)"
    using send(1) wire(1) by (simp add: send_bundle_def)
  ultimately show ?thesis
    by (intro exI [of _ ?sd] exI [of _ wire])
      (simp add: scan await used_up)
qed

text \<open>A payload as text, for the witness: one text, that of one bundle.\<close>

definition demo_bundle :: sync_bundle where
  "demo_bundle = \<lparr>sb_hosts = [\<lparr>hv_address = ''10.0.0.9'', hv_port = 2222, hv_user = ''root'',
      hv_auth_kind = ''password'', hv_key_path = None, hv_host_key_policy = ''accept_new'',
      hv_refresh_ms = 1000\<rparr>], sb_known_hosts = [''[10.0.0.9]:2222 ssh-ed25519 AAAA'']\<rparr>"

definition demo_json :: json where
  "demo_json = \<lparr>js_encode = (\<lambda>p. if p = payload_of_bundle demo_bundle then Inr ''one host'' else Inl ''unsupported''),
     js_decode = (\<lambda>s. if s = ''one host'' then Inr (payload_of_bundle demo_bundle) else Inl ''not json'')\<rparr>"


lemma demo_json_laws: "json_laws demo_json"
  by (simp add: json_laws_def demo_json_def)

text \<open>A device that listens, and another that reaches it.\<close>

lemma demo_pairing:
  obtains l session where
    "listener_bind demo_crypto (BoundAt 22) None ''a'' (replicate 16 (CHR ''n'')) 5 [''10.0.0.1''] = Inr l"
    "offer_ok (ln_offer l)"
    "send_transfer demo_crypto (\<lambda>i. (''b'', Some (AnswerKey (of_public_key (ln_offer l))))) (ln_offer l)
       = Inr (0, session)"
proof -
  let ?c = demo_crypto and ?salt = "replicate 16 (CHR ''n'')" and ?addr = "[''10.0.0.1:22'']"
  obtain hs shown where o: "offering ?c ''a'' ?salt ?addr = (hs, shown)" by (rule prod.exhaust)
  note of = offering_fields [OF o]
  let ?l = "\<lparr>ln_handshake = hs, ln_offer = shown, ln_expires_at = 5 + 120000\<rparr>"
  have "List.map_filter (advertise 22 None) [''10.0.0.1''] = ?addr"
    by code_simp
  then have bind: "listener_bind ?c (BoundAt 22) None ''a'' ?salt 5 [''10.0.0.1''] = Inr ?l"
    using o by (simp add: listener_bind_def Let_def offer_ttl_secs_def)
  have "length (of_public_key shown) = 32" using demo_dh of(4) by (simp add: dh_laws_def)
  moreover have "list_all address_ok ?addr \<and> length ?addr \<le> 32 \<and> length (join '','' ?addr) \<le> 3994"
    by code_simp
  ultimately have ok: "offer_ok (ln_offer ?l)" using of by (simp add: offer_ok_def)
  obtain session where "handshake_complete ?c (accepting ?c ''b'' shown) (of_public_key shown) False = Inr session"
  proof -
    have "cy_dh ?c (hs_secret (accepting ?c ''b'' shown)) (of_public_key shown) \<noteq> []"
      unfolding of(4) accepting_def
      by (simp add: demo_crypto_def Let_def zip_eq_Nil_iff)
    then show ?thesis using that
      by (simp add: handshake_complete_def Let_def) (simp add: demo_crypto_def Let_def)
  qed
  then have "send_transfer ?c (\<lambda>i. (''b'', Some (AnswerKey (of_public_key (ln_offer ?l))))) (ln_offer ?l)
      = Inr (0, session)"
    by (simp add: send_transfer_def of dial_one_def)
  with bind ok show ?thesis by (rule that)
qed

lemma demo_payload:
  "to_json demo_json (payload_of_bundle demo_bundle) = Inr ''one host''"
  "\<exists>sealed. cy_encrypt demo_crypto key ''twelve bytes'' ''one host'' = Some sealed"
  by (simp_all add: to_json_def demo_json_def demo_crypto_def Let_def)

lemma pairing_moves_bundle_witness:
  "\<exists>r l net sd session sealed wire.
     start_receiving demo_crypto (BoundAt 22) None ''a'' (replicate 16 (CHR ''n'')) 5 [''10.0.0.1''] = Inr r
     \<and> rc_listener r = Some l \<and> send_transfer demo_crypto net (ln_offer l) = Inr (0, session)
     \<and> scan_pairing_code demo_crypto net (rc_offer_text r) = Inr sd
     \<and> send_bundle demo_crypto demo_json ''twelve bytes'' Delivered demo_bundle sd = (sd\<lparr>sd_connected := None\<rparr>, Inr wire)"
proof -
  let ?c = demo_crypto
  obtain l session where l:
    "listener_bind ?c (BoundAt 22) None ''a'' (replicate 16 (CHR ''n'')) 5 [''10.0.0.1''] = Inr l"
    "offer_ok (ln_offer l)"
    "send_transfer ?c (\<lambda>i. (''b'', Some (AnswerKey (of_public_key (ln_offer l))))) (ln_offer l) = Inr (0, session)"
    by (rule demo_pairing)
  let ?net = "\<lambda>i::nat. (''b'', Some (AnswerKey (of_public_key (ln_offer l))))"
  let ?r = "\<lparr>rc_offer_text = offer_encode ?c (ln_offer l), rc_listener = Some l, rc_connected = None\<rparr>"
  have start: "start_receiving ?c (BoundAt 22) None ''a'' (replicate 16 (CHR ''n'')) 5 [''10.0.0.1''] = Inr ?r"
    using l(1) by (simp add: start_receiving_def)
  obtain sealed where "cy_encrypt ?c (pr_key session) ''twelve bytes'' ''one host'' = Some sealed"
    using demo_payload(2) ..
  from pairing_moves_bundle [OF demo_base64 demo_dh demo_aead demo_json_laws start _ l(2) _ l(3) demo_payload(1) this, where now' = 6]
  have "\<exists>sd wire. scan_pairing_code ?c ?net (rc_offer_text ?r) = Inr sd
      \<and> send_bundle ?c demo_json ''twelve bytes'' Delivered demo_bundle sd = (sd\<lparr>sd_connected := None\<rparr>, Inr wire)"
    by (simp add: max_transfer_def) blast
  with start l(3) show ?thesis by (metis sync_receiver.select_convs(2))
qed

end
