(* ===== verification/Cabi.thy ===== *)
theory Cabi
  imports Poll Pair_Api
begin

text \<open>
  The C interface (\<open>crates/sg-ffi/src/cabi.rs\<close>): what each exported function does with a handle that
  may be null and texts that may be null or not UTF-8, over the targets and a registry of pairing
  sessions. A reply is its envelope, an error body or a value; the JSON library reads and writes the
  texts around it, and unwinding, allocation and freeing are not part of the model.
\<close>

section \<open>Errors and arguments\<close>

record err_body =
  eb_kind :: string
  eb_detail :: string
  eb_recoverable :: bool

definition err_internal :: "string \<Rightarrow> err_body" where
  "err_internal detail = \<lparr>eb_kind = ''internal'', eb_detail = detail, eb_recoverable = False\<rparr>"

definition err_pairing :: "string \<Rightarrow> err_body" where
  "err_pairing detail = \<lparr>eb_kind = ''pairing'', eb_detail = detail, eb_recoverable = False\<rparr>"

fun err_of_sg :: "sg_error \<Rightarrow> err_body" where
  "err_of_sg (UnknownTarget tid) =
     \<lparr>eb_kind = ''unknownTarget'', eb_detail = ''no such target: '' @ tid, eb_recoverable = False\<rparr>"
| "err_of_sg (Connection detail recoverable) =
     \<lparr>eb_kind = ''connection'', eb_detail = detail, eb_recoverable = recoverable\<rparr>"
| "err_of_sg (Internal detail) = err_internal detail"

fun err_of_pairing :: "pairing_error \<Rightarrow> err_body" where
  "err_of_pairing (PairingError detail) = err_pairing detail"

definition map_err :: "('e \<Rightarrow> 'f) \<Rightarrow> 'e + 'a \<Rightarrow> 'f + 'a" where
  "map_err f r = map_sum f id r"

text \<open>\<open>and_then\<close>, the \<open>?\<close> of the code.\<close>

definition and_then :: "'e + 'a \<Rightarrow> ('a \<Rightarrow> 'e + 'b) \<Rightarrow> 'e + 'b" where
  "and_then r f = (case r of Inl e \<Rightarrow> Inl e | Inr x \<Rightarrow> f x)"

datatype c_text = NullText | NotUtf8 | Utf8 string

fun borrow_text :: "c_text \<Rightarrow> string \<Rightarrow> err_body + string" where
  "borrow_text NullText what = Inl (err_internal (what @ '' was null''))"
| "borrow_text NotUtf8 what = Inl (err_internal (what @ '' was not valid UTF-8''))"
| "borrow_text (Utf8 s) what = Inr s"

definition read_json :: "(string \<Rightarrow> string + 'a) \<Rightarrow> string \<Rightarrow> string \<Rightarrow> err_body + 'a" where
  "read_json parse json what =
     map_err (\<lambda>e. err_internal (''could not read '' @ what @ '': '' @ e)) (parse json)"

section \<open>The handle\<close>

record pairings =
  rg_next_id :: u64
  rg_receivers :: "(u64, sync_receiver) hmap"
  rg_senders :: "(u64, sync_sender) hmap"

record core_handle =
  ch_core :: server_glass
  ch_pairing :: pairings

definition sg_core_new :: "core_handle option" where
  "sg_core_new = Some \<lparr>ch_core = server_new,
     ch_pairing = \<lparr>rg_next_id = 0, rg_receivers = [], rg_senders = []\<rparr>\<rparr>"

definition sg_core_free :: "core_handle option \<Rightarrow> core_handle option" where
  "sg_core_free core = None"

text \<open>A call on a handle: null is refused, anything else is the call's own doing.\<close>

definition with_core ::
  "(core_handle \<Rightarrow> core_handle \<times> (err_body + 'a)) \<Rightarrow> core_handle option
     \<Rightarrow> core_handle option \<times> (err_body + 'a)" where
  "with_core call core =
     (case core of
        None \<Rightarrow> (None, Inl (err_internal ''the core handle was null''))
      | Some h \<Rightarrow> (case call h of (h', r) \<Rightarrow> (Some h', r)))"

text \<open>A call with an argument to read first: an argument that cannot be read changes nothing.\<close>

definition with_arg ::
  "err_body + 'b \<Rightarrow> ('b \<Rightarrow> core_handle \<Rightarrow> core_handle \<times> (err_body + 'a)) \<Rightarrow> core_handle
     \<Rightarrow> core_handle \<times> (err_body + 'a)" where
  "with_arg arg call h = (case arg of Inl e \<Rightarrow> (h, Inl e) | Inr x \<Rightarrow> call x h)"

definition on_core ::
  "(server_glass \<Rightarrow> server_glass \<times> (sg_error + 'a)) \<Rightarrow> core_handle \<Rightarrow> core_handle \<times> (err_body + 'a)" where
  "on_core call h = (case call (ch_core h) of (sg, r) \<Rightarrow> (h\<lparr>ch_core := sg\<rparr>, map_err err_of_sg r))"

section \<open>Targets\<close>

definition sg_add_target ::
  "(string \<Rightarrow> string + target_config) \<Rightarrow> c_text \<Rightarrow> core_handle option \<Rightarrow> core_handle option \<times> (err_body + string)" where
  "sg_add_target parse config_json =
     with_core (with_arg (and_then (borrow_text config_json ''the config'')
                            (\<lambda>json. read_json parse json ''the config''))
       (\<lambda>config. on_core (\<lambda>sg. case add_target config sg of (sg', tid) \<Rightarrow> (sg', Inr tid))))"

definition sg_start :: "c_text \<Rightarrow> core_handle option \<Rightarrow> core_handle option \<times> (err_body + unit)" where
  "sg_start target_id =
     with_core (with_arg (borrow_text target_id ''the target id'') (\<lambda>tid. on_core (start_target tid)))"

definition sg_stop :: "c_text \<Rightarrow> core_handle option \<Rightarrow> core_handle option \<times> (err_body + unit)" where
  "sg_stop target_id =
     with_core (with_arg (borrow_text target_id ''the target id'') (\<lambda>tid. on_core (stop_target tid)))"

definition sg_remove_target :: "c_text \<Rightarrow> core_handle option \<Rightarrow> core_handle option \<times> (err_body + unit)" where
  "sg_remove_target target_id =
     with_core (with_arg (borrow_text target_id ''the target id'') (\<lambda>tid. on_core (remove_target tid)))"

definition sg_snapshot :: "c_text \<Rightarrow> core_handle option \<Rightarrow> core_handle option \<times> (err_body + target_snapshot)" where
  "sg_snapshot target_id =
     with_core (with_arg (borrow_text target_id ''the target id'')
       (\<lambda>tid. on_core (\<lambda>sg. (sg, target_snapshot_of tid sg))))"

definition sg_target_ids :: "core_handle option \<Rightarrow> core_handle option \<times> (err_body + string list)" where
  "sg_target_ids = with_core (on_core (\<lambda>sg. (sg, Inr (target_ids sg))))"

text \<open>
  A command on a target: answered or refused at once, or queued; then the caller is told by how its
  wait ends.
\<close>

definition run_command ::
  "string \<Rightarrow> string \<Rightarrow> wait_end \<Rightarrow> server_glass \<Rightarrow> server_glass \<times> (sg_error + command_result)" where
  "run_command tid command finish sg =
     (case find_target tid sg of
        Inl e \<Rightarrow> (sg, Inl e)
      | Inr sy \<Rightarrow>
          (case submit command sy of
             (_, Inl e) \<Rightarrow> (sg, Inl e)
           | (_, Inr (Inl result)) \<Rightarrow> (sg, Inr result)
           | (sy', Inr (Inr _)) \<Rightarrow>
               (sg\<lparr>sg_targets := hm_insert tid sy' (sg_targets sg)\<rparr>, command_outcome finish)))"

definition sg_run_command ::
  "c_text \<Rightarrow> c_text \<Rightarrow> wait_end \<Rightarrow> core_handle option \<Rightarrow> core_handle option \<times> (err_body + command_result)" where
  "sg_run_command target_id command finish =
     with_core (with_arg (borrow_text target_id ''the target id'')
       (\<lambda>tid. with_arg (borrow_text command ''the command'') (\<lambda>cmd. on_core (run_command tid cmd finish))))"

section \<open>Formatting\<close>

definition sg_format ::
  "f64 \<Rightarrow> c_text \<Rightarrow> bool \<Rightarrow> core_handle option \<Rightarrow> core_handle option \<times> (err_body + string)" where
  "sg_format v unit_text binary_scaled =
     with_core (with_arg (borrow_text unit_text ''the unit suffix'')
       (\<lambda>suf. on_core (\<lambda>sg. (sg, Inr (format_value v suf binary_scaled)))))"

definition sg_format_duration :: "f64 \<Rightarrow> core_handle option \<Rightarrow> core_handle option \<times> (err_body + string)" where
  "sg_format_duration seconds = with_core (on_core (\<lambda>sg. (sg, Inr (format_uptime seconds))))"

definition sg_sparkline_points ::
  "(string \<Rightarrow> string + f64 list) \<Rightarrow> c_text \<Rightarrow> core_handle option \<Rightarrow> core_handle option \<times> (err_body + f64 list)" where
  "sg_sparkline_points parse history_json =
     with_core (with_arg (and_then (borrow_text history_json ''the history'')
                            (\<lambda>json. read_json parse json ''the history''))
       (\<lambda>history. on_core (\<lambda>sg. (sg, Inr (sparkline_points history)))))"

section \<open>Pairing sessions\<close>

record receiver_started =
  rs_id :: u64
  rs_pairing_code :: string

record sender_connected =
  ss_id :: u64
  ss_verification_code :: string

definition gone :: err_body where
  "gone = err_pairing ''that pairing is no longer active''"

definition set_pairing :: "pairings \<Rightarrow> core_handle \<Rightarrow> core_handle" where
  "set_pairing rg h = h\<lparr>ch_pairing := rg\<rparr>"

definition take_receiver :: "core_handle \<Rightarrow> u64 \<Rightarrow> err_body + sync_receiver" where
  "take_receiver h n =
     (case hm_get (rg_receivers (ch_pairing h)) n of Some r \<Rightarrow> Inr r | None \<Rightarrow> Inl gone)"

definition take_sender :: "core_handle \<Rightarrow> u64 \<Rightarrow> err_body + sync_sender" where
  "take_sender h n =
     (case hm_get (rg_senders (ch_pairing h)) n of Some s \<Rightarrow> Inr s | None \<Rightarrow> Inl gone)"

text \<open>Receivers and senders are shared objects: what a call does to one stays in the registry.\<close>

definition put_receiver :: "u64 \<Rightarrow> sync_receiver \<Rightarrow> pairings \<Rightarrow> pairings" where
  "put_receiver n r rg = rg\<lparr>rg_receivers := hm_insert n r (rg_receivers rg)\<rparr>"

definition put_sender :: "u64 \<Rightarrow> sync_sender \<Rightarrow> pairings \<Rightarrow> pairings" where
  "put_sender n s rg = rg\<lparr>rg_senders := hm_insert n s (rg_senders rg)\<rparr>"

definition next_pairing :: "pairings \<Rightarrow> pairings" where
  "next_pairing rg = rg\<lparr>rg_next_id := rg_next_id rg + 1\<rparr>"

definition do_start_receiving ::
  "pairing_error + sync_receiver \<Rightarrow> core_handle \<Rightarrow> core_handle \<times> (err_body + receiver_started)" where
  "do_start_receiving started h =
     (case started of
        Inl e \<Rightarrow> (h, Inl (err_of_pairing e))
      | Inr r \<Rightarrow>
          (let rg = next_pairing (ch_pairing h); n = rg_next_id rg
           in (set_pairing (put_receiver n r rg) h, Inr \<lparr>rs_id = n, rs_pairing_code = rc_offer_text r\<rparr>)))"

definition do_await ::
  "(sync_receiver \<Rightarrow> sync_receiver \<times> (pairing_error + string)) \<Rightarrow> u64 \<Rightarrow> core_handle
     \<Rightarrow> core_handle \<times> (err_body + string)" where
  "do_await wait n h =
     (case take_receiver h n of
        Inl e \<Rightarrow> (h, Inl e)
      | Inr r \<Rightarrow>
          (case wait r of (r', res) \<Rightarrow>
             (set_pairing (put_receiver n r' (ch_pairing h)) h, map_err err_of_pairing res)))"

definition do_receive ::
  "(sync_receiver \<Rightarrow> sync_receiver \<times> (pairing_error + sync_bundle)) \<Rightarrow> u64 \<Rightarrow> core_handle
     \<Rightarrow> core_handle \<times> (err_body + sync_bundle)" where
  "do_receive take_it n h =
     (case take_receiver h n of
        Inl e \<Rightarrow> (h, Inl e)
      | Inr r \<Rightarrow>
          (case take_it r of (r', res) \<Rightarrow>
             (set_pairing (put_receiver n r' (ch_pairing h)) h, map_err err_of_pairing res)))"

definition do_scan ::
  "pairing_error + sync_sender \<Rightarrow> core_handle \<Rightarrow> core_handle \<times> (err_body + sender_connected)" where
  "do_scan scanned h =
     (case scanned of
        Inl e \<Rightarrow> (h, Inl (err_of_pairing e))
      | Inr s \<Rightarrow>
          (let rg = next_pairing (ch_pairing h); n = rg_next_id rg
           in (set_pairing (put_sender n s rg) h, Inr \<lparr>ss_id = n, ss_verification_code = sd_code s\<rparr>)))"

definition do_send ::
  "(sync_sender \<Rightarrow> sync_sender \<times> (pairing_error + string)) \<Rightarrow> u64 \<Rightarrow> core_handle
     \<Rightarrow> core_handle \<times> (err_body + string)" where
  "do_send put_it n h =
     (case take_sender h n of
        Inl e \<Rightarrow> (h, Inl e)
      | Inr s \<Rightarrow>
          (case put_it s of (s', res) \<Rightarrow>
             (set_pairing (put_sender n s' (ch_pairing h)) h, map_err err_of_pairing res)))"

definition do_forget :: "u64 \<Rightarrow> core_handle \<Rightarrow> core_handle" where
  "do_forget n h =
     (let rg = ch_pairing h
      in set_pairing (rg\<lparr>rg_receivers := hm_remove n (rg_receivers rg),
                         rg_senders := hm_remove n (rg_senders rg)\<rparr>) h)"

text \<open>The exported functions; the ends of the sockets, the clock and random bytes are arguments.\<close>

definition sg_start_receiving ::
  "crypto \<Rightarrow> (string \<Rightarrow> string + string list) \<Rightarrow> bind_end \<Rightarrow> u16 option \<Rightarrow> string \<Rightarrow> string \<Rightarrow> nat \<Rightarrow> c_text
     \<Rightarrow> core_handle option \<Rightarrow> core_handle option \<times> (err_body + receiver_started)" where
  "sg_start_receiving c parse v4 v6 secret salt now hosts_json =
     with_core (with_arg (and_then (borrow_text hosts_json ''the address list'')
                            (\<lambda>json. read_json parse json ''the address list''))
       (\<lambda>hosts. do_start_receiving (start_receiving c v4 v6 secret salt now hosts)))"

definition sg_receiver_await_connection ::
  "crypto \<Rightarrow> nat \<Rightarrow> accept_end option \<Rightarrow> u64 \<Rightarrow> core_handle option \<Rightarrow> core_handle option \<times> (err_body + string)" where
  "sg_receiver_await_connection c now exchange n = with_core (do_await (await_connection c now exchange) n)"

definition sg_receiver_receive ::
  "crypto \<Rightarrow> json \<Rightarrow> read_stop \<Rightarrow> string \<Rightarrow> u64 \<Rightarrow> core_handle option
     \<Rightarrow> core_handle option \<times> (err_body + sync_bundle)" where
  "sg_receiver_receive c j stop incoming n = with_core (do_receive (receive c j stop incoming) n)"

definition sg_scan_pairing_code ::
  "crypto \<Rightarrow> (nat \<Rightarrow> string \<times> dial_end option) \<Rightarrow> c_text \<Rightarrow> core_handle option
     \<Rightarrow> core_handle option \<times> (err_body + sender_connected)" where
  "sg_scan_pairing_code c net code =
     with_core (with_arg (borrow_text code ''the pairing code'')
       (\<lambda>s. do_scan (scan_pairing_code c net s)))"

definition sg_sender_send ::
  "crypto \<Rightarrow> json \<Rightarrow> (string \<Rightarrow> string + sync_bundle) \<Rightarrow> string \<Rightarrow> wire_end \<Rightarrow> u64 \<Rightarrow> c_text \<Rightarrow> core_handle option
     \<Rightarrow> core_handle option \<times> (err_body + string)" where
  "sg_sender_send c j parse salt fate n bundle_json =
     with_core (with_arg (and_then (borrow_text bundle_json ''the bundle'')
                            (\<lambda>json. read_json parse json ''the bundle''))
       (\<lambda>bundle. do_send (send_bundle c j salt fate bundle) n))"

definition sg_pairing_forget :: "u64 \<Rightarrow> core_handle option \<Rightarrow> core_handle option" where
  "sg_pairing_forget n core = map_option (do_forget n) core"

definition sg_merge_bundle ::
  "(string \<Rightarrow> string + sync_bundle) \<Rightarrow> c_text \<Rightarrow> c_text \<Rightarrow> core_handle option
     \<Rightarrow> core_handle option \<times> (err_body + merge_result)" where
  "sg_merge_bundle parse existing_json incoming_json =
     with_core (with_arg (and_then (borrow_text existing_json ''the existing bundle'')
                            (\<lambda>json. read_json parse json ''the existing bundle''))
       (\<lambda>existing. with_arg (and_then (borrow_text incoming_json ''the incoming bundle'')
                            (\<lambda>json. read_json parse json ''the incoming bundle''))
         (\<lambda>incoming. on_core (\<lambda>sg. (sg, Inr (merge_bundle existing incoming))))))"

section \<open>A pairing session moves one bundle, after its code\<close>

text \<open>
  What a call on a pairing session gives away: the code to compare, or the bundle (received, or put
  on the wire).
\<close>

datatype pairing_event = CodeShown u64 | Moved u64

fun about :: "u64 \<Rightarrow> pairing_event \<Rightarrow> bool" where
  "about n (CodeShown m) \<longleftrightarrow> m = n"
| "about n (Moved m) \<longleftrightarrow> m = n"

datatype pairing_call =
  StartReceiving bind_end "u16 option" string string nat c_text
  | Await nat "accept_end option" u64
  | Receive read_stop string u64
  | Scan "nat \<Rightarrow> string \<times> dial_end option" c_text
  | Send string wire_end u64 c_text
  | Forget u64

text \<open>The libraries the calls need.\<close>

record libraries =
  lb_crypto :: crypto
  lb_json :: json
  lb_hosts :: "string \<Rightarrow> string + string list"
  lb_bundle :: "string \<Rightarrow> string + sync_bundle"

definition told :: "('a \<Rightarrow> pairing_event list) \<Rightarrow> core_handle option \<times> (err_body + 'a)
    \<Rightarrow> core_handle option \<times> pairing_event list" where
  "told f res = (fst res, case snd res of Inl _ \<Rightarrow> [] | Inr x \<Rightarrow> f x)"

fun call_step :: "libraries \<Rightarrow> pairing_call \<Rightarrow> core_handle option \<Rightarrow> core_handle option \<times> pairing_event list" where
  "call_step lb (StartReceiving v4 v6 secret salt now hosts) core =
     told (\<lambda>_. []) (sg_start_receiving (lb_crypto lb) (lb_hosts lb) v4 v6 secret salt now hosts core)"
| "call_step lb (Await now exchange n) core =
     told (\<lambda>_. [CodeShown n]) (sg_receiver_await_connection (lb_crypto lb) now exchange n core)"
| "call_step lb (Receive stop incoming n) core =
     told (\<lambda>_. [Moved n]) (sg_receiver_receive (lb_crypto lb) (lb_json lb) stop incoming n core)"
| "call_step lb (Scan net code) core =
     told (\<lambda>started. [CodeShown (ss_id started)]) (sg_scan_pairing_code (lb_crypto lb) net code core)"
| "call_step lb (Send salt fate n bundle) core =
     told (\<lambda>_. [Moved n]) (sg_sender_send (lb_crypto lb) (lb_json lb) (lb_bundle lb) salt fate n bundle core)"
| "call_step lb (Forget n) core = (sg_pairing_forget n core, [])"

fun pairing_events :: "libraries \<Rightarrow> pairing_call list \<Rightarrow> core_handle option \<Rightarrow> pairing_event list" where
  "pairing_events lb [] core = []"
| "pairing_events lb (k # ks) core =
     (case call_step lb k core of (core', es) \<Rightarrow> es @ pairing_events lb ks core')"

text \<open>What the registry holds of a session, by what the session has given away so far.\<close>

definition session_ok :: "pairings \<Rightarrow> u64 \<Rightarrow> pairing_event list \<Rightarrow> bool" where
  "session_ok rg n es \<longleftrightarrow> prefix es [CodeShown n, Moved n]
     \<and> (\<forall>r. hm_get (rg_receivers rg) n = Some r \<longrightarrow> hm_get (rg_senders rg) n = None
          \<and> (rc_listener r \<noteq> None \<longrightarrow> es = [] \<and> rc_connected r = None)
          \<and> (rc_connected r \<noteq> None \<longrightarrow> es = [CodeShown n]))
     \<and> (\<forall>s. hm_get (rg_senders rg) n = Some s \<longrightarrow> sd_connected s \<noteq> None \<longrightarrow> es = [CodeShown n])
     \<and> (n = 0 \<or> rg_next_id rg < n \<longrightarrow>
          es = [] \<and> hm_get (rg_receivers rg) n = None \<and> hm_get (rg_senders rg) n = None)"

definition registry_ok :: "pairings \<Rightarrow> pairing_event list \<Rightarrow> bool" where
  "registry_ok rg es \<longleftrightarrow> (\<forall>n. session_ok rg n (filter (about n) es))"

lemma registry_update:
  assumes "registry_ok rg es" "\<And>m. m \<noteq> n \<Longrightarrow> hm_get (rg_receivers rg') m = hm_get (rg_receivers rg) m
      \<and> hm_get (rg_senders rg') m = hm_get (rg_senders rg) m"
    and "rg_next_id rg \<le> rg_next_id rg'" "\<forall>e \<in> set new. about n e"
    and "session_ok rg' n (filter (about n) es @ new)"
  shows "registry_ok rg' (es @ new)"
  unfolding registry_ok_def
proof
  fix m
  show "session_ok rg' m (filter (about m) (es @ new))"
  proof (cases "m = n")
    case True
    with assms(4,5) show ?thesis by (simp add: filter_id_conv)
  next
    case False
    have "about m e \<longleftrightarrow> False" if "about n e" for e using that False by (cases e) auto
    with assms(4) have "filter (about m) new = []" by (auto simp: filter_empty_conv)
    with assms(1) [unfolded registry_ok_def, rule_format, of m] assms(2) [OF False] assms(3) show ?thesis
      unfolding session_ok_def by (auto dest: order.strict_trans1)
  qed
qed

lemma fresh_session:
  assumes "registry_ok rg es" "rg_next_id rg \<noteq> - 1"
  shows "filter (about (rg_next_id rg + 1)) es = []"
    and "hm_get (rg_receivers rg) (rg_next_id rg + 1) = None" "hm_get (rg_senders rg) (rg_next_id rg + 1) = None"
    and "rg_next_id rg < rg_next_id rg + 1" "rg_next_id rg + 1 \<noteq> 0"
proof -
  have "1 + rg_next_id rg \<noteq> 0"
    using assms(2) by (simp add: add.commute [of 1] eq_neg_iff_add_eq_0)
  then show n: "rg_next_id rg < rg_next_id rg + 1" "rg_next_id rg + 1 \<noteq> 0"
    using word_less_nat_alt unatSuc [of "rg_next_id rg"] by (simp_all add: add.commute [of 1] word_less_nat_alt)
  with assms(1) [unfolded registry_ok_def, rule_format, of "rg_next_id rg + 1"]
  show "filter (about (rg_next_id rg + 1)) es = []"
    "hm_get (rg_receivers rg) (rg_next_id rg + 1) = None" "hm_get (rg_senders rg) (rg_next_id rg + 1) = None"
    unfolding session_ok_def by blast+
qed

lemma set_pairing_get [simp]: "ch_pairing (set_pairing rg h) = rg"
  by (simp add: set_pairing_def)

lemmas registry_simps = put_receiver_def put_sender_def next_pairing_def map_simps

lemma start_keeps:
  assumes "registry_ok (ch_pairing h) es" "rg_next_id (ch_pairing h) \<noteq> - 1"
    and "\<And>r. started = Inr r \<Longrightarrow> rc_listener r \<noteq> None \<and> rc_connected r = None"
  shows "registry_ok (ch_pairing (fst (do_start_receiving started h))) es"
proof (cases started)
  case (Inr r)
  note new = fresh_session [OF assms(1,2)]
  have "registry_ok (put_receiver (rg_next_id (ch_pairing h) + 1) r (next_pairing (ch_pairing h))) (es @ [])"
    by (rule registry_update [OF assms(1), where n = "rg_next_id (ch_pairing h) + 1"])
      (use new assms(3) [OF Inr] in \<open>auto simp: registry_simps session_ok_def\<close>)
  with Inr show ?thesis by (simp add: do_start_receiving_def Let_def next_pairing_def)
qed (use assms(1) in \<open>simp add: do_start_receiving_def\<close>)

lemma scan_keeps:
  assumes "registry_ok (ch_pairing h) es" "rg_next_id (ch_pairing h) \<noteq> - 1"
  shows "case do_scan scanned h of (h', res) \<Rightarrow>
    registry_ok (ch_pairing h') (es @ (case res of Inl _ \<Rightarrow> [] | Inr started \<Rightarrow> [CodeShown (ss_id started)]))"
proof (cases scanned)
  case (Inr s)
  let ?n = "rg_next_id (ch_pairing h) + 1"
  note new = fresh_session [OF assms(1,2)]
  have "registry_ok (put_sender ?n s (next_pairing (ch_pairing h))) (es @ [CodeShown ?n])"
    by (rule registry_update [OF assms(1), where n = ?n])
      (use new in \<open>auto simp: registry_simps session_ok_def\<close>)
  with Inr show ?thesis by (simp add: do_scan_def Let_def next_pairing_def)
qed (use assms(1) in \<open>simp add: do_scan_def\<close>)

lemma await_keeps:
  assumes "registry_ok (ch_pairing h) es"
  shows "case do_await (await_connection c now exchange) n h of (h', res) \<Rightarrow>
    registry_ok (ch_pairing h') (es @ (case res of Inl _ \<Rightarrow> [] | Inr _ \<Rightarrow> [CodeShown n]))
    \<and> rg_next_id (ch_pairing h') = rg_next_id (ch_pairing h)"
proof (cases "hm_get (rg_receivers (ch_pairing h)) n")
  case None
  with assms show ?thesis by (simp add: do_await_def take_receiver_def)
next
  case (Some r)
  have now: "session_ok (ch_pairing h) n (filter (about n) es)" using assms by (simp add: registry_ok_def)
  obtain r' res where w: "await_connection c now exchange r = (r', res)" by (rule prod.exhaust)
  let ?new = "case res of Inl _ \<Rightarrow> [] | Inr _ \<Rightarrow> [CodeShown n]"
  have "session_ok (put_receiver n r' (ch_pairing h)) n (filter (about n) es @ ?new)"
    using now w Some
    by (auto simp: session_ok_def registry_simps await_connection_def Let_def split: option.splits sum.splits)
  then have "registry_ok (put_receiver n r' (ch_pairing h)) (es @ ?new)"
    by (intro registry_update [OF assms, where n = n]) (auto simp: registry_simps split: sum.split)
  with Some w show ?thesis
    by (auto simp: do_await_def take_receiver_def map_err_def registry_simps split: sum.splits)
qed

lemma receive_keeps:
  assumes "registry_ok (ch_pairing h) es"
  shows "case do_receive (receive c j stop incoming) n h of (h', res) \<Rightarrow>
    registry_ok (ch_pairing h') (es @ (case res of Inl _ \<Rightarrow> [] | Inr _ \<Rightarrow> [Moved n]))
    \<and> rg_next_id (ch_pairing h') = rg_next_id (ch_pairing h)"
proof (cases "hm_get (rg_receivers (ch_pairing h)) n")
  case None
  with assms show ?thesis by (simp add: do_receive_def take_receiver_def)
next
  case (Some r)
  have now: "session_ok (ch_pairing h) n (filter (about n) es)" using assms by (simp add: registry_ok_def)
  obtain r' res where w: "receive c j stop incoming r = (r', res)" by (rule prod.exhaust)
  let ?new = "case res of Inl _ \<Rightarrow> [] | Inr _ \<Rightarrow> [Moved n]"
  have "session_ok (put_receiver n r' (ch_pairing h)) n (filter (about n) es @ ?new)"
    using now w Some
    by (auto simp: session_ok_def registry_simps receive_def split: option.splits sum.splits)
  then have "registry_ok (put_receiver n r' (ch_pairing h)) (es @ ?new)"
    by (intro registry_update [OF assms, where n = n]) (auto simp: registry_simps split: sum.split)
  with Some w show ?thesis
    by (auto simp: do_receive_def take_receiver_def map_err_def registry_simps split: sum.splits)
qed

lemma send_keeps:
  assumes "registry_ok (ch_pairing h) es"
  shows "case do_send (send_bundle c j salt fate b) n h of (h', res) \<Rightarrow>
    registry_ok (ch_pairing h') (es @ (case res of Inl _ \<Rightarrow> [] | Inr _ \<Rightarrow> [Moved n]))
    \<and> rg_next_id (ch_pairing h') = rg_next_id (ch_pairing h)"
proof (cases "hm_get (rg_senders (ch_pairing h)) n")
  case None
  with assms show ?thesis by (simp add: do_send_def take_sender_def)
next
  case (Some s)
  have now: "session_ok (ch_pairing h) n (filter (about n) es)" using assms by (simp add: registry_ok_def)
  obtain s' res where w: "send_bundle c j salt fate b s = (s', res)" by (rule prod.exhaust)
  let ?new = "case res of Inl _ \<Rightarrow> [] | Inr _ \<Rightarrow> [Moved n]"
  have "session_ok (put_sender n s' (ch_pairing h)) n (filter (about n) es @ ?new)"
    using now w Some
    by (auto simp: session_ok_def registry_simps send_bundle_def split: option.splits sum.splits)
  then have "registry_ok (put_sender n s' (ch_pairing h)) (es @ ?new)"
    by (intro registry_update [OF assms, where n = n]) (auto simp: registry_simps split: sum.split)
  with Some w show ?thesis
    by (auto simp: do_send_def take_sender_def map_err_def registry_simps split: sum.splits)
qed

lemma forget_keeps:
  assumes "registry_ok (ch_pairing h) es"
  shows "registry_ok (ch_pairing (do_forget n h)) es"
proof -
  have "registry_ok (ch_pairing (do_forget n h)) (es @ [])"
    by (rule registry_update [OF assms, where n = n])
      (use assms in \<open>auto simp: do_forget_def Let_def map_simps session_ok_def registry_ok_def\<close>)
  then show ?thesis by simp
qed

lemma started_fresh: "start_receiving c v4 v6 secret salt now hosts = Inr r \<Longrightarrow> rc_listener r \<noteq> None \<and> rc_connected r = None"
  by (erule started_receiver) simp

lemma next_id_steps:
  "rg_next_id (ch_pairing (fst (do_start_receiving started h))) \<in> {rg_next_id (ch_pairing h), rg_next_id (ch_pairing h) + 1}"
  "rg_next_id (ch_pairing (fst (do_scan scanned h))) \<in> {rg_next_id (ch_pairing h), rg_next_id (ch_pairing h) + 1}"
  "rg_next_id (ch_pairing (do_forget n h)) = rg_next_id (ch_pairing h)"
  by (auto simp: do_start_receiving_def do_scan_def do_forget_def Let_def registry_simps split: sum.split)

lemma call_keeps:
  assumes "registry_ok (ch_pairing h) es" "rg_next_id (ch_pairing h) \<noteq> - 1" "call_step lb k (Some h) = (core', new)"
  shows "\<exists>h'. core' = Some h' \<and> registry_ok (ch_pairing h') (es @ new)
    \<and> rg_next_id (ch_pairing h') \<in> {rg_next_id (ch_pairing h), rg_next_id (ch_pairing h) + 1}"
proof (cases k)
  case (StartReceiving v4 v6 secret salt now hosts)
  let ?arg = "and_then (borrow_text hosts ''the address list'') (\<lambda>json. read_json (lb_hosts lb) json ''the address list'')"
  show ?thesis
  proof (cases ?arg)
    case (Inl e)
    with assms StartReceiving show ?thesis
      by (auto simp: told_def sg_start_receiving_def with_core_def with_arg_def)
  next
    case (Inr hs)
    let ?started = "start_receiving (lb_crypto lb) v4 v6 secret salt now hs"
    have "registry_ok (ch_pairing (fst (do_start_receiving ?started h))) es"
      by (rule start_keeps [OF assms(1,2)]) (rule started_fresh)
    with Inr assms(3) StartReceiving next_id_steps(1) [of ?started h] show ?thesis
      by (auto simp: told_def sg_start_receiving_def with_core_def with_arg_def split: prod.splits sum.splits)
  qed
next
  case (Await now exchange n)
  with assms(3) await_keeps [OF assms(1), where c = "lb_crypto lb" and now = now and exchange = exchange and n = n] show ?thesis
    by (auto simp: told_def sg_receiver_await_connection_def with_core_def split: prod.splits)
next
  case (Receive stop incoming n)
  with assms(3) receive_keeps [OF assms(1), where c = "lb_crypto lb" and j = "lb_json lb" and stop = stop and incoming = incoming and n = n] show ?thesis
    by (auto simp: told_def sg_receiver_receive_def with_core_def split: prod.splits)
next
  case (Scan net code)
  show ?thesis
  proof (cases "borrow_text code ''the pairing code''")
    case (Inl e)
    with assms Scan show ?thesis
      by (auto simp: told_def sg_scan_pairing_code_def with_core_def with_arg_def)
  next
    case (Inr s)
    with assms(3) Scan scan_keeps [OF assms(1,2), of "scan_pairing_code (lb_crypto lb) net s"]
      next_id_steps(2) [of "scan_pairing_code (lb_crypto lb) net s" h]
    show ?thesis
      by (auto simp: told_def sg_scan_pairing_code_def with_core_def with_arg_def split: prod.splits)
  qed
next
  case (Send salt fate n sent)
  let ?arg = "and_then (borrow_text sent ''the bundle'') (\<lambda>json. read_json (lb_bundle lb) json ''the bundle'')"
  show ?thesis
  proof (cases ?arg)
    case (Inl e)
    with assms Send show ?thesis
      by (auto simp: told_def sg_sender_send_def with_core_def with_arg_def)
  next
    case (Inr b)
    with assms(3) Send send_keeps [OF assms(1), where c = "lb_crypto lb" and j = "lb_json lb" and salt = salt and fate = fate and b = b and n = n] show ?thesis
      by (auto simp: told_def sg_sender_send_def with_core_def with_arg_def split: prod.splits)
  qed
next
  case (Forget n)
  with assms forget_keeps [OF assms(1), of n] show ?thesis
    by (auto simp: sg_pairing_forget_def next_id_steps(3))
qed

lemma events_ok:
  assumes "registry_ok (ch_pairing h) es" "unat (rg_next_id (ch_pairing h)) + length ks < 2 ^ 64"
  shows "\<exists>rg. registry_ok rg (es @ pairing_events lb ks (Some h))"
  using assms
proof (induction ks arbitrary: h es)
  case (Cons k ks)
  let ?id = "rg_next_id (ch_pairing h)"
  obtain core' new where step: "call_step lb k (Some h) = (core', new)" by (rule prod.exhaust)
  have id: "?id \<noteq> - 1"
  proof
    assume "?id = - 1"
    then have "unat ?id = 2 ^ 64 - 1" by (simp add: unsigned_minus_1_eq_mask mask_eq_exp_minus_1)
    with Cons.prems(2) show False by simp
  qed
  from call_keeps [OF Cons.prems(1) id step] obtain h' where h': "core' = Some h'"
    "registry_ok (ch_pairing h') (es @ new)" "rg_next_id (ch_pairing h') \<in> {?id, ?id + 1}" by blast
  from h'(3) have "unat (rg_next_id (ch_pairing h')) \<le> Suc (unat ?id)"
    using fresh_session(5) [OF Cons.prems(1) id] unatSuc [of ?id] by (auto simp: add.commute [of _ 1])
  with Cons.prems(2) have "unat (rg_next_id (ch_pairing h')) + length ks < 2 ^ 64" by simp
  from Cons.IH [OF h'(2) this] show ?case by (simp add: step h'(1))
qed auto

text \<open>
  C31: what was compared is all that moves: whatever sequence of pairing calls an interface makes, in
  whatever order and with whatever arguments, a pairing session first gives its six digits, at most
  once, and only after that moves a bundle, at most once; its number never stands for another
  session, also not after it was forgotten. (Fewer than 2^64 calls; the number is a 64-bit counter.)
\<close>

theorem pairing_one_shot:
  assumes "length calls < 2 ^ 64"
  shows "prefix (filter (about n) (pairing_events lb calls sg_core_new)) [CodeShown n, Moved n]"
proof -
  obtain h where h: "sg_core_new = Some h" "rg_next_id (ch_pairing h) = 0" "registry_ok (ch_pairing h) []"
    by (simp add: sg_core_new_def registry_ok_def session_ok_def)
  from events_ok [OF h(3), of calls lb] assms h(2) obtain rg where
    "registry_ok rg (pairing_events lb calls (Some h))" by auto
  then show ?thesis by (simp add: h(1) registry_ok_def session_ok_def)
qed

definition demo_libraries :: libraries where
  "demo_libraries = \<lparr>lb_crypto = demo_crypto, lb_json = demo_json, lb_hosts = (\<lambda>_. Inr [''h'']),
     lb_bundle = (\<lambda>_. Inr demo_bundle)\<rparr>"

lemma pairing_one_shot_witness:
  "prefix (filter (about 1) (pairing_events demo_libraries
     [StartReceiving (BoundAt 22) None ''a'' (replicate 16 (CHR ''n'')) 5 (Utf8 ''[h]''),
      Await 6 (Some (PeerKey (replicate 32 (CHR ''b'')))) 1, Receive (Stopped ''eof'') [] 1, Forget 1]
     sg_core_new)) [CodeShown 1, Moved 1]"
  by (rule pairing_one_shot) simp

end
