(* ===== verification/Reply.thy ===== *)
theory Reply
  imports Cabi
begin

text \<open>
  The replies of the C interface (\<open>crates/sg-ffi/src/cabi.rs\<close>): the envelope a call's result is put in,
  the text it becomes, and what a panic, a value the JSON library cannot write and a NUL in the text
  are turned into. The JSON library is a parameter; unwinding is the value \<open>Panicked\<close>.
\<close>

section \<open>Envelopes\<close>

datatype 'a envelope = EnvOk 'a | EnvErr err_body

text \<open>The JSON library: an envelope to its text, or why not; and a plain string to its text.\<close>

record 'a serde =
  sj_envelope :: "'a envelope \<Rightarrow> string + string"
  sj_text :: "string \<Rightarrow> string option"

definition nul :: char where
  "nul = CHR 0x00"

definition nul_reply :: string where
  "nul_reply =
     ''{\"err\":{\"kind\":\"internal\",\"detail\":\"the reply contained a NUL\",\"recoverable\":false}}''"

definition into_c :: "string \<Rightarrow> string" where
  "into_c json = (if nul \<in> set json then nul_reply else json)"

definition reply :: "'a serde \<Rightarrow> err_body + 'a \<Rightarrow> string" where
  "reply sj result =
     (let env = (case result of Inr v \<Rightarrow> EnvOk v | Inl body \<Rightarrow> EnvErr body)
      in case sj_envelope sj env of
           Inr json \<Rightarrow> into_c json
         | Inl e \<Rightarrow>
             (let detail = (case sj_text sj (''could not serialise the reply: '' @ e) of
                              Some d \<Rightarrow> d
                            | None \<Rightarrow> ''\"could not serialise the reply\"'')
              in into_c (''{\"err\":{\"kind\":\"internal\",\"detail\":'' @ detail @ '',\"recoverable\":false}}'')))"

datatype 'a call_end = Returned "err_body + 'a" | Panicked

definition panicked :: err_body where
  "panicked = err_internal ''the core panicked; the operation was abandoned''"

definition guarded :: "'a serde \<Rightarrow> 'a call_end \<Rightarrow> string" where
  "guarded sj call = (case call of Returned result \<Rightarrow> reply sj result | Panicked \<Rightarrow> reply sj (Inl panicked))"

text \<open>An exported function, as C sees it: the handle it leaves and the text it returns.\<close>

definition exported ::
  "'a serde \<Rightarrow> (core_handle option \<Rightarrow> core_handle option \<times> (err_body + 'a)) \<Rightarrow> core_handle option
     \<Rightarrow> core_handle option \<times> string" where
  "exported sj call core = (case call core of (core', r) \<Rightarrow> (core', guarded sj (Returned r)))"

section \<open>What C reads\<close>

text \<open>The text a C caller reads ends at the first NUL.\<close>

definition c_reads :: "string \<Rightarrow> string" where
  "c_reads bytes = takeWhile ((\<noteq>) nul) (bytes @ [nul])"

lemma c_reads_whole: "nul \<notin> set s \<Longrightarrow> c_reads s = s"
  unfolding c_reads_def by (subst takeWhile_append2) auto

lemma into_c_whole: "nul \<notin> set (into_c json)"
  by (simp add: into_c_def nul_reply_def nul_def)

text \<open>Whatever the JSON library does, the caller reads every byte of the reply.\<close>

theorem guarded_whole: "c_reads (guarded sj call) = guarded sj call"
  by (rule c_reads_whole)
    (simp add: guarded_def reply_def Let_def into_c_whole split: call_end.split sum.split)

text \<open>
  With a library that writes every envelope and, as JSON demands, no control character, the caller
  reads exactly the envelope's JSON: of the value, of the error, or of the panic.
\<close>

theorem guarded_envelope:
  assumes "\<And>env. \<exists>json. sj_envelope sj env = Inr json \<and> nul \<notin> set json"
  shows "Inr (c_reads (guarded sj call)) = sj_envelope sj
    (case call of Returned (Inr v) \<Rightarrow> EnvOk v | Returned (Inl body) \<Rightarrow> EnvErr body | Panicked \<Rightarrow> EnvErr panicked)"
proof -
  have "Inr (c_reads (reply sj r)) = sj_envelope sj (case r of Inr v \<Rightarrow> EnvOk v | Inl body \<Rightarrow> EnvErr body)" for r
    using assms [of "case r of Inr v \<Rightarrow> EnvOk v | Inl body \<Rightarrow> EnvErr body"]
    by (auto simp: reply_def Let_def into_c_def c_reads_whole)
  from this [of "Inl panicked"] this show ?thesis
    by (auto simp: guarded_def split: call_end.split sum.split)
qed

text \<open>A null handle or an argument that cannot be read is an error reply, and leaves the core as it was.\<close>

lemma with_core_null: "with_core call None = (None, Inl (err_internal ''the core handle was null''))"
  by (simp add: with_core_def)

theorem unreadable_argument_changes_nothing:
  "exported sj (with_core (with_arg (borrow_text arg what) call)) core =
     (case (core, arg) of
        (None, _) \<Rightarrow> (None, reply sj (Inl (err_internal ''the core handle was null'')))
      | (Some h, NullText) \<Rightarrow> (Some h, reply sj (Inl (err_internal (what @ '' was null''))))
      | (Some h, NotUtf8) \<Rightarrow> (Some h, reply sj (Inl (err_internal (what @ '' was not valid UTF-8''))))
      | (Some h, Utf8 s) \<Rightarrow> (case call s h of (h', r) \<Rightarrow> (Some h', reply sj r)))"
  by (simp add: exported_def guarded_def with_core_def with_arg_def split: option.split c_text.split prod.split)

end
