(* ===== verification/Inventory.thy ===== *)
theory Inventory
  imports Poll Pair_Api
begin

text \<open>
  The desktop application's own state (\<open>apps/linux/src/store.rs\<close>, \<open>engine.rs\<close>, \<open>pairing.rs\<close>): the
  inventory file and the known-hosts file, the engine that maps saved hosts to running targets, and
  how a received payload is applied to both. A disk holds the text of each file there is; what a
  file operation can answer instead of working is an argument.
\<close>

section \<open>Saved hosts\<close>

record saved_host =
  sv_id :: string
  sv_address :: string
  sv_port :: u16
  sv_user :: string
  sv_auth_kind :: string
  sv_key_path :: "string option"
  sv_host_key_policy :: string
  sv_refresh_ms :: u64

fun show_hex :: "nat \<Rightarrow> string" where
  "show_hex n = (if n < 16 then [hex_digit n] else show_hex (n div 16) @ [hex_digit (n mod 16)])"

declare show_hex.simps [simp del]

text \<open>The process's counter and the clock in milliseconds give an id.\<close>

definition new_id :: "nat \<Rightarrow> u64 \<Rightarrow> string" where
  "new_id millis n = ''h'' @ show_hex millis @ ''-'' @ show_hex (unat n)"

definition saved_host_new :: "nat \<Rightarrow> u64 \<Rightarrow> string \<Rightarrow> saved_host" where
  "saved_host_new millis n address =
     \<lparr>sv_id = new_id millis n, sv_address = address, sv_port = 22, sv_user = [],
      sv_auth_kind = ''agent'', sv_key_path = None, sv_host_key_policy = ''accept_new'',
      sv_refresh_ms = 1000\<rparr>"

definition saved_label :: "saved_host \<Rightarrow> string" where
  "saved_label self =
     (if sv_user self = [] then sv_address self else sv_user self @ ''@'' @ sv_address self)"

definition saved_config :: "string option \<Rightarrow> string \<Rightarrow> saved_host \<Rightarrow> target_config" where
  "saved_config secret known_hosts self =
     \<lparr>tc_host = sv_address self, tc_port = sv_port self, tc_user = sv_user self,
      tc_auth_kind = sv_auth_kind self, tc_key_path = sv_key_path self, tc_key_text = None,
      tc_secret = secret, tc_host_key_policy = sv_host_key_policy self,
      tc_known_hosts_path = Some known_hosts, tc_refresh_ms = sv_refresh_ms self\<rparr>"

section \<open>Paths\<close>

record paths =
  pt_config :: string
  pt_known_hosts :: string

text \<open>Joining a relative path to another, and replacing the extension of the last component.\<close>

definition path_join :: "string \<Rightarrow> string \<Rightarrow> string" where
  "path_join a b = (if a = [] \<or> last a = CHR ''/'' then a @ b else a @ ''/'' @ b)"

definition with_extension :: "string \<Rightarrow> string \<Rightarrow> string" where
  "with_extension ext p =
     (let name = rev (takeWhile (\<lambda>c. c \<noteq> CHR ''/'') (rev p));
          dir = take (length p - length name) p;
          after_dot = takeWhile (\<lambda>c. c \<noteq> CHR ''.'') (rev name);
          stem = take (length name - length after_dot - 1) name
      in if CHR ''.'' \<in> set name \<and> stem \<noteq> [] then dir @ stem @ ''.'' @ ext else p @ ''.'' @ ext)"

definition path_parent :: "string \<Rightarrow> string" where
  "path_parent p =
     (let rest = dropWhile (\<lambda>c. c \<noteq> CHR ''/'') (rev p)
      in if length rest \<le> 1 then rev rest else rev (tl rest))"

definition env_path :: "(string \<Rightarrow> string option) \<Rightarrow> string \<Rightarrow> string option" where
  "env_path env key = (case env key of Some v \<Rightarrow> if v \<noteq> [] then Some v else None | None \<Rightarrow> None)"

definition home_dir :: "(string \<Rightarrow> string option) \<Rightarrow> string \<Rightarrow> string" where
  "home_dir env temp_dir = (case env ''HOME'' of Some v \<Rightarrow> v | None \<Rightarrow> temp_dir)"

definition paths_from_env :: "(string \<Rightarrow> string option) \<Rightarrow> string \<Rightarrow> paths" where
  "paths_from_env env temp_dir =
     (let home = home_dir env temp_dir;
          config_home = (case env_path env ''XDG_CONFIG_HOME'' of
                           Some p \<Rightarrow> p | None \<Rightarrow> path_join home ''.config'');
          data_home = (case env_path env ''XDG_DATA_HOME'' of
                         Some p \<Rightarrow> p | None \<Rightarrow> path_join (path_join home ''.local'') ''share'')
      in \<lparr>pt_config = path_join (path_join config_home ''serverglass'') ''hosts.json'',
          pt_known_hosts = path_join (path_join data_home ''serverglass'') ''known_hosts''\<rparr>)"

definition paths_under :: "string \<Rightarrow> paths" where
  "paths_under dir =
     \<lparr>pt_config = path_join dir ''hosts.json'', pt_known_hosts = path_join dir ''known_hosts''\<rparr>"

section \<open>The inventory file\<close>

type_synonym disk = "(string, string) hmap"

text \<open>The JSON library on inventories, and what can go wrong with each file operation.\<close>

record inventory_json =
  ij_parse :: "string \<Rightarrow> string + saved_host list"
  ij_print :: "saved_host list \<Rightarrow> string + string"

record faults =
  fa_read :: "string option"
  fa_mkdir :: "string option"
  fa_write :: "(nat \<times> string) option" \<comment> \<open>after how many bytes\<close>
  fa_rename :: "string option"

definition load :: "inventory_json \<Rightarrow> paths \<Rightarrow> faults \<Rightarrow> disk \<Rightarrow> string + saved_host list" where
  "load ij ps fa d =
     (case fa_read fa of
        Some e \<Rightarrow> Inl (''Could not read '' @ pt_config ps @ '': '' @ e)
      | None \<Rightarrow>
          (case hm_get d (pt_config ps) of
             None \<Rightarrow> Inr []
           | Some s \<Rightarrow>
               if trim s = [] then Inr []
               else (case ij_parse ij s of
                       Inl e \<Rightarrow> Inl (pt_config ps @ '' is not readable: '' @ e)
                     | Inr hosts \<Rightarrow> Inr hosts)))"

text \<open>
  Writing a file creates it empty and fills it from the front. Saving is the list of all disks it
  goes through, the last one its result: a crash leaves one of them.
\<close>

definition write_file :: "(nat \<times> string) option \<Rightarrow> string \<Rightarrow> string \<Rightarrow> disk \<Rightarrow> disk list \<times> (string + unit)" where
  "write_file fault path s d =
     (let part = (\<lambda>n. hm_insert path (take n s) d)
      in case fault of
           Some (n, e) \<Rightarrow> (map part [0..<Suc (min n (length s))], Inl e)
         | None \<Rightarrow> (map part [0..<Suc (length s)], Inr ()))"

definition rename_file :: "string \<Rightarrow> string \<Rightarrow> disk \<Rightarrow> disk" where
  "rename_file a b d =
     (case hm_get d a of Some s \<Rightarrow> hm_insert b s (hm_remove a d) | None \<Rightarrow> d)"

definition save ::
  "inventory_json \<Rightarrow> paths \<Rightarrow> faults \<Rightarrow> saved_host list \<Rightarrow> disk \<Rightarrow> disk list \<times> (string + unit)" where
  "save ij ps fa hosts d =
     (case load ij ps fa d of
        Inl e \<Rightarrow> ([d], Inl e)
      | Inr _ \<Rightarrow>
          (case fa_mkdir fa of
             Some e \<Rightarrow> ([d], Inl (''Could not create '' @ path_parent (pt_config ps) @ '': '' @ e))
           | None \<Rightarrow>
               (case ij_print ij hosts of
                  Inl e \<Rightarrow> ([d], Inl e)
                | Inr s \<Rightarrow>
                    (let temporary = with_extension ''json.tmp'' (pt_config ps)
                     in case write_file (fa_write fa) temporary s d of
                          (ds, Inl e) \<Rightarrow> (d # ds, Inl (''Could not write '' @ temporary @ '': '' @ e))
                        | (ds, Inr _) \<Rightarrow>
                            (case fa_rename fa of
                               Some e \<Rightarrow> (d # ds, Inl (''Could not save '' @ pt_config ps @ '': '' @ e))
                             | None \<Rightarrow> (d # ds @ [rename_file temporary (pt_config ps) (last ds)], Inr ()))))))"

section \<open>The engine\<close>

record engine =
  en_core :: server_glass
  en_targets :: "(string, string) hmap"
  en_known_hosts :: string

definition engine_new :: "paths \<Rightarrow> engine" where
  "engine_new ps = \<lparr>en_core = server_new, en_targets = [], en_known_hosts = pt_known_hosts ps\<rparr>"

fun sg_error_display :: "sg_error \<Rightarrow> string" where
  "sg_error_display (UnknownTarget tid) = ''no such target: '' @ tid"
| "sg_error_display (Connection detail _) = detail"
| "sg_error_display (Internal detail) = ''internal error: '' @ detail"

definition engine_start :: "saved_host \<Rightarrow> string option \<Rightarrow> engine \<Rightarrow> engine \<times> (string + unit)" where
  "engine_start host secret self =
     (if sv_id host \<in> hm_keys (en_targets self) then (self, Inr ())
      else
        (let config = saved_config secret (en_known_hosts self) host;
             (core, tid) = add_target config (en_core self)
         in case start_target tid core of
              (core', r) \<Rightarrow>
                (self\<lparr>en_core := core', en_targets := hm_insert (sv_id host) tid (en_targets self)\<rparr>,
                 map_sum sg_error_display id r)))"

definition engine_forget :: "string \<Rightarrow> engine \<Rightarrow> engine" where
  "engine_forget host_id self =
     (case hm_get (en_targets self) host_id of
        None \<Rightarrow> self
      | Some tid \<Rightarrow>
          self\<lparr>en_targets := hm_remove host_id (en_targets self),
               en_core := fst (remove_target tid (en_core self))\<rparr>)"

definition engine_restart :: "saved_host \<Rightarrow> string option \<Rightarrow> engine \<Rightarrow> engine \<times> (string + unit)" where
  "engine_restart host secret self = engine_start host secret (engine_forget (sv_id host) self)"

definition engine_target_id :: "string \<Rightarrow> engine \<Rightarrow> string option" where
  "engine_target_id host_id self = hm_get (en_targets self) host_id"

definition engine_snapshot :: "string \<Rightarrow> engine \<Rightarrow> target_snapshot option" where
  "engine_snapshot host_id self =
     (case engine_target_id host_id self of
        None \<Rightarrow> None
      | Some tid \<Rightarrow> (case target_snapshot_of tid (en_core self) of Inr sn \<Rightarrow> Some sn | Inl _ \<Rightarrow> None))"

definition engine_is_running :: "string \<Rightarrow> engine \<Rightarrow> bool" where
  "engine_is_running host_id self \<longleftrightarrow> host_id \<in> hm_keys (en_targets self)"

section \<open>Applying what another device sent\<close>

definition pin_text_lines :: "string \<Rightarrow> string list" where
  "pin_text_lines s = filter (\<lambda>l. l \<noteq> [] \<and> \<not> prefix ''#'' l) (map trim (lines s))"

definition read_known_hosts :: "string option \<Rightarrow> paths \<Rightarrow> disk \<Rightarrow> string list" where
  "read_known_hosts read_fault ps d =
     (case read_fault of
        Some _ \<Rightarrow> []
      | None \<Rightarrow> (case hm_get d (pt_known_hosts ps) of Some s \<Rightarrow> pin_text_lines s | None \<Rightarrow> []))"

definition known_hosts_text :: "string list \<Rightarrow> string" where
  "known_hosts_text ls = join [nl] ls @ [nl]"

definition write_known_hosts :: "paths \<Rightarrow> faults \<Rightarrow> string list \<Rightarrow> disk \<Rightarrow> disk \<times> (string + unit)" where
  "write_known_hosts ps fa ls d =
     (case fa_mkdir fa of
        Some e \<Rightarrow> (d, Inl (''Could not create '' @ path_parent (pt_known_hosts ps) @ '': '' @ e))
      | None \<Rightarrow>
          (case write_file (fa_write fa) (pt_known_hosts ps) (known_hosts_text ls) d of
             (ds, Inl e) \<Rightarrow> (last ds, Inl (''Could not write '' @ pt_known_hosts ps @ '': '' @ e))
           | (ds, Inr u) \<Rightarrow> (last ds, Inr u)))"

definition wire_host :: "saved_host \<Rightarrow> sync_host" where
  "wire_host h =
     \<lparr>sh_address = sv_address h, sh_port = sv_port h, sh_user = sv_user h,
      sh_auth_kind = sv_auth_kind h, sh_key_path = sv_key_path h,
      sh_host_key_policy = sv_host_key_policy h, sh_refresh_ms = sv_refresh_ms h\<rparr>"

definition inventory :: "string option \<Rightarrow> paths \<Rightarrow> saved_host list \<Rightarrow> disk \<Rightarrow> payload" where
  "inventory read_fault ps hosts d =
     \<lparr>py_hosts = map wire_host hosts, py_known_hosts = read_known_hosts read_fault ps d\<rparr>"

definition saved_of_wire :: "nat \<Rightarrow> u64 \<Rightarrow> sync_host \<Rightarrow> saved_host" where
  "saved_of_wire millis n h =
     (saved_host_new millis n (sh_address h))\<lparr>sv_port := sh_port h, sv_user := sh_user h,
        sv_auth_kind := sh_auth_kind h, sv_key_path := sh_key_path h,
        sv_host_key_policy := sh_host_key_policy h, sv_refresh_ms := sh_refresh_ms h\<rparr>"

text \<open>The records of a merge that this device does not have, each under a new id.\<close>

fun add_received :: "nat \<Rightarrow> u64 \<Rightarrow> sync_host list \<Rightarrow> saved_host list \<Rightarrow> saved_host list" where
  "add_received millis n [] hosts = hosts"
| "add_received millis n (h # hs) hosts =
     (if \<exists>k \<in> set hosts. sv_address k = sh_address h \<and> sv_port k = sh_port h \<and> sv_user k = sh_user h
      then add_received millis n hs hosts
      else add_received millis (n + 1) hs (hosts @ [saved_of_wire millis n h]))"

definition middle_dot :: string where
  "middle_dot = [CHR 0xC2, CHR 0xB7]"

definition apply_summary :: "merged \<Rightarrow> string list \<Rightarrow> string" where
  "apply_summary m problems =
     show_nat (mr_added_hosts m) @ '' server(s) added, '' @ show_nat (mr_kept_hosts m)
     @ '' already here. '' @ show_nat (mr_added_pins m) @ '' trusted identities added.''
     @ (if mr_conflicts m = [] then []
        else [nl, nl] @ ''These identities disagree and were left exactly as they were:''
          @ concat (map (\<lambda>k. [nl] @ middle_dot @ '' '' @ pc_host k) (mr_conflicts m))
          @ [nl, nl] @ ''That can mean the server was rebuilt '' @ em_dash
          @ '' or that something is impersonating it. Find out which before trusting the new one.'')
     @ concat (map (\<lambda>p. [nl, nl] @ p) problems)"

definition apply_payload ::
  "inventory_json \<Rightarrow> paths \<Rightarrow> string option \<Rightarrow> faults \<Rightarrow> faults \<Rightarrow> nat \<Rightarrow> u64 \<Rightarrow> payload
     \<Rightarrow> saved_host list \<Rightarrow> disk \<Rightarrow> saved_host list \<times> disk \<times> string" where
  "apply_payload ij ps read_fault fa1 fa2 millis n incoming hosts d =
     (let m = merge (inventory read_fault ps hosts d) incoming;
          hosts' = add_received millis n (mr_hosts m) hosts;
          (ds, saved) = save ij ps fa1 hosts' d;
          (d', pinned) = write_known_hosts ps fa2 (mr_known_hosts m) (last ds);
          problems = (case saved of Inl e \<Rightarrow> [e] | Inr _ \<Rightarrow> [])
                   @ (case pinned of Inl e \<Rightarrow> [e] | Inr _ \<Rightarrow> [])
      in (hosts', d', apply_summary m problems))"

section \<open>Trimmed text\<close>












section \<open>The known-hosts file\<close>








section \<open>Saving never loses the inventory\<close>

lemma with_extension_differs: "with_extension ''json.tmp'' p \<noteq> p"
proof
  assume eq: "with_extension ''json.tmp'' p = p"
  define name where "name = rev (takeWhile (\<lambda>c. c \<noteq> CHR ''/'') (rev p))"
  define dir where "dir = take (length p - length name) p"
  define after_dot where "after_dot = takeWhile (\<lambda>c. c \<noteq> CHR ''.'') (rev name)"
  define stem where "stem = take (length name - length after_dot - 1) name"
  have w: "with_extension ''json.tmp'' p =
      (if CHR ''.'' \<in> set name \<and> stem \<noteq> [] then dir @ stem @ ''.json.tmp'' else p @ ''.json.tmp'')"
    unfolding with_extension_def Let_def name_def [symmetric] dir_def [symmetric]
      after_dot_def [symmetric] stem_def [symmetric] by simp
  with eq have dot: "CHR ''.'' \<in> set name" and p: "p = dir @ stem @ ''.json.tmp''"
    by (auto split: if_splits)
  have "rev name = after_dot @ dropWhile (\<lambda>c. c \<noteq> CHR ''.'') (rev name)" by (simp add: after_dot_def)
  moreover have "dropWhile (\<lambda>c. c \<noteq> CHR ''.'') (rev name) \<noteq> []" using dot by (auto simp: dropWhile_eq_Nil_conv)
  ultimately have len: "length after_dot < length name" by (metis length_append length_greater_0_conv length_rev less_add_same_cancel1)
  have "prefix (rev name) (rev p)" unfolding name_def by (simp add: takeWhile_is_prefix)
  then have "length name \<le> length p" by (metis length_rev prefix_length_le)
  moreover have "length p = length dir + length stem + 9" 
  proof -
    have "length p = length (dir @ stem @ ''.json.tmp'')" using p by (rule arg_cong)
    then show ?thesis by (simp only: length_append) simp
  qed
  moreover have "length dir = length p - length name" by (simp add: dir_def)
  moreover have "length stem = length name - length after_dot - 1" by (simp add: stem_def)
  ultimately have "length after_dot = 8" using len by linarith
  moreover have "prefix after_dot (rev p)"
    using \<open>prefix (rev name) (rev p)\<close> takeWhile_is_prefix [of "\<lambda>c. c \<noteq> CHR ''.''" "rev name"]
    unfolding after_dot_def by (metis prefix_order.order_trans)
  ultimately have "after_dot = take 8 (rev p)" by (metis append_eq_conv_conj prefix_def)
  also have "\<dots> = ''pmt.nosj''" unfolding p by simp
  finally have "CHR ''.'' \<in> set after_dot" by simp
  then show False unfolding after_dot_def by (auto dest: set_takeWhileD)
qed

lemma write_file_at:
  "d' \<in> set (fst (write_file fault path s d)) \<Longrightarrow> f \<noteq> path \<Longrightarrow> hm_get d' f = hm_get d f"
  by (auto simp: write_file_def Let_def map_simps split: option.splits)

lemma write_file_last:
  "snd (write_file None path s d) = Inr () \<and> hm_get (last (fst (write_file None path s d))) = (hm_get d)(path \<mapsto> s)"
  by (simp add: write_file_def Let_def map_simps last_map del: upt_Suc)

text \<open>What the JSON library is relied on for: it reads back the inventories it printed.\<close>

definition inventory_laws :: "inventory_json \<Rightarrow> bool" where
  "inventory_laws ij \<longleftrightarrow> (\<forall>hosts s. ij_print ij hosts = Inr s \<longrightarrow> ij_parse ij s = Inr hosts \<and> trim s \<noteq> [])"

lemma save_disks:
  assumes "d' \<in> set (fst (save ij ps fa hosts d))"
  shows "(hm_get d' (pt_config ps) = hm_get d (pt_config ps)
      \<or> (\<exists>s. ij_print ij hosts = Inr s \<and> hm_get d' (pt_config ps) = Some s
            \<and> snd (save ij ps fa hosts d) = Inr ()))
    \<and> (f \<noteq> pt_config ps \<longrightarrow> f \<noteq> with_extension ''json.tmp'' (pt_config ps) \<longrightarrow> hm_get d' f = hm_get d f)"
proof -
  let ?tmp = "with_extension ''json.tmp'' (pt_config ps)"
  note differs = with_extension_differs [of "pt_config ps"]
  show ?thesis
  proof (cases "\<exists>s u. load ij ps fa d = Inr u \<and> fa_mkdir fa = None \<and> ij_print ij hosts = Inr s")
    case False
    then have "fst (save ij ps fa hosts d) = [d]" by (auto simp: save_def split: sum.splits option.splits)
    with assms show ?thesis by simp
  next
    case True
    then obtain u s where ok: "load ij ps fa d = Inr u" "fa_mkdir fa = None" "ij_print ij hosts = Inr s" by blast
    obtain ds r where w: "write_file (fa_write fa) ?tmp s d = (ds, r)" by (rule prod.exhaust)
    have at: "hm_get e f = hm_get d f" if "e \<in> set ds" "f \<noteq> ?tmp" for e f
      using write_file_at [of e "fa_write fa" ?tmp s d f] that w by simp
    show ?thesis
    proof (cases "d' \<in> set (d # ds)")
      case True
      with at differs show ?thesis by auto
    next
      case False
      with assms ok w have r: "r = Inr ()" "fa_rename fa = None" "d' = rename_file ?tmp (pt_config ps) (last ds)"
        by (auto simp: save_def Let_def split: sum.splits option.splits)
      then have "fa_write fa = None" using w by (auto simp: write_file_def Let_def split: option.splits)
      with w write_file_last [of ?tmp s d] have last: "hm_get (last ds) = (hm_get d)(?tmp \<mapsto> s)" by simp
      then show ?thesis using r ok w differs
        by (auto simp: rename_file_def map_simps save_def Let_def)
    qed
  qed
qed

text \<open>
  C36: a crash, a full disk or a damaged file never costs the inventory: at every moment of a save the
  inventory file holds either exactly what it held before or the whole new text, and the old one
  unless the save reports success; an inventory that cannot be read is left alone and reported; and
  a save that reports success is read back as the hosts that were saved.
\<close>

theorem save_never_loses:
  assumes "inventory_laws ij"
  shows "case save ij ps fa hosts d of (ds, r) \<Rightarrow>
      list_all (\<lambda>d'. hm_get d' (pt_config ps) = hm_get d (pt_config ps)
        \<or> Inr (the (hm_get d' (pt_config ps))) = ij_print ij hosts \<and> r = Inr ()) ds
      \<and> (case load ij ps fa d of Inl e \<Rightarrow> ds = [d] \<and> r = Inl e
           | Inr _ \<Rightarrow> case r of Inl _ \<Rightarrow> True | Inr _ \<Rightarrow> load ij ps fa (last ds) = Inr hosts)"
proof -
  obtain ds r where s: "save ij ps fa hosts d = (ds, r)" by (rule prod.exhaust)
  have "hm_get d' (pt_config ps) = hm_get d (pt_config ps)
        \<or> Inr (the (hm_get d' (pt_config ps))) = ij_print ij hosts \<and> r = Inr ()" if "d' \<in> set ds" for d'
    using save_disks [of d' ij ps fa hosts d] that s by fastforce
  moreover have "ds = [d] \<and> r = Inl e" if "load ij ps fa d = Inl e" for e
    using that s by (simp add: save_def)
  moreover have "load ij ps fa (last ds) = Inr hosts" if ok: "load ij ps fa d = Inr u" "r = Inr ()" for u
  proof -
    let ?tmp = "with_extension ''json.tmp'' (pt_config ps)"
    from ok s obtain t ws where t: "ij_print ij hosts = Inr t" "write_file (fa_write fa) ?tmp t d = (ws, Inr ())"
      "ds = d # ws @ [rename_file ?tmp (pt_config ps) (last ws)]"
      by (auto simp: save_def Let_def split: sum.splits option.splits prod.splits)
    then have "fa_write fa = None" by (auto simp: write_file_def Let_def split: option.splits)
    with t(2) write_file_last [of ?tmp t d] have "hm_get (last ws) = (hm_get d)(?tmp \<mapsto> t)" by simp
    then have "hm_get (last ds) (pt_config ps) = Some t"
      by (simp add: t(3) rename_file_def map_simps)
    moreover have "fa_read fa = None" using ok(1) by (simp add: load_def split: option.splits)
    ultimately show ?thesis using assms t(1) by (simp add: load_def inventory_laws_def)
  qed
  ultimately show ?thesis unfolding s by (auto simp: list_all_iff split: sum.split)
qed

definition demo_inventory_json :: inventory_json where
  "demo_inventory_json = \<lparr>ij_parse = (\<lambda>s. if s = ''[]'' then Inr [] else Inl ''expected value''),
     ij_print = (\<lambda>hosts. if hosts = [] then Inr ''[]'' else Inl ''unsupported'')\<rparr>"

definition demo_paths :: paths where
  "demo_paths = \<lparr>pt_config = ''/c/hosts.json'', pt_known_hosts = ''/d/known_hosts''\<rparr>"

definition no_faults :: faults where
  "no_faults = \<lparr>fa_read = None, fa_mkdir = None, fa_write = None, fa_rename = None\<rparr>"

lemma demo_inventory_laws: "inventory_laws demo_inventory_json"
proof -
  have "trim ''[]'' \<noteq> []" by code_simp
  then show ?thesis by (auto simp: inventory_laws_def demo_inventory_json_def split: if_splits)
qed

lemma save_never_loses_witness:
  "case save demo_inventory_json demo_paths no_faults [] [(''/c/hosts.json'', ''{ this is not json'')] of
     (ds, r) \<Rightarrow> ds = [[(''/c/hosts.json'', ''{ this is not json'')]]"
proof -
  let ?d = "[(''/c/hosts.json'', ''{ this is not json'')]"
  have "trim ''{ this is not json'' \<noteq> []" by code_simp
  then have "\<exists>e. load demo_inventory_json demo_paths no_faults ?d = Inl e"
    by (simp add: load_def demo_inventory_json_def demo_paths_def no_faults_def)
  with save_never_loses [OF demo_inventory_laws, where ps = demo_paths and fa = no_faults and hosts = "[]" and d = ?d] show ?thesis
    by (auto split: prod.splits)
qed

section \<open>One target for each host\<close>

text \<open>What happens to an engine: its operations, and moves of a target's poller and callers.\<close>

datatype engine_op =
  EngineStart saved_host "string option"
  | EngineForget string
  | EngineRestart saved_host "string option"
  | TargetMove string move

definition move_target :: "string \<Rightarrow> move \<Rightarrow> server_glass \<Rightarrow> server_glass" where
  "move_target tid m sg =
     (case hm_get (sg_targets sg) tid of
        Some sy \<Rightarrow> sg\<lparr>sg_targets := hm_insert tid (system_move m sy) (sg_targets sg)\<rparr>
      | None \<Rightarrow> sg)"

fun engine_step :: "engine_op \<Rightarrow> engine \<Rightarrow> engine" where
  "engine_step (EngineStart host secret) en = fst (engine_start host secret en)"
| "engine_step (EngineForget host_id) en = engine_forget host_id en"
| "engine_step (EngineRestart host secret) en = fst (engine_restart host secret en)"
| "engine_step (TargetMove tid m) en = en\<lparr>en_core := move_target tid m (en_core en)\<rparr>"

text \<open>
  The hosts and the targets of an engine correspond, and no more than k ids were given out.
\<close>

definition engine_ok :: "nat \<Rightarrow> engine \<Rightarrow> bool" where
  "engine_ok k en \<longleftrightarrow> hm_wf (en_targets en) \<and> distinct (map snd (en_targets en))
     \<and> set (map snd (en_targets en)) = hm_keys (sg_targets (en_core en))
     \<and> ids_issued (en_core en) \<and> unat (sg_next_id (en_core en)) \<le> k"

lemma update_fresh:
  "k \<notin> fst ` set m \<Longrightarrow> AList.update k v m = m @ [(k, v)]"
  by (induction m) auto

lemma map_snd_delete:
  assumes "distinct (map fst m)" "distinct (map snd m)" "map_of m k = Some v"
  shows "distinct (map snd (AList.delete k m)) \<and> set (map snd (AList.delete k m)) = set (map snd m) - {v}"
  using assms
proof (induction m)
  case (Cons e m)
  obtain a b where e: "e = (a, b)" by (rule prod.exhaust)
  show ?case
  proof (cases "a = k")
    case True
    with Cons.prems e have "AList.delete k m = m"
      by (intro AList.delete_id) auto
    with True Cons.prems e show ?thesis by auto
  next
    case False
    with Cons e have "v \<in> set (map snd m)" by (force dest: map_of_SomeD)
    with False Cons e show ?thesis by auto
  qed
qed simp

lemma ids_issued_keys:
  assumes "ids_issued sg" "hm_wf (sg_targets sg')" "hm_keys (sg_targets sg') \<subseteq> hm_keys (sg_targets sg)"
    "sg_next_id sg' = sg_next_id sg"
  shows "ids_issued sg'"
proof -
  have "\<forall>tid \<in> hm_keys (sg_targets sg). \<exists>n \<le> unat (sg_next_id sg). tid = ''t'' @ show_nat n"
    using assms(1) unfolding ids_issued_def by (rule conjunct2)
  then have "\<forall>tid \<in> hm_keys (sg_targets sg'). \<exists>n \<le> unat (sg_next_id sg). tid = ''t'' @ show_nat n"
    using assms(3) by (meson subsetD)
  with assms(2,4) show ?thesis unfolding ids_issued_def by simp
qed

lemma move_keys:
  "hm_keys (sg_targets (move_target tid m sg)) = hm_keys (sg_targets sg)"
  "hm_wf (sg_targets sg) \<Longrightarrow> hm_wf (sg_targets (move_target tid m sg))"
  "sg_next_id (move_target tid m sg) = sg_next_id sg"
  by (auto simp: move_target_def map_simps hm_keys_dom split: option.split)

lemma start_target_keys:
  assumes "start_target tid sg = (sg', r)"
  shows "hm_keys (sg_targets sg') = hm_keys (sg_targets sg)" "hm_wf (sg_targets sg) \<Longrightarrow> hm_wf (sg_targets sg')"
    "sg_next_id sg' = sg_next_id sg"
  using assms
  by (auto simp: start_target_def find_target_def map_simps hm_keys_dom split: sum.splits option.splits if_splits)

lemma remove_target_keys:
  assumes "tid \<in> hm_keys (sg_targets sg)"
  shows "hm_keys (sg_targets (fst (remove_target tid sg))) = hm_keys (sg_targets sg) - {tid}"
    "hm_wf (sg_targets sg) \<Longrightarrow> hm_wf (sg_targets (fst (remove_target tid sg)))"
    "sg_next_id (fst (remove_target tid sg)) = sg_next_id sg"
proof -
  from assms obtain sy where "hm_get (sg_targets sg) tid = Some sy" unfolding hm_keys_dom by blast
  then have r: "fst (remove_target tid sg) =
      sg\<lparr>sg_targets := hm_remove tid (hm_insert tid (stop_poll sy) (sg_targets sg))\<rparr>"
    by (simp add: remove_target_def stop_target_def find_target_def)
  show "hm_keys (sg_targets (fst (remove_target tid sg))) = hm_keys (sg_targets sg) - {tid}"
    "sg_next_id (fst (remove_target tid sg)) = sg_next_id sg"
    unfolding r by (simp_all add: map_simps)
  show "hm_wf (sg_targets sg) \<Longrightarrow> hm_wf (sg_targets (fst (remove_target tid sg)))"
    unfolding r by (auto intro: hm_wf_remove hm_wf_insert)
qed

lemma engine_forget_ok:
  assumes "engine_ok k en"
  shows "engine_ok k (engine_forget host_id en)"
proof (cases "hm_get (en_targets en) host_id")
  case (Some tid)
  note ok = assms [unfolded engine_ok_def]
  from Some ok have tid: "tid \<in> hm_keys (sg_targets (en_core en))" by (force dest: map_of_SomeD)
  note removed = remove_target_keys [OF tid]
  have "ids_issued (fst (remove_target tid (en_core en)))"
    by (rule ids_issued_keys [of "en_core en"]) (use ok removed in \<open>auto simp: ids_issued_def\<close>)
  with Some ok removed map_snd_delete [OF _ _ Some] show ?thesis
    by (auto simp: engine_forget_def engine_ok_def distinct_delete)
qed (use assms in \<open>simp add: engine_forget_def\<close>)

lemma engine_next_id:
  assumes "engine_ok k en" "Suc k < 2 ^ 64"
  shows "sg_next_id (en_core en) \<noteq> - 1"
proof
  assume "sg_next_id (en_core en) = - 1"
  then have "unat (sg_next_id (en_core en)) = 2 ^ 64 - 1"
    by (simp add: unsigned_minus_1_eq_mask mask_eq_exp_minus_1)
  with assms show False by (simp add: engine_ok_def)
qed

lemma engine_start_ok:
  assumes "engine_ok k en" "Suc k < 2 ^ 64"
  shows "engine_ok (Suc k) (fst (engine_start host secret en))"
proof (cases "sv_id host \<in> hm_keys (en_targets en)")
  case True
  with assms show ?thesis by (auto simp: engine_start_def engine_ok_def)
next
  case False
  note ok = assms(1) [unfolded engine_ok_def]
  let ?config = "saved_config secret (en_known_hosts en) host"
  note fresh = add_target_fresh [OF _ engine_next_id [OF assms], of ?config]
  obtain core tid where add: "add_target ?config (en_core en) = (core, tid)" by (rule prod.exhaust)
  obtain core' r where start: "start_target tid core = (core', r)" by (rule prod.exhaust)
  note keys = start_target_keys [OF start]
  have next_id: "unat (w + 1) \<le> Suc (unat w)" for w :: u64
    unfolding unat_word_ariths by (simp add: order.trans [OF mod_less_eq_dividend])
  have core: "hm_keys (sg_targets core) = insert tid (hm_keys (sg_targets (en_core en)))"
    "unat (sg_next_id core) \<le> Suc k"
  proof -
    have c: "core = fst (add_target ?config (en_core en))" "tid = snd (add_target ?config (en_core en))"
      using add by simp_all
    show "hm_keys (sg_targets core) = insert tid (hm_keys (sg_targets (en_core en)))"
      unfolding c by (simp add: add_target_def Let_def map_simps)
    show "unat (sg_next_id core) \<le> Suc k"
      unfolding c using ok next_id [of "sg_next_id (en_core en)"] by (simp add: add_target_def Let_def)
  qed
  have new: "tid \<notin> hm_keys (sg_targets (en_core en))" "ids_issued core"
    using fresh ok add by auto
  then have "ids_issued core'"
    by (intro ids_issued_keys [OF _ keys(2)]) (auto simp: keys ids_issued_def)
  with False ok new core keys show ?thesis
    by (auto simp: engine_start_def engine_ok_def Let_def add start update_fresh)
qed

lemma engine_step_ok: "engine_ok k en \<Longrightarrow> Suc k < 2 ^ 64 \<Longrightarrow> engine_ok (Suc k) (engine_step op en)"
proof (cases op)
  case (TargetMove tid m)
  assume ok: "engine_ok k en"
  then have i: "ids_issued (en_core en)" by (simp only: engine_ok_def)
  then have "hm_wf (sg_targets (en_core en))" unfolding ids_issued_def by (rule conjunct1)
  then have "ids_issued (move_target tid m (en_core en))"
    by (intro ids_issued_keys [OF i move_keys(2)]) (simp_all only: move_keys order.refl)
  with ok TargetMove show ?thesis by (simp add: engine_ok_def move_keys le_SucI)
next
  case (EngineForget host_id)
  assume "engine_ok k en"
  then have "engine_ok k (engine_forget host_id en)" by (rule engine_forget_ok)
  with EngineForget show ?thesis by (simp add: engine_ok_def le_SucI)
next
  case (EngineStart host secret)
  assume "engine_ok k en" "Suc k < 2 ^ 64"
  with EngineStart show ?thesis by (simp only: engine_step.simps engine_start_ok)
next
  case (EngineRestart host secret)
  assume ok: "engine_ok k en" "Suc k < 2 ^ 64"
  from engine_start_ok [OF engine_forget_ok [OF ok(1)] ok(2)] EngineRestart show ?thesis
    by (simp only: engine_step.simps engine_restart_def)
qed

lemma engine_run_ok: "engine_ok k en \<Longrightarrow> k + length ops < 2 ^ 64 \<Longrightarrow> engine_ok (k + length ops) (fold engine_step ops en)"
proof (induction ops arbitrary: k en)
  case (Cons op ops)
  then have "engine_ok (Suc k) (engine_step op en)" by (intro engine_step_ok) auto
  with Cons.IH [of "Suc k" "engine_step op en"] Cons.prems show ?case by simp
qed simp

lemma engine_new_ok: "engine_ok 0 (engine_new ps)"
  by (simp add: engine_ok_def engine_new_def server_new_def ids_issued_def)

lemma engine_restart_config:
  assumes "engine_ok k en" "Suc k < 2 ^ 64"
  shows "\<exists>tid sy. engine_target_id (sv_id host) (fst (engine_restart host secret en)) = Some tid
    \<and> find_target tid (en_core (fst (engine_restart host secret en))) = Inr sy
    \<and> tg_config (sy_target sy) = saved_config secret (en_known_hosts en) host
    \<and> sn_state (tg_snapshot (sy_target sy)) = Connecting"
proof -
  let ?en = "engine_forget (sv_id host) en"
  have kh: "en_known_hosts ?en = en_known_hosts en" by (simp add: engine_forget_def split: option.split)
  have gone: "sv_id host \<notin> hm_keys (en_targets ?en)"
    by (auto simp: engine_forget_def map_simps map_of_eq_None_iff split: option.split)
  let ?config = "saved_config secret (en_known_hosts en) host"
  let ?tid = "''t'' @ show_word (sg_next_id (en_core ?en) + 1)"
  have "engine_target_id (sv_id host) (fst (engine_restart host secret en)) = Some ?tid"
    "find_target ?tid (en_core (fst (engine_restart host secret en))) = Inr (start_poll (system_new ?tid ?config))"
    using gone
    by (simp_all add: engine_restart_def engine_start_def engine_target_id_def Let_def add_target_def kh
        start_target_def find_target_def map_simps)
  moreover have "tg_config (sy_target (start_poll (system_new ?tid ?config))) = ?config"
    "sn_state (tg_snapshot (sy_target (start_poll (system_new ?tid ?config)))) = Connecting"
    by (simp_all add: start_poll_def is_running_task_def system_new_def Let_def set_state_def)
  ultimately show ?thesis by blast
qed

text \<open>
  C37: the desktop application never leaks or doubles a connection: after any sequence of starting,
  forgetting and editing hosts, interleaved in any way with what the pollers and commands of the
  targets do, every host in use has exactly one target, and every target the core holds belongs to
  exactly one host; a forgotten host has no snapshot; and an edited host is dialled anew with its
  edited settings. (Fewer than 2^64 steps.)
\<close>

theorem engine_one_target_each:
  assumes "Suc (length ops) < 2 ^ 64"
  shows "let en = fold engine_step ops (engine_new ps)
    in distinct (map fst (en_targets en)) \<and> distinct (map snd (en_targets en))
       \<and> set (map snd (en_targets en)) = set (target_ids (en_core en))
       \<and> engine_snapshot host_id (engine_forget host_id en) = None
       \<and> (\<exists>tid sy. engine_target_id (sv_id host) (fst (engine_restart host secret en)) = Some tid
            \<and> find_target tid (en_core (fst (engine_restart host secret en))) = Inr sy
            \<and> tg_config (sy_target sy) = saved_config secret (en_known_hosts en) host
            \<and> sn_state (tg_snapshot (sy_target sy)) = Connecting)"
proof -
  let ?en = "fold engine_step ops (engine_new ps)"
  have ok: "engine_ok (length ops) ?en"
    using engine_run_ok [OF engine_new_ok, of ops ps] assms by simp
  have "engine_snapshot host_id (engine_forget host_id ?en) = None"
    by (auto simp: engine_snapshot_def engine_target_id_def engine_forget_def map_simps split: option.split)
  moreover have "set (target_ids (en_core ?en)) = hm_keys (sg_targets (en_core ?en))"
    by (simp add: target_ids_def)
  ultimately show ?thesis
    using ok engine_restart_config [OF ok assms, of host secret] unfolding engine_ok_def Let_def by blast
qed

lemma engine_one_target_each_witness:
  "let en = fold engine_step [EngineStart (saved_host_new 1 0 ''h'') None, TargetMove ''t1'' Stop,
        EngineForget ''h1-0'', EngineStart (saved_host_new 2 1 ''k'') None] (engine_new demo_paths)
   in distinct (map snd (en_targets en)) \<and> set (map snd (en_targets en)) = set (target_ids (en_core en))"
proof -
  let ?ops = "[EngineStart (saved_host_new 1 0 ''h'') None, TargetMove ''t1'' Stop,
        EngineForget ''h1-0'', EngineStart (saved_host_new 2 1 ''k'') None]"
  have "Suc (length ?ops) < 2 ^ 64" by simp
  from engine_one_target_each [OF this, of demo_paths] show ?thesis unfolding Let_def by blast
qed

section \<open>What a transfer does to this device\<close>












lemma written_known_hosts:
  assumes "fa_mkdir fa = None" "fa_write fa = None"
  shows "read_known_hosts None ps (fst (write_known_hosts ps fa ls d)) = pin_text_lines (known_hosts_text ls)"
  using assms write_file_last [of "pt_known_hosts ps" "known_hosts_text ls" d]
  by (cases "write_file None (pt_known_hosts ps) (known_hosts_text ls) d")
    (simp add: write_known_hosts_def read_known_hosts_def)






section \<open>Two gaps\<close>

text \<open>
  A line that holds a line feed is one line to the merge and two in the file: the second can pin a
  key for a host whose key is already held, without a conflict being reported.
\<close>

lemma line_feed_smuggles_pin:
  "let held = ''b ssh-ed25519 HONEST''; sent = ''a ssh-ed25519 AAAA'' @ [nl] @ ''b ssh-ed25519 OTHER'';
       m = merge \<lparr>py_hosts = [], py_known_hosts = [held]\<rparr> \<lparr>py_hosts = [], py_known_hosts = [sent]\<rparr>
   in mr_conflicts m = []
      \<and> pin_text_lines (known_hosts_text (mr_known_hosts m))
        = [''b ssh-ed25519 HONEST'', ''a ssh-ed25519 AAAA'', ''b ssh-ed25519 OTHER'']"
  by code_simp

text \<open>
  A known-hosts file that cannot be read counts as empty, and is then replaced: every key in it is
  forgotten.
\<close>

lemma unreadable_pins_are_lost:
  assumes "fa_mkdir fa2 = None" "fa_write fa2 = None"
  shows "case apply_payload ij ps (Some e) fa1 fa2 millis n \<lparr>py_hosts = [], py_known_hosts = []\<rparr> hosts d of
     (hosts', d', summary) \<Rightarrow> read_known_hosts None ps d' = []"
proof -
  have "mr_known_hosts (merge (inventory (Some e) ps hosts d) \<lparr>py_hosts = [], py_known_hosts = []\<rparr>) = []"
    by (simp add: merge_def merge_start_def inventory_def read_known_hosts_def)
  moreover have "pin_text_lines (known_hosts_text []) = []" by code_simp
  ultimately show ?thesis
    using written_known_hosts [OF assms, of ps "[]"]
    by (simp add: apply_payload_def Let_def split: prod.split) (metis fst_conv)
qed

end
