(* ===== verification/Desk_Pairing.thy ===== *)
theory Desk_Pairing
  imports Inventory
begin

text \<open>
  Pairing on the desktop (\<open>apps/linux/src/pairing.rs\<close>): on each device a worker talks to the other
  device and tells the screen what happens, and the screen tells the worker whether the person
  found the same six digits on both devices. What the operating system, the network and the person
  answer is gathered in one record for each side.
\<close>

section \<open>The addresses of this device\<close>

text \<open>What asking for the route to one of the four destinations gives.\<close>

datatype probe_end = NoSocket | NoRoute | NoAddress | Local "u8 \<times> u8 \<times> u8 \<times> u8"

fun show_ip :: "u8 \<times> u8 \<times> u8 \<times> u8 \<Rightarrow> string" where
  "show_ip (a, b, c, d) = join ''.'' [show_word a, show_word b, show_word c, show_word d]"

fun local_addresses :: "string list \<Rightarrow> probe_end list \<Rightarrow> string list" where
  "local_addresses found [] = found"
| "local_addresses found (Local ip # probes) =
     (let t = show_ip ip
      in if ip = (0, 0, 0, 0) \<or> ip = (127, 0, 0, 1) \<or> t \<in> set found
         then local_addresses found probes
         else local_addresses (found @ [t]) probes)"
| "local_addresses found (_ # probes) = local_addresses found probes"

section \<open>Receiving\<close>

datatype desk_event = Offer string | Code string | Received payload | Sent | Failed string

text \<open>
  The sides of the receiving worker: why its runtime could not be built, the route of each
  destination, the two sockets, the secret, the salt and the clock of the listener, whether the
  screen still takes the offer, the clock and the exchange when a device connects, whether the
  screen still takes the code, what the person answers to a code, and the bytes that come in.
\<close>

record receive_env =
  re_runtime :: "string option"
  re_probes :: "probe_end list"
  re_v4 :: bind_end
  re_v6 :: "u16 option"
  re_secret :: string
  re_salt :: string
  re_bound_at :: nat
  re_offer_taken :: bool
  re_accept_at :: nat
  re_exchange :: "accept_end option"
  re_code_taken :: bool
  re_answer :: "string \<Rightarrow> bool option"
  re_stop :: read_stop
  re_incoming :: string

definition desk_listener :: "crypto \<Rightarrow> receive_env \<Rightarrow> sync_error + listener" where
  "desk_listener c env =
     listener_bind c (re_v4 env) (re_v6 env) (re_secret env) (re_salt env) (re_bound_at env)
       (local_addresses [] (re_probes env))"

definition take_payload :: "crypto \<Rightarrow> json \<Rightarrow> receive_env \<Rightarrow> pair_session \<Rightarrow> desk_event" where
  "take_payload c j env session =
     (case accept_transfer c (re_stop env) session (re_incoming env) of
        Inl e \<Rightarrow> Failed (sync_error_display e)
      | Inr bytes \<Rightarrow>
          (case from_json j bytes of
             Inl e \<Rightarrow> Failed (sync_error_display e)
           | Inr p \<Rightarrow> Received p))"

text \<open>The events the worker tells, in order.\<close>

definition receive_worker :: "crypto \<Rightarrow> json \<Rightarrow> receive_env \<Rightarrow> desk_event list" where
  "receive_worker c j env =
     (case re_runtime env of
        Some e \<Rightarrow> [Failed e]
      | None \<Rightarrow>
          (case desk_listener c env of
             Inl e \<Rightarrow> [Failed (sync_error_display e)]
           | Inr l \<Rightarrow>
               if \<not> re_offer_taken env then []
               else Offer (offer_encode c (ln_offer l)) #
                 (case listener_accept c (re_accept_at env) (re_exchange env) l of
                    Inl e \<Rightarrow> [Failed (sync_error_display e)]
                  | Inr session \<Rightarrow>
                      if \<not> re_code_taken env then []
                      else Code (verification_code session) #
                        (case re_answer env (verification_code session) of
                           Some True \<Rightarrow> [take_payload c j env session]
                         | _ \<Rightarrow> []))))"

text \<open>What the screen makes of them: a payload to apply, or a problem to report.\<close>

fun receive_screen :: "desk_event list \<Rightarrow> string option \<times> payload option" where
  "receive_screen [] = (None, None)"
| "receive_screen (Offer _ # es) = receive_screen es"
| "receive_screen (Code _ # es) = receive_screen es"
| "receive_screen (Received p # es) = (None, Some p)"
| "receive_screen (Failed e # es) = (Some e, None)"
| "receive_screen (Sent # es) = (None, None)"

text \<open>The saved hosts, the disk and the report shown, as a title and a text.\<close>

definition desk_receive ::
  "crypto \<Rightarrow> json \<Rightarrow> inventory_json \<Rightarrow> paths \<Rightarrow> string option \<Rightarrow> faults \<Rightarrow> faults \<Rightarrow> nat \<Rightarrow> u64
     \<Rightarrow> receive_env \<Rightarrow> saved_host list \<Rightarrow> disk
     \<Rightarrow> saved_host list \<times> disk \<times> (string \<times> string) option" where
  "desk_receive c j ij ps read_fault fa1 fa2 millis n env hosts d =
     (case receive_screen (receive_worker c j env) of
        (_, Some p) \<Rightarrow>
          (case apply_payload ij ps read_fault fa1 fa2 millis n p hosts d of
             (hosts', d', summary) \<Rightarrow> (hosts', d', Some (''Pairing finished'', summary)))
      | (Some e, None) \<Rightarrow> (hosts, d, Some (''Pairing did not finish'', e))
      | (None, None) \<Rightarrow> (hosts, d, None))"

section \<open>Sending\<close>

text \<open>
  The sides of the sending worker: the text typed, why its runtime could not be built, what each
  address answers, whether the screen still takes the code, what the person answers to a code, the
  salt of the sealed message and what becomes of it.
\<close>

record send_env =
  se_text :: string
  se_runtime :: "string option"
  se_net :: "nat \<Rightarrow> string \<times> dial_end option"
  se_code_taken :: bool
  se_answer :: "string \<Rightarrow> bool option"
  se_salt :: string
  se_fate :: wire_end

text \<open>The events, and the sealed inventory when it went out.\<close>

definition give_payload ::
  "crypto \<Rightarrow> json \<Rightarrow> send_env \<Rightarrow> payload \<Rightarrow> pair_session \<Rightarrow> desk_event \<times> string option" where
  "give_payload c j env p session =
     (case to_json j p of
        Inl e \<Rightarrow> (Failed (sync_error_display e), None)
      | Inr bytes \<Rightarrow>
          (case write_payload c (se_salt env) (se_fate env) session bytes of
             Inl e \<Rightarrow> (Failed (sync_error_display e), None)
           | Inr wire \<Rightarrow> (Sent, Some wire)))"

definition send_worker ::
  "crypto \<Rightarrow> json \<Rightarrow> send_env \<Rightarrow> payload \<Rightarrow> offer \<Rightarrow> desk_event list \<times> string option" where
  "send_worker c j env p offer =
     (case se_runtime env of
        Some e \<Rightarrow> ([Failed e], None)
      | None \<Rightarrow>
          (case send_transfer c (se_net env) offer of
             Inl e \<Rightarrow> ([Failed (sync_error_display e)], None)
           | Inr (_, session) \<Rightarrow>
               if \<not> se_code_taken env then ([], None)
               else
                 (case se_answer env (verification_code session) of
                    Some True \<Rightarrow>
                      (case give_payload c j env p session of
                         (e, out) \<Rightarrow> ([Code (verification_code session), e], out))
                  | _ \<Rightarrow> ([Code (verification_code session)], None))))"

fun send_screen :: "desk_event list \<Rightarrow> string option" where
  "send_screen [] = None"
| "send_screen (Sent # es) = None"
| "send_screen (Failed e # es) = Some e"
| "send_screen (_ # es) = send_screen es"

definition desk_send ::
  "crypto \<Rightarrow> json \<Rightarrow> send_env \<Rightarrow> payload \<Rightarrow> (string \<times> string) option \<times> desk_event list \<times> string option" where
  "desk_send c j env p =
     (let t = trim (se_text env)
      in if t = [] then (None, [], None)
         else
           (case offer_decode c t of
              Inl e \<Rightarrow> (Some (''That code could not be read'', sync_error_display e), [], None)
            | Inr offer \<Rightarrow>
                (case send_worker c j env p offer of
                   (es, out) \<Rightarrow>
                     (map_option (Pair ''Pairing did not finish'') (send_screen es), es, out))))"

section \<open>What changes on the receiving device\<close>

lemma receive_screen_payload:
  "snd (receive_screen (receive_worker c j env)) = Some p \<longleftrightarrow>
     re_runtime env = None \<and> re_offer_taken env \<and> re_code_taken env
     \<and> (\<exists>l session. desk_listener c env = Inr l
          \<and> listener_accept c (re_accept_at env) (re_exchange env) l = Inr session
          \<and> re_answer env (verification_code session) = Some True
          \<and> take_payload c j env session = Received p)"
proof -
  have "snd (receive_screen [take_payload c j env session]) = Some p
      \<longleftrightarrow> take_payload c j env session = Received p" for session
    by (cases "take_payload c j env session") simp_all
  then show ?thesis
    by (auto simp: receive_worker_def split: option.splits sum.splits bool.splits)
qed

lemma desk_receive_eq:
  "desk_receive c j ij ps read_fault fa1 fa2 millis n env hosts d =
     (case snd (receive_screen (receive_worker c j env)) of
        Some p \<Rightarrow> (case apply_payload ij ps read_fault fa1 fa2 millis n p hosts d of
                     (hosts', d', summary) \<Rightarrow> (hosts', d', Some (''Pairing finished'', summary)))
      | None \<Rightarrow> (hosts, d, map_option (Pair ''Pairing did not finish'')
                             (fst (receive_screen (receive_worker c j env)))))"
  by (auto simp: desk_receive_def split: prod.splits option.splits)

lemma take_payload_Received:
  "take_payload c j env session = Received p \<longleftrightarrow>
     (\<exists>bytes. accept_transfer c (re_stop env) session (re_incoming env) = Inr bytes
        \<and> from_json j bytes = Inr p)"
  by (simp add: take_payload_def split: sum.splits)

section \<open>Two desktops\<close>

lemma desk_listener_accept:
  assumes "dh_laws c" "desk_listener c ra = Inr l" "re_accept_at ra < re_bound_at ra + 120000"
    "send_transfer c net (ln_offer l) = Inr (i, session)"
  shows "listener_accept c (re_accept_at ra) (Some (PeerKey (cy_public c (fst (net i))))) l = Inr session"
proof -
  from assms(2) obtain hs shown as where l: "offering c (re_secret ra) (re_salt ra) as = (hs, shown)"
    "l = \<lparr>ln_handshake = hs, ln_offer = shown, ln_expires_at = re_bound_at ra + 120000\<rparr>"
    by (auto simp: desk_listener_def listener_bind_def Let_def offer_ttl_secs_def
        split: if_splits bind_end.splits prod.splits)
  then have "handshake_complete c hs (cy_public c (fst (net i))) True = Inr session"
    using send_transfer_session [OF assms(4)] complete_agrees [OF assms(1) l(1)] by simp
  then show ?thesis using assms(3) l(2) by (simp add: listener_accept_def Let_def)
qed

lemma offer_encode_trim:
  assumes "base64_laws c" "offer_ok self"
  shows "trim (offer_encode c self) = offer_encode c self \<and> offer_encode c self \<noteq> []"
proof -
  have "list_all plain_char (cy_b64_encode c bs)" for bs
    using assms(1) by (simp add: base64_laws_def list_all_iff)
  moreover have "list_all plain_char (join '','' (of_addresses self))"
    using assms(2) by (simp add: offer_ok_def join_plain)
  moreover have "list_all plain_char ''1''" by code_simp
  ultimately have "list_all plain_char (offer_encode c self)"
    by (simp add: offer_encode_def show_version separators_plain)
  then show ?thesis
    by (simp add: trim_ws_free plain_ws_free) (simp add: offer_encode_def)
qed

text \<open>
  C39: two desktops pair. When the code one of them shows is copied into the other and the other
  reaches it before the code expires, both screens show the same six digits. While the person at the
  receiving device has not said that they match, nothing changes there; while the person at the
  sending device has not, nothing is sent; and when both have, exactly the inventory of the sending
  device is applied.
\<close>

theorem desk_pairing_confirmed:
  assumes laws: "base64_laws c" "dh_laws c" "aead_laws c" "json_laws j"
    and receiver: "re_runtime ra = None" "desk_listener c ra = Inr l" "offer_ok (ln_offer l)"
      "re_offer_taken ra" "re_code_taken ra" "re_accept_at ra < re_bound_at ra + 120000"
    and sender: "se_text sb = offer_encode c (ln_offer l)" "se_runtime sb = None" "se_code_taken sb"
      "send_transfer c (se_net sb) (ln_offer l) = Inr (i, session)"
    and met: "re_exchange ra = Some (PeerKey (cy_public c (fst (se_net sb i))))"
    and inventory: "to_json j p = Inr bytes" "cy_encrypt c (pr_key session) (se_salt sb) bytes = Some sealed"
      "length (se_salt sb) = 12" "length bytes + 28 \<le> max_transfer" "se_fate sb = Delivered"
    and carried: "case snd (snd (desk_send c j sb p)) of
        Some wire \<Rightarrow> prefix wire (re_incoming ra) | None \<Rightarrow> True"
  shows "\<exists>code. take 2 (receive_worker c j ra) = [Offer (se_text sb), Code code]
      \<and> take 1 (fst (snd (desk_send c j sb p))) = [Code code]
      \<and> (let r = desk_receive c j ij ps read_fault fa1 fa2 millis n ra hosts d
         in if re_answer ra code \<noteq> Some True then r = (hosts, d, None)
            else if se_answer sb code \<noteq> Some True then snd (snd (desk_send c j sb p)) = None
            else case apply_payload ij ps read_fault fa1 fa2 millis n p hosts d of
                   (hosts', d', summary) \<Rightarrow> r = (hosts', d', Some (''Pairing finished'', summary)))"
proof -
  let ?code = "verification_code session"
  have acc: "listener_accept c (re_accept_at ra) (re_exchange ra) l = Inr session"
    unfolding met by (rule desk_listener_accept) (use laws receiver sender in simp_all)
  have worker: "receive_worker c j ra = [Offer (se_text sb), Code ?code]
      @ (case re_answer ra ?code of Some True \<Rightarrow> [take_payload c j ra session] | _ \<Rightarrow> [])"
    using receiver acc sender(1) by (simp add: receive_worker_def)
  have "trim (se_text sb) = se_text sb \<and> se_text sb \<noteq> []"
    unfolding sender(1) by (rule offer_encode_trim [OF laws(1) receiver(3)])
  then have send: "desk_send c j sb p =
      (case send_worker c j sb p (ln_offer l) of
         (es, out) \<Rightarrow> (map_option (Pair ''Pairing did not finish'') (send_screen es), es, out))"
    using offer_decode_encode [OF laws(1) receiver(3)] by (simp add: desk_send_def sender(1))
  have arrives: "\<exists>wire. write_payload c (se_salt sb) Delivered session bytes = Inr wire
      \<and> accept_transfer c (re_stop ra) session (wire @ after) = Inr bytes" for after
    using transfer_arrives [OF laws(3) inventory(3,2), of Delivered "re_stop ra" after] inventory(4)
    unfolding linorder_not_less [symmetric] by (simp only: if_False) blast
  then obtain wire where wire: "write_payload c (se_salt sb) Delivered session bytes = Inr wire"
    by blast
  with arrives have carry: "accept_transfer c (re_stop ra) session (wire @ after) = Inr bytes" for after
    by (metis sum.inject(2))
  have give: "give_payload c j sb p session = (Sent, Some wire)"
    using inventory(1,5) wire by (simp add: give_payload_def)
  have taken: "take_payload c j ra session = Received p" if "se_answer sb ?code = Some True"
  proof -
    have "prefix wire (re_incoming ra)"
      using carried sender that give by (simp add: send send_worker_def)
    then have "accept_transfer c (re_stop ra) session (re_incoming ra) = Inr bytes"
      using carry by (auto simp: prefix_def)
    with laws(4) inventory(1) show ?thesis
      by (auto simp: take_payload_def to_json_def from_json_def json_laws_def split: sum.splits)
  qed
  have sent: "desk_send c j sb p =
      (None, Code ?code # (if se_answer sb ?code = Some True then [Sent] else []),
       if se_answer sb ?code = Some True then Some wire else None)"
    using sender(2-4) by (cases "se_answer sb ?code") (simp_all add: send send_worker_def give)
  have unconfirmed: "desk_receive c j ij ps read_fault fa1 fa2 millis n ra hosts d = (hosts, d, None)"
    if "re_answer ra ?code \<noteq> Some True"
    using that by (cases "re_answer ra ?code") (simp_all add: desk_receive_eq worker)
  show ?thesis
  proof (intro exI [of _ ?code] conjI)
    show "take 2 (receive_worker c j ra) = [Offer (se_text sb), Code ?code]"
      by (simp add: worker)
    show "take 1 (fst (snd (desk_send c j sb p))) = [Code ?code]"
      by (simp add: sent)
    show "let r = desk_receive c j ij ps read_fault fa1 fa2 millis n ra hosts d
         in if re_answer ra ?code \<noteq> Some True then r = (hosts, d, None)
            else if se_answer sb ?code \<noteq> Some True then snd (snd (desk_send c j sb p)) = None
            else case apply_payload ij ps read_fault fa1 fa2 millis n p hosts d of
                   (hosts', d', summary) \<Rightarrow> r = (hosts', d', Some (''Pairing finished'', summary))"
      using unconfirmed taken
      by (simp add: Let_def sent desk_receive_eq worker split: prod.splits)
  qed
qed

section \<open>A pairing that takes place\<close>

definition demo_receive :: "string \<Rightarrow> string \<Rightarrow> receive_env" where
  "demo_receive key incoming =
     \<lparr>re_runtime = None, re_probes = [Local (10, 0, 0, 1), NoRoute], re_v4 = BoundAt 22, re_v6 = None,
      re_secret = ''a'', re_salt = replicate 16 (CHR ''n''), re_bound_at = 5, re_offer_taken = True,
      re_accept_at = 6, re_exchange = Some (PeerKey key), re_code_taken = True,
      re_answer = (\<lambda>code. Some True), re_stop = Stalled, re_incoming = incoming\<rparr>"

definition demo_send :: "offer \<Rightarrow> send_env" where
  "demo_send shown =
     \<lparr>se_text = offer_encode demo_crypto shown, se_runtime = None,
      se_net = (\<lambda>i. (''b'', Some (AnswerKey (of_public_key shown)))), se_code_taken = True,
      se_answer = (\<lambda>code. Some True), se_salt = ''twelve bytes'', se_fate = Delivered\<rparr>"

lemma demo_address: "local_addresses [] [Local (10, 0, 0, 1), NoRoute] = [''10.0.0.1'']"
  by code_simp

lemma desk_pairing_confirmed_witness:
  "\<exists>shown key wire code.
     Code code \<in> set (receive_worker demo_crypto demo_json (demo_receive key wire))
     \<and> desk_receive demo_crypto demo_json demo_inventory_json demo_paths None no_faults no_faults 9 0
         (demo_receive key wire) [] []
       = (case apply_payload demo_inventory_json demo_paths None no_faults no_faults 9 0
                 (payload_of_bundle demo_bundle) [] [] of
            (hosts', d', summary) \<Rightarrow> (hosts', d', Some (''Pairing finished'', summary)))
     \<and> snd (snd (desk_send demo_crypto demo_json (demo_send shown) (payload_of_bundle demo_bundle))) = Some wire"
proof -
  let ?c = demo_crypto and ?j = demo_json and ?p = "payload_of_bundle demo_bundle"
  obtain l session where l:
    "listener_bind ?c (BoundAt 22) None ''a'' (replicate 16 (CHR ''n'')) 5 [''10.0.0.1''] = Inr l"
    "offer_ok (ln_offer l)"
    "send_transfer ?c (\<lambda>i. (''b'', Some (AnswerKey (of_public_key (ln_offer l))))) (ln_offer l) = Inr (0, session)"
    by (rule demo_pairing)
  let ?sb = "demo_send (ln_offer l)" and ?key = "cy_public ?c ''b''"
  have net: "send_transfer ?c (se_net ?sb) (ln_offer l) = Inr (0, session)"
    using l(3) by (simp add: demo_send_def)
  obtain sealed where enc: "cy_encrypt ?c (pr_key session) (se_salt ?sb) ''one host'' = Some sealed"
    using demo_payload(2) by (auto simp: demo_send_def)
  have "trim (se_text ?sb) = se_text ?sb \<and> se_text ?sb \<noteq> []"
    using offer_encode_trim [OF demo_base64 l(2)] by (simp add: demo_send_def)
  moreover obtain wire where "write_payload ?c (se_salt ?sb) Delivered session ''one host'' = Inr wire"
    using transfer_arrives [OF demo_aead _ enc, of Delivered Stalled "[]" "[]"]
    by (auto simp: demo_send_def max_transfer_def)
  ultimately have wire: "snd (snd (desk_send ?c ?j ?sb ?p)) = Some wire"
    using offer_decode_encode [OF demo_base64 l(2)] net demo_payload(1)
    by (simp add: desk_send_def send_worker_def give_payload_def demo_send_def)
  let ?ra = "demo_receive ?key wire"
  have listening: "desk_listener ?c ?ra = Inr l"
    using l(1) by (simp add: desk_listener_def demo_receive_def demo_address del: local_addresses.simps)
  have fields: "re_runtime ?ra = None" "re_offer_taken ?ra" "re_code_taken ?ra" "re_accept_at ?ra = 6"
    "re_bound_at ?ra = 5" "re_incoming ?ra = wire" "re_answer ?ra = (\<lambda>code. Some True)"
    "se_text ?sb = offer_encode ?c (ln_offer l)" "se_runtime ?sb = None" "se_code_taken ?sb"
    "length (se_salt ?sb) = 12" "se_fate ?sb = Delivered" "se_answer ?sb = (\<lambda>code. Some True)"
    by (simp_all add: demo_receive_def demo_send_def)
  have "re_exchange ?ra = Some (PeerKey (cy_public ?c (fst (se_net ?sb 0))))"
    by (simp add: demo_receive_def demo_send_def)
  from desk_pairing_confirmed [OF demo_base64 demo_dh demo_aead demo_json_laws _ listening l(2) _ _ _ _ _ _
      net this demo_payload(1) enc, where ij = demo_inventory_json and ps = demo_paths
      and read_fault = None and ?fa1.0 = no_faults and ?fa2.0 = no_faults and millis = 9 and n = 0
      and hosts = "[]" and d = "[]"]
  obtain code where code: "take 2 (receive_worker ?c ?j ?ra) = [Offer (se_text ?sb), Code code]"
    and result: "case apply_payload demo_inventory_json demo_paths None no_faults no_faults 9 0 ?p [] [] of
      (hosts', d', summary) \<Rightarrow>
        desk_receive ?c ?j demo_inventory_json demo_paths None no_faults no_faults 9 0 ?ra [] []
          = (hosts', d', Some (''Pairing finished'', summary))"
    by (auto simp: wire fields max_transfer_def Let_def)
  have "Code code \<in> set (take 2 (receive_worker ?c ?j ?ra))"
    by (simp add: code)
  then show ?thesis
    using result wire by (intro exI conjI) (auto dest: in_set_takeD split: prod.splits)
qed

end
