(* ===== verification/Desk_Views.thy ===== *)
theory Desk_Views
  imports Inventory
begin

text \<open>
  What the desktop's pages show (\<open>apps/linux/src/palette.rs\<close>, \<open>widgets.rs\<close>, \<open>views.rs\<close>). A widget is
  the text and the CSS classes it carries, a drawing the state its draw function reads; building a
  page and updating it in place are the functions of the source. Layout, sizes and the drawing
  itself are the toolkit's.
\<close>

section \<open>Levels\<close>

type_synonym rgb = "u8 \<times> u8 \<times> u8"

definition accent :: "string \<Rightarrow> rgb" where
  "accent level =
     (if level = ''ok'' then (0x3d, 0xa5, 0x6d)
      else if level = ''busy'' then (0xd9, 0x8a, 0x2b)
      else if level = ''problem'' then (0xd2, 0x4b, 0x4b)
      else if level = ''offline'' then (0x8b, 0x8b, 0x92)
      else if level = ''checking'' then (0x6b, 0x8a, 0xbd)
      else (0x6d, 0x82, 0x9e))"

text \<open>With the opacity in hundredths.\<close>

definition muted :: "string \<Rightarrow> rgb \<times> nat" where "muted level = (accent level, 18)"

definition css_class :: "string \<Rightarrow> string" where
  "css_class level =
     (if level = ''ok'' then ''sg-ok''
      else if level = ''busy'' then ''sg-busy''
      else if level = ''problem'' then ''sg-problem''
      else if level = ''offline'' then ''sg-offline''
      else if level = ''checking'' then ''sg-checking''
      else ''sg-neutral'')"

definition level_classes :: "string set" where
  "level_classes = {''sg-ok'', ''sg-busy'', ''sg-problem'', ''sg-offline'', ''sg-checking'', ''sg-neutral''}"

record text_label =
  lb_text :: string
  lb_classes :: "string set"
  lb_visible :: bool

definition label_new :: "string set \<Rightarrow> text_label" where
  "label_new classes = \<lparr>lb_text = [], lb_classes = classes, lb_visible = True\<rparr>"

definition set_level_class :: "string \<Rightarrow> text_label \<Rightarrow> text_label" where
  "set_level_class level w = w\<lparr>lb_classes := insert (css_class level) (lb_classes w - level_classes)\<rparr>"

section \<open>Rings, bars and sparklines\<close>

datatype shape = Proportion | Capacity | Rate

definition shape_of :: "metric_gauge \<Rightarrow> shape" where
  "shape_of g =
     (case mg_max g of
        Some _ \<Rightarrow> if mg_unit_suffix g = ''%'' then Proportion else Capacity
      | None \<Rightarrow> Rate)"

record ring =
  rg_fraction :: f64
  rg_accent :: rgb
  rg_track :: "rgb \<times> nat"
  rg_value :: text_label
  rg_caption :: text_label

definition ring_new :: ring where
  "ring_new = \<lparr>rg_fraction = f_of_nat 0, rg_accent = accent ''checking'', rg_track = muted ''checking'',
     rg_value = label_new {''sg-tile-value''}, rg_caption = label_new {''sg-tile-name''}\<rparr>"

definition ring_set :: "f64 \<Rightarrow> string \<Rightarrow> string \<Rightarrow> string \<Rightarrow> ring \<Rightarrow> ring" where
  "ring_set fraction level value_text caption self =
     self\<lparr>rg_fraction := f_clamp fraction (f_of_nat 0) (f_of_nat 1), rg_accent := accent level,
          rg_track := muted level,
          rg_value := set_level_class level ((rg_value self)\<lparr>lb_text := value_text\<rparr>),
          rg_caption := (rg_caption self)\<lparr>lb_text := caption, lb_visible := caption \<noteq> []\<rparr>\<rparr>"

record bar =
  br_fraction :: f64
  br_accent :: rgb
  br_track :: "rgb \<times> nat"

definition bar_new :: bar where
  "bar_new = \<lparr>br_fraction = f_of_nat 0, br_accent = accent ''checking'', br_track = muted ''checking''\<rparr>"

definition bar_set :: "f64 \<Rightarrow> string \<Rightarrow> bar \<Rightarrow> bar" where
  "bar_set fraction level self =
     self\<lparr>br_fraction := f_clamp fraction (f_of_nat 0) (f_of_nat 1), br_accent := accent level,
          br_track := muted level\<rparr>"

record spark =
  sp_points :: "f64 list"
  sp_accent :: rgb

definition spark_new :: spark where
  "spark_new = \<lparr>sp_points = [], sp_accent = accent ''none''\<rparr>"

definition spark_set :: "f64 list \<Rightarrow> string \<Rightarrow> spark \<Rightarrow> spark" where
  "spark_set history level self = self\<lparr>sp_points := sparkline_points history, sp_accent := accent level\<rparr>"

record gauge_row =
  gr_label :: text_label
  gr_value :: text_label
  gr_bar :: "bar option"
  gr_spark :: "spark option"

definition gauge_row_set :: "metric_gauge \<Rightarrow> gauge_row \<Rightarrow> gauge_row" where
  "gauge_row_set g self =
     self\<lparr>gr_label := (gr_label self)\<lparr>lb_text := mg_label g\<rparr>,
          gr_value := set_level_class (mg_severity g)
            ((gr_value self)\<lparr>lb_text := format_value (mg_value g) (mg_unit_suffix g) (mg_binary_scaled g)\<rparr>),
          gr_bar := map_option
            (let highest = (case mg_max g of Some v \<Rightarrow> v | None \<Rightarrow> f_of_nat 0)
             in bar_set (if f_lt (f_of_nat 0) highest then f_div (mg_value g) highest else f_of_nat 0)
                  (mg_severity g)) (gr_bar self),
          gr_spark := map_option (spark_set (mg_history g) (mg_severity g)) (gr_spark self)\<rparr>"

definition gauge_row_new :: "metric_gauge \<Rightarrow> gauge_row" where
  "gauge_row_new g =
     gauge_row_set g
       \<lparr>gr_label = label_new {''sg-tile-name''}, gr_value = label_new {''sg-number''},
        gr_bar = (if shape_of g = Rate then None else Some bar_new),
        gr_spark = (if shape_of g = Rate then Some spark_new else None)\<rparr>"

section \<open>The summary page\<close>

record number_tile =
  nt_value :: text_label
  nt_name :: text_label
  nt_spark :: spark

text \<open>One column: a ring, or a number and its trend; below it a summary, found by its name.\<close>

record tile_column =
  co_ring :: "ring option"
  co_number :: "number_tile option"
  co_summary_name :: string
  co_summary :: text_label

text \<open>The rings and the numbers are kept under their metric, as the position of their column.\<close>

record simple_view =
  sw_headline :: text_label
  sw_detail :: text_label
  sw_tiles :: "tile_column list"
  sw_built :: "string list"
  sw_rings :: "(string, nat) hmap"
  sw_numbers :: "(string, nat) hmap"

definition simple_view_new :: simple_view where
  "simple_view_new =
     \<lparr>sw_headline = label_new {''sg-headline''}, sw_detail = label_new {''sg-tile-summary''},
      sw_tiles = [], sw_built = [], sw_rings = [], sw_numbers = []\<rparr>"

definition tile_signature :: "simple_tile \<Rightarrow> string" where
  "tile_signature t = tl_metric t @ '':'' @ show_bool (tl_fraction t \<noteq> None)"

definition tile_column_new :: "simple_tile \<Rightarrow> tile_column" where
  "tile_column_new t =
     \<lparr>co_ring = (if tl_fraction t \<noteq> None then Some ring_new else None),
      co_number =
        (if tl_fraction t \<noteq> None then None
         else Some \<lparr>nt_value = label_new {''sg-tile-value''}, nt_name = label_new {''sg-tile-name''},
                    nt_spark = spark_new\<rparr>),
      co_summary_name = ''summary-'' @ tl_metric t, co_summary = label_new {''sg-tile-summary''}\<rparr>"

definition add_column :: "simple_tile \<Rightarrow> simple_view \<Rightarrow> simple_view" where
  "add_column t self =
     (let i = length (sw_tiles self); self' = self\<lparr>sw_tiles := sw_tiles self @ [tile_column_new t]\<rparr>
      in if tl_fraction t \<noteq> None then self'\<lparr>sw_rings := hm_insert (tl_metric t) i (sw_rings self)\<rparr>
         else self'\<lparr>sw_numbers := hm_insert (tl_metric t) i (sw_numbers self)\<rparr>)"

definition simple_rebuild :: "simple_tile list \<Rightarrow> simple_view \<Rightarrow> simple_view" where
  "simple_rebuild tiles self =
     (fold add_column tiles (self\<lparr>sw_tiles := [], sw_rings := [], sw_numbers := []\<rparr>))
       \<lparr>sw_built := map tile_signature tiles\<rparr>"

definition ring_part :: "simple_tile \<Rightarrow> tile_column \<Rightarrow> tile_column" where
  "ring_part t c =
     c\<lparr>co_ring := map_option
         (ring_set (case tl_fraction t of Some x \<Rightarrow> x | None \<Rightarrow> f_of_nat 0) (tl_level t)
           (tl_value_text t) (tl_name t)) (co_ring c)\<rparr>"

definition number_set :: "simple_tile \<Rightarrow> number_tile \<Rightarrow> number_tile" where
  "number_set t n =
     \<lparr>nt_value = set_level_class (tl_level t) ((nt_value n)\<lparr>lb_text := tl_value_text t\<rparr>),
      nt_name = (nt_name n)\<lparr>lb_text := tl_name t\<rparr>,
      nt_spark = spark_set (tl_history t) (tl_level t) (nt_spark n)\<rparr>"

definition number_part :: "simple_tile \<Rightarrow> tile_column \<Rightarrow> tile_column" where
  "number_part t c = c\<lparr>co_number := map_option (number_set t) (co_number c)\<rparr>"

definition summary_part :: "simple_tile \<Rightarrow> tile_column \<Rightarrow> tile_column" where
  "summary_part t c = c\<lparr>co_summary := (co_summary c)\<lparr>lb_text := tl_summary t\<rparr>\<rparr>"

fun set_summary :: "simple_tile \<Rightarrow> tile_column list \<Rightarrow> tile_column list" where
  "set_summary t [] = []"
| "set_summary t (c # cs) =
     (if co_summary_name c = ''summary-'' @ tl_metric t then summary_part t c # cs
      else c # set_summary t cs)"

definition at_column :: "nat option \<Rightarrow> (tile_column \<Rightarrow> tile_column) \<Rightarrow> tile_column list \<Rightarrow> tile_column list" where
  "at_column i f cs = (case i of Some k \<Rightarrow> cs[k := f (cs ! k)] | None \<Rightarrow> cs)"

definition tile_set :: "simple_tile \<Rightarrow> simple_view \<Rightarrow> simple_view" where
  "tile_set t self =
     self\<lparr>sw_tiles :=
       set_summary t
         (at_column (hm_get (sw_numbers self) (tl_metric t)) (number_part t)
           (at_column (hm_get (sw_rings self) (tl_metric t)) (ring_part t) (sw_tiles self)))\<rparr>"

definition simple_render :: "target_snapshot \<Rightarrow> simple_view \<Rightarrow> simple_view" where
  "simple_render snapshot self =
     (let health = sn_health snapshot;
          self1 = self\<lparr>
            sw_headline := set_level_class (hh_level health) ((sw_headline self)\<lparr>lb_text := hh_headline health\<rparr>),
            sw_detail := (sw_detail self)\<lparr>lb_text := hh_detail health\<rparr>\<rparr>;
          self2 = (if sw_built self1 = map tile_signature (sn_simple_tiles snapshot) then self1
                   else simple_rebuild (sn_simple_tiles snapshot) self1)
      in fold tile_set (sn_simple_tiles snapshot) self2)"

section \<open>The summary page shows the last snapshot\<close>

text \<open>Painting one column with a tile; and the column of a tile on a page made for it alone.\<close>

definition paint :: "simple_tile \<Rightarrow> tile_column \<Rightarrow> tile_column" where
  "paint t c = summary_part t (number_part t (ring_part t c))"

definition column_of :: "simple_tile \<Rightarrow> tile_column" where
  "column_of t = paint t (tile_column_new t)"

lemma set_level_class_set_level_class [simp]:
  "set_level_class l (set_level_class k w) = set_level_class l w"
proof -
  have "css_class k \<in> level_classes" by (simp add: css_class_def level_classes_def)
  then show ?thesis by (auto simp: set_level_class_def)
qed

lemma label_update_commute [simp]:
  "(set_level_class l w)\<lparr>lb_text := t\<rparr> = set_level_class l (w\<lparr>lb_text := t\<rparr>)"
  by (simp add: set_level_class_def)

lemma parts_absorbed:
  "paint t (ring_part u c) = paint t c" "paint t (number_part u c) = paint t c"
  "paint t (summary_part u c) = paint t c"
  by (cases "co_ring c"; cases "co_number c";
      simp add: paint_def ring_part_def number_part_def summary_part_def ring_set_def number_set_def spark_set_def)+

lemma parts_name [simp]:
  "co_summary_name (ring_part t c) = co_summary_name c"
  "co_summary_name (number_part t c) = co_summary_name c"
  "co_summary_name (summary_part t c) = co_summary_name c"
  "co_summary_name (paint t c) = co_summary_name c"
  "co_summary_name (tile_column_new t) = ''summary-'' @ tl_metric t"
  by (simp_all add: ring_part_def number_part_def summary_part_def paint_def tile_column_new_def)

text \<open>A column is fit for a tile when painting it gives what painting a new one gives.\<close>

definition fits :: "tile_column \<Rightarrow> simple_tile \<Rightarrow> bool" where
  "fits c t \<longleftrightarrow> co_summary_name c = ''summary-'' @ tl_metric t
     \<and> (co_ring c = None \<longleftrightarrow> tl_fraction t = None) \<and> (co_number c = None \<longleftrightarrow> tl_fraction t \<noteq> None)
     \<and> (\<forall>u. paint u c = paint u (tile_column_new t))"

lemma parts_kind [simp]:
  "co_ring (ring_part t c) = None \<longleftrightarrow> co_ring c = None" "co_number (ring_part t c) = co_number c"
  "co_number (number_part t c) = None \<longleftrightarrow> co_number c = None" "co_ring (number_part t c) = co_ring c"
  "co_ring (summary_part t c) = co_ring c" "co_number (summary_part t c) = co_number c"
  "co_ring (tile_column_new t) = None \<longleftrightarrow> tl_fraction t = None"
  "co_number (tile_column_new t) = None \<longleftrightarrow> tl_fraction t \<noteq> None"
  by (simp_all add: ring_part_def number_part_def summary_part_def tile_column_new_def)

lemma fits_parts:
  "fits c t \<Longrightarrow> fits (ring_part u c) t" "fits c t \<Longrightarrow> fits (number_part u c) t"
  "fits c t \<Longrightarrow> fits (summary_part u c) t" "fits (tile_column_new t) t"
  by (simp_all add: fits_def parts_absorbed)

lemma fits_set_summary: "list_all2 fits cs ts \<Longrightarrow> list_all2 fits (set_summary u cs) ts"
  by (induction cs ts rule: list_all2_induct) (simp_all add: fits_parts)

lemma fits_at_column:
  assumes "list_all2 fits cs ts" "\<And>c t. fits c t \<Longrightarrow> fits (f c) t"
  shows "list_all2 fits (at_column i f cs) ts"
proof (cases i)
  case (Some k)
  then show ?thesis
    using assms
    by (cases "k < length cs") (auto simp: at_column_def list_all2_conv_all_nth nth_list_update list_update_beyond)
qed (use assms in \<open>simp add: at_column_def\<close>)

text \<open>The state of the page between two snapshots.\<close>

definition page_for :: "simple_tile list \<Rightarrow> simple_view \<Rightarrow> bool" where
  "page_for ts v \<longleftrightarrow>
     sw_built v = map tile_signature ts
     \<and> sw_rings v = sw_rings (simple_rebuild ts v) \<and> sw_numbers v = sw_numbers (simple_rebuild ts v)
     \<and> list_all2 fits (sw_tiles v) ts"

lemma add_column_simps [simp]:
  "sw_tiles (add_column t v) = sw_tiles v @ [tile_column_new t]"
  "sw_built (add_column t v) = sw_built v" "sw_headline (add_column t v) = sw_headline v"
  "sw_detail (add_column t v) = sw_detail v"
  "sw_rings (add_column t v) = (if tl_fraction t \<noteq> None
     then hm_insert (tl_metric t) (length (sw_tiles v)) (sw_rings v) else sw_rings v)"
  "sw_numbers (add_column t v) = (if tl_fraction t \<noteq> None then sw_numbers v
     else hm_insert (tl_metric t) (length (sw_tiles v)) (sw_numbers v))"
  by (simp_all add: add_column_def Let_def)

lemma add_columns [simp]:
  "sw_tiles (fold add_column ts v) = sw_tiles v @ map tile_column_new ts"
  "sw_headline (fold add_column ts v) = sw_headline v" "sw_detail (fold add_column ts v) = sw_detail v"
  by (induction ts arbitrary: v) simp_all

lemma rebuild_columns [simp]:
  "sw_tiles (simple_rebuild ts v) = map tile_column_new ts"
  "sw_built (simple_rebuild ts v) = map tile_signature ts"
  "sw_headline (simple_rebuild ts v) = sw_headline v" "sw_detail (simple_rebuild ts v) = sw_detail v"
  by (simp_all add: simple_rebuild_def)

text \<open>What the positions depend on: the metrics and which tiles have a ring.\<close>

definition tile_kind :: "simple_tile \<Rightarrow> string \<times> bool" where
  "tile_kind t = (tl_metric t, tl_fraction t \<noteq> None)"

lemma positions_of_kinds:
  assumes "map tile_kind ts = map tile_kind us" "length (sw_tiles v) = length (sw_tiles w)"
    "sw_rings v = sw_rings w" "sw_numbers v = sw_numbers w"
  shows "sw_rings (fold add_column ts v) = sw_rings (fold add_column us w)
    \<and> sw_numbers (fold add_column ts v) = sw_numbers (fold add_column us w)"
  using assms
proof (induction ts arbitrary: us v w)
  case (Cons t ts)
  then obtain u us' where u: "us = u # us'" "tile_kind t = tile_kind u" "map tile_kind ts = map tile_kind us'"
    by (cases us) simp_all
  have "length (sw_tiles (add_column t v)) = length (sw_tiles (add_column u w))"
    "sw_rings (add_column t v) = sw_rings (add_column u w)"
    "sw_numbers (add_column t v) = sw_numbers (add_column u w)"
    using u(2) Cons.prems by (auto simp: tile_kind_def)
  from Cons.IH [OF u(3) this] show ?case by (simp add: u(1))
qed simp

lemma rebuild_of_kinds:
  assumes "map tile_kind ts = map tile_kind us"
  shows "sw_rings (simple_rebuild ts v) = sw_rings (simple_rebuild us w)
    \<and> sw_numbers (simple_rebuild ts v) = sw_numbers (simple_rebuild us w)"
  using positions_of_kinds [OF assms] by (simp add: simple_rebuild_def)

lemma signature_kind: "tile_signature t = tile_signature u \<longleftrightarrow> tile_kind t = tile_kind u"
  by (cases "tl_fraction t"; cases "tl_fraction u")
    (simp_all add: tile_signature_def tile_kind_def show_bool_def)

lemma signature_kinds: "map tile_signature ts = map tile_signature us \<longleftrightarrow> map tile_kind ts = map tile_kind us"
proof (induction ts arbitrary: us)
  case (Cons t ts)
  then show ?case by (cases us) (simp_all add: signature_kind)
qed simp

lemma positions_other:
  "k \<notin> tl_metric ` set ts \<Longrightarrow> hm_get (sw_rings (fold add_column ts v)) k = hm_get (sw_rings v) k
     \<and> hm_get (sw_numbers (fold add_column ts v)) k = hm_get (sw_numbers v) k"
  by (induction ts arbitrary: v) (simp_all add: hm_get_insert)

lemma positions:
  assumes "distinct (map tl_metric ts)" "i < length ts"
  shows "hm_get (sw_rings (fold add_column ts v)) (tl_metric (ts ! i))
        = (if tl_fraction (ts ! i) \<noteq> None then Some (length (sw_tiles v) + i)
           else hm_get (sw_rings v) (tl_metric (ts ! i)))
      \<and> hm_get (sw_numbers (fold add_column ts v)) (tl_metric (ts ! i))
        = (if tl_fraction (ts ! i) \<noteq> None then hm_get (sw_numbers v) (tl_metric (ts ! i))
           else Some (length (sw_tiles v) + i))"
  using assms
proof (induction ts arbitrary: v i)
  case (Cons t ts)
  show ?case
  proof (cases i)
    case 0
    then show ?thesis using positions_other [of "tl_metric t" ts "add_column t v"] Cons.prems
      by (simp add: hm_get_insert)
  next
    case (Suc j)
    then have "tl_metric (ts ! j) \<noteq> tl_metric t" using Cons.prems
      by simp (metis image_eqI nth_mem)
    with Suc show ?thesis using Cons.IH [of j "add_column t v"] Cons.prems
      by (auto simp: hm_get_insert)
  qed
qed simp

lemma page_for_rebuild: "page_for ts (simple_rebuild ts v)"
proof -
  have "list_all2 fits (map tile_column_new ts) ts"
    by (simp add: list_all2_conv_all_nth fits_parts)
  then show ?thesis
    using rebuild_of_kinds [of ts ts "simple_rebuild ts v" v] by (simp add: page_for_def)
qed

lemma fits_kind: "tile_kind t = tile_kind u \<Longrightarrow> fits c t \<longleftrightarrow> fits c u"
proof -
  assume k: "tile_kind t = tile_kind u"
  then have "tile_column_new t = tile_column_new u"
    by (simp add: tile_kind_def tile_column_new_def)
  with k show ?thesis
    by (cases "tl_fraction t"; cases "tl_fraction u") (simp_all add: fits_def tile_kind_def)
qed

lemma page_for_kinds:
  assumes "page_for ts v" "map tile_kind ts = map tile_kind us"
  shows "page_for us v"
proof -
  have "list_all2 fits cs ts \<Longrightarrow> map tile_kind ts = map tile_kind us \<Longrightarrow> list_all2 fits cs us" for cs
  proof (induction cs ts arbitrary: us rule: list_all2_induct)
    case (Cons c cs t ts)
    then obtain u us' where "us = u # us'" "tile_kind t = tile_kind u" "map tile_kind ts = map tile_kind us'"
      by (cases us) simp_all
    then show ?case using Cons.IH [of us'] Cons.hyps(1) fits_kind [of t u c] by simp
  qed simp
  then have "list_all2 fits (sw_tiles v) us"
    using assms by (simp add: page_for_def)
  moreover have "map tile_signature ts = map tile_signature us"
    using assms(2) by (simp add: signature_kinds)
  ultimately show ?thesis
    using assms(1) rebuild_of_kinds [OF assms(2), of v v] by (simp add: page_for_def)
qed

lemma page_for_set: "page_for ts v \<Longrightarrow> page_for ts (tile_set u v)"
proof -
  assume p: "page_for ts v"
  have "sw_rings (simple_rebuild ts (tile_set u v)) = sw_rings (simple_rebuild ts v)
    \<and> sw_numbers (simple_rebuild ts (tile_set u v)) = sw_numbers (simple_rebuild ts v)"
    by (rule rebuild_of_kinds) (rule refl)
  with p show ?thesis
    by (simp add: page_for_def tile_set_def fits_set_summary fits_at_column fits_parts)
qed

lemma page_for_sets: "page_for ts v \<Longrightarrow> page_for ts (fold tile_set us v)"
  by (induction us arbitrary: v) (simp_all add: page_for_set)

lemma page_before_sets:
  assumes "page_for ts v"
  shows "\<exists>w. page_for (sn_simple_tiles s) w \<and> simple_render s v = fold tile_set (sn_simple_tiles s) w"
proof -
  let ?us = "sn_simple_tiles s" and ?h = "\<lambda>v. v\<lparr>sw_headline := a, sw_detail := b\<rparr>"
  have same: "page_for ts (v\<lparr>sw_headline := a, sw_detail := b\<rparr>)" for a b
    using assms rebuild_of_kinds [of ts ts "v\<lparr>sw_headline := a, sw_detail := b\<rparr>" v]
    by (simp add: page_for_def)
  have "map tile_kind ts = map tile_kind ?us" if "sw_built v = map tile_signature ?us"
    using that assms by (simp add: page_for_def signature_kinds)
  then have "sw_built v = map tile_signature ?us
      \<Longrightarrow> page_for ?us (v\<lparr>sw_headline := a, sw_detail := b\<rparr>)" for a b
    using page_for_kinds [OF same] by blast
  then show ?thesis
    unfolding simple_render_def Let_def by (intro exI conjI refl) (auto intro: page_for_rebuild)
qed

lemma set_summary_at:
  assumes "i < length cs" "co_summary_name (cs ! i) = ''summary-'' @ tl_metric t"
    "\<And>j. j < i \<Longrightarrow> co_summary_name (cs ! j) \<noteq> ''summary-'' @ tl_metric t"
  shows "set_summary t cs = cs[i := summary_part t (cs ! i)]"
  using assms
proof (induction cs arbitrary: i)
  case (Cons c cs)
  show ?case
  proof (cases i)
    case 0
    then show ?thesis using Cons.prems by simp
  next
    case (Suc j)
    have "co_summary_name c \<noteq> ''summary-'' @ tl_metric t"
      using Cons.prems(3) [of 0] Suc by simp
    moreover have "set_summary t cs = cs[j := summary_part t (cs ! j)]"
      using Cons.IH [of j] Cons.prems(1,2) Cons.prems(3) [of "Suc _"] Suc by fastforce
    ultimately show ?thesis using Suc by simp
  qed
qed simp

text \<open>On a page for tiles with different metrics, setting a tile paints its column.\<close>

lemma tile_set_paints:
  assumes "page_for ts v" "distinct (map tl_metric ts)" "i < length ts"
  shows "tile_set (ts ! i) v = v\<lparr>sw_tiles := (sw_tiles v)[i := paint (ts ! i) (sw_tiles v ! i)]\<rparr>"
proof -
  let ?t = "ts ! i" and ?cs = "sw_tiles v"
  have cols: "length ?cs = length ts" "\<And>j. j < length ts \<Longrightarrow> co_summary_name (?cs ! j) = ''summary-'' @ tl_metric (ts ! j)"
    using assms(1) by (simp_all add: page_for_def list_all2_conv_all_nth fits_def)
  have kind: "co_ring (?cs ! i) = None \<longleftrightarrow> tl_fraction ?t = None" "co_number (?cs ! i) = None \<longleftrightarrow> tl_fraction ?t \<noteq> None"
    using assms(1,3) by (simp_all add: page_for_def list_all2_conv_all_nth fits_def)
  have pos: "hm_get (sw_rings v) (tl_metric ?t) = (if tl_fraction ?t \<noteq> None then Some i else None)"
    "hm_get (sw_numbers v) (tl_metric ?t) = (if tl_fraction ?t \<noteq> None then None else Some i)"
    using assms(1) positions [OF assms(2,3), of "v\<lparr>sw_tiles := [], sw_rings := [], sw_numbers := []\<rparr>"]
    by (simp_all add: page_for_def simple_rebuild_def)
  let ?cs' = "?cs[i := number_part ?t (ring_part ?t (?cs ! i))]"
  have "at_column (hm_get (sw_numbers v) (tl_metric ?t)) (number_part ?t)
      (at_column (hm_get (sw_rings v) (tl_metric ?t)) (ring_part ?t) ?cs) = ?cs'"
  proof (cases "tl_fraction ?t")
    case None
    with kind(1) have "ring_part ?t (?cs ! i) = ?cs ! i" by (simp add: ring_part_def)
    with None show ?thesis by (simp add: pos at_column_def)
  next
    case (Some x)
    with kind(2) have "number_part ?t (ring_part ?t (?cs ! i)) = ring_part ?t (?cs ! i)"
      by (simp add: number_part_def ring_part_def)
    with Some show ?thesis by (simp add: pos at_column_def)
  qed
  moreover have "set_summary ?t ?cs' = ?cs'[i := summary_part ?t (?cs' ! i)]"
  proof (rule set_summary_at)
    fix j
    assume "j < i"
    then have "tl_metric (ts ! j) \<noteq> tl_metric ?t"
      using nth_eq_iff_index_eq [OF assms(2), of j i] assms(3) by simp
    then show "co_summary_name (?cs' ! j) \<noteq> ''summary-'' @ tl_metric ?t"
      using \<open>j < i\<close> assms(3) cols by simp
  qed (use assms(3) cols in simp_all)
  ultimately show ?thesis
    using assms(3) cols(1) by (simp add: tile_set_def paint_def)
qed

lemma set_tiles_paint:
  assumes "page_for ts v" "distinct (map tl_metric ts)" "k \<le> length ts"
  shows "fold tile_set (take k ts) v =
    v\<lparr>sw_tiles := map column_of (take k ts) @ drop k (sw_tiles v)\<rparr>"
  using assms(3)
proof (induction k)
  case (Suc k)
  let ?v = "fold tile_set (take k ts) v"
  have len: "length (sw_tiles v) = length ts" using assms(1) by (simp add: page_for_def list_all2_conv_all_nth)
  have ih: "?v = v\<lparr>sw_tiles := map column_of (take k ts) @ drop k (sw_tiles v)\<rparr>"
    using Suc by simp
  then have here: "sw_tiles ?v ! k = sw_tiles v ! k"
    using Suc.prems len by (simp add: nth_append)
  have "tile_set (ts ! k) ?v = ?v\<lparr>sw_tiles := (sw_tiles ?v)[k := paint (ts ! k) (sw_tiles ?v ! k)]\<rparr>"
    by (rule tile_set_paints [OF page_for_sets [OF assms(1)] assms(2)])
      (use Suc.prems in simp_all)
  moreover have "paint (ts ! k) (sw_tiles v ! k) = column_of (ts ! k)"
    using assms(1) Suc.prems by (simp add: page_for_def list_all2_conv_all_nth fits_def column_of_def)
  ultimately have "tile_set (ts ! k) ?v
      = v\<lparr>sw_tiles := (map column_of (take k ts) @ drop k (sw_tiles v))[k := column_of (ts ! k)]\<rparr>"
    using here by (simp add: ih)
  moreover have "(map column_of (take k ts) @ drop k (sw_tiles v))[k := column_of (ts ! k)]
      = map column_of (take (Suc k) ts) @ drop (Suc k) (sw_tiles v)"
    using Suc.prems len
    by (simp add: take_Suc_conv_app_nth list_update_append Cons_nth_drop_Suc [symmetric])
  ultimately show ?case using Suc.prems by (simp add: take_Suc_conv_app_nth)
qed simp

lemma simple_tiles_metrics: "distinct (map tl_metric (simple_tiles grid all entities))"
proof -
  have m: "tl_metric t = m" if "simple_tile_of grid all entities m = Some t" for m t
    using that by (auto simp: simple_tile_of_def Let_def split: option.splits prod.splits)
  show ?thesis
    by (auto simp: simple_tiles_def tile_order_def map_filter_simps split: option.split dest!: m)
qed

lemma render_parts:
  "sw_headline (simple_render s v) = set_level_class (hh_level (sn_health s)) ((sw_headline v)\<lparr>lb_text := hh_headline (sn_health s)\<rparr>)"
  "sw_detail (simple_render s v) = (sw_detail v)\<lparr>lb_text := hh_detail (sn_health s)\<rparr>"
  "sw_built (simple_render s v) = map tile_signature (sn_simple_tiles s)"
proof -
  have "sw_headline (fold tile_set ts w) = sw_headline w" "sw_detail (fold tile_set ts w) = sw_detail w"
    "sw_built (fold tile_set ts w) = sw_built w" for ts w
    by (induction ts arbitrary: w) (simp_all add: tile_set_def)
  then show
    "sw_headline (simple_render s v) = set_level_class (hh_level (sn_health s)) ((sw_headline v)\<lparr>lb_text := hh_headline (sn_health s)\<rparr>)"
    "sw_detail (simple_render s v) = (sw_detail v)\<lparr>lb_text := hh_detail (sn_health s)\<rparr>"
    "sw_built (simple_render s v) = map tile_signature (sn_simple_tiles s)"
    by (simp_all add: simple_render_def Let_def)
qed

lemma render_tiles:
  assumes "page_for ts v" "distinct (map tl_metric (sn_simple_tiles s))"
  shows "sw_tiles (simple_render s v) = map column_of (sn_simple_tiles s)
    \<and> page_for (sn_simple_tiles s) (simple_render s v)"
proof -
  have "\<exists>w. page_for (sn_simple_tiles s) w \<and> simple_render s v = fold tile_set (sn_simple_tiles s) w"
    by (rule page_before_sets [OF assms(1)])
  then obtain w where w: "page_for (sn_simple_tiles s) w" "simple_render s v = fold tile_set (sn_simple_tiles s) w"
    by blast
  have "length (sw_tiles w) = length (sn_simple_tiles s)"
    using w(1) by (simp add: page_for_def list_all2_conv_all_nth)
  then show ?thesis
    using set_tiles_paint [OF w(1) assms(2) order_refl] page_for_sets [OF w(1), of "sn_simple_tiles s"]
    unfolding w(2) by (intro conjI) simp_all
qed

text \<open>The value a column shows, and the level it is tinted with.\<close>

definition shown_value :: "tile_column \<Rightarrow> text_label option" where
  "shown_value c = (case co_ring c of Some r \<Rightarrow> Some (rg_value r) | None \<Rightarrow> map_option nt_value (co_number c))"

definition page_frame :: "simple_view \<Rightarrow> bool" where
  "page_frame v \<longleftrightarrow> (\<exists>ts. page_for ts v)
     \<and> (\<forall>l t. set_level_class l ((sw_headline v)\<lparr>lb_text := t\<rparr>)
          = set_level_class l ((label_new {''sg-headline''})\<lparr>lb_text := t\<rparr>))
     \<and> (\<forall>t. (sw_detail v)\<lparr>lb_text := t\<rparr> = (label_new {''sg-tile-summary''})\<lparr>lb_text := t\<rparr>)"

lemma page_frame_new: "page_frame simple_view_new"
proof -
  have "page_for [] simple_view_new" by (simp add: page_for_def simple_view_new_def simple_rebuild_def)
  then show ?thesis by (auto simp: page_frame_def simple_view_new_def)
qed

lemma page_frame_render: "page_frame v \<Longrightarrow> page_frame (simple_render s v)"
proof -
  assume p: "page_frame v"
  then obtain ts w where "page_for (sn_simple_tiles s) w" "simple_render s v = fold tile_set (sn_simple_tiles s) w"
    using page_before_sets unfolding page_frame_def by metis
  then have "page_for (sn_simple_tiles s) (simple_render s v)" by (simp add: page_for_sets)
  with p show ?thesis by (auto simp: page_frame_def render_parts)
qed

lemma page_frame_renders: "page_frame v \<Longrightarrow> page_frame (fold simple_render ss v)"
  by (induction ss arbitrary: v) (simp_all add: page_frame_render)

text \<open>
  C40: the summary page updates its widgets in place, and shows the last snapshot all the same, if the
  metrics of its tiles differ, as they do in every snapshot (\<open>simple_tiles_metrics\<close>): whatever
  snapshots came before it, the page is the one a new page would be, nothing of an earlier
  reading left on it, with one column for each tile, its value in the tile's words and level.
\<close>

theorem simple_page_current:
  assumes "distinct (map tl_metric (sn_simple_tiles s))"
  shows "let page = fold simple_render (earlier @ [s]) simple_view_new
         in page = simple_render s simple_view_new
            \<and> lb_text (sw_headline page) = hh_headline (sn_health s)
            \<and> map shown_value (sw_tiles page) =
                map (\<lambda>t. Some (set_level_class (tl_level t)
                  ((label_new {''sg-tile-value''})\<lparr>lb_text := tl_value_text t\<rparr>))) (sn_simple_tiles s)
            \<and> map (\<lambda>c. lb_text (co_summary c)) (sw_tiles page) = map tl_summary (sn_simple_tiles s)"
proof -
  let ?v = "fold simple_render earlier simple_view_new"
  have frames: "page_frame ?v" "page_frame simple_view_new"
    using page_frame_renders [OF page_frame_new] page_frame_new by blast+
  have tiles: "sw_tiles (simple_render s v) = map column_of (sn_simple_tiles s)
      \<and> page_for (sn_simple_tiles s) (simple_render s v)" if "page_frame v" for v
    using that render_tiles [OF _ assms] unfolding page_frame_def by blast
  have "simple_render s ?v = simple_render s simple_view_new"
  proof (rule simple_view.equality)
    show "sw_headline (simple_render s ?v) = sw_headline (simple_render s simple_view_new)"
      "sw_detail (simple_render s ?v) = sw_detail (simple_render s simple_view_new)"
      using frames by (simp_all add: render_parts page_frame_def)
    show "sw_rings (simple_render s ?v) = sw_rings (simple_render s simple_view_new)"
      "sw_numbers (simple_render s ?v) = sw_numbers (simple_render s simple_view_new)"
      using tiles [OF frames(1)] tiles [OF frames(2)] rebuild_of_kinds [OF refl]
      unfolding page_for_def by metis+
  qed (simp_all add: render_parts tiles [OF frames(1)] tiles [OF frames(2)])
  moreover have "shown_value (column_of t) = Some (set_level_class (tl_level t)
      ((label_new {''sg-tile-value''})\<lparr>lb_text := tl_value_text t\<rparr>))" for t
    by (cases "tl_fraction t")
      (simp_all add: shown_value_def column_of_def paint_def summary_part_def number_part_def ring_part_def
        tile_column_new_def ring_set_def number_set_def ring_new_def)
  moreover have "lb_text (co_summary (column_of t)) = tl_summary t" for t
    by (simp add: column_of_def paint_def summary_part_def)
  ultimately show ?thesis
    using tiles [OF frames(2)] by (simp add: render_parts set_level_class_def o_def)
qed

definition demo_tile :: "string \<Rightarrow> f64 option \<Rightarrow> string \<Rightarrow> simple_tile" where
  "demo_tile metric x value_text =
     \<lparr>tl_metric = metric, tl_name = ''Processor'', tl_value_text = value_text, tl_summary = ''Quiet'',
      tl_fraction = x, tl_level = ''ok'', tl_history = []\<rparr>"

definition demo_page :: "simple_tile list \<Rightarrow> target_snapshot" where
  "demo_page tiles = (placeholder ''t1'' ''web'' connection_state.Online)\<lparr>sn_simple_tiles := tiles\<rparr>"

lemma simple_page_current_witness:
  "map (map_option lb_text \<circ> shown_value)
     (sw_tiles (fold simple_render
        [demo_page [demo_tile ''cpu_usage'' None ''12%'', demo_tile ''mem_usage'' None ''1 GiB''],
         demo_page [demo_tile ''cpu_usage'' (Some (f_of_nat 1)) ''100%'', demo_tile ''mem_usage'' None ''2 GiB'']]
        simple_view_new))
   = [Some ''100%'', Some ''2 GiB'']"
proof -
  let ?s = "demo_page [demo_tile ''cpu_usage'' (Some (f_of_nat 1)) ''100%'', demo_tile ''mem_usage'' None ''2 GiB'']"
  have "distinct (map tl_metric (sn_simple_tiles ?s))"
    by (simp add: demo_page_def demo_tile_def)
  from simple_page_current [OF this, of "[demo_page [demo_tile ''cpu_usage'' None ''12%'', demo_tile ''mem_usage'' None ''1 GiB'']]"]
  have "map shown_value (sw_tiles (fold simple_render
        [demo_page [demo_tile ''cpu_usage'' None ''12%'', demo_tile ''mem_usage'' None ''1 GiB''], ?s] simple_view_new))
      = map (\<lambda>t. Some (set_level_class (tl_level t) ((label_new {''sg-tile-value''})\<lparr>lb_text := tl_value_text t\<rparr>)))
          (sn_simple_tiles ?s)"
    unfolding Let_def append.simps by blast
  then have "map (map_option lb_text) (map shown_value (sw_tiles (fold simple_render
        [demo_page [demo_tile ''cpu_usage'' None ''12%'', demo_tile ''mem_usage'' None ''1 GiB''], ?s] simple_view_new)))
      = [Some ''100%'', Some ''2 GiB'']"
    by (simp only:) (simp add: demo_page_def demo_tile_def set_level_class_def)
  then show ?thesis by (simp only: map_map)
qed

section \<open>The process table\<close>

record process_cells =
  pr_command :: text_label
  pr_pid :: text_label
  pr_cpu :: text_label
  pr_memory :: text_label
  pr_bar :: bar

record process_table =
  pt_built :: nat
  pt_cells :: "process_cells list"

definition process_table_new :: process_table where
  "process_table_new = \<lparr>pt_built = 0, pt_cells = []\<rparr>"

definition process_cells_new :: process_cells where
  "process_cells_new =
     \<lparr>pr_command = label_new {}, pr_pid = label_new {''sg-number'', ''sg-dense''},
      pr_cpu = label_new {''sg-number''}, pr_memory = label_new {''sg-number'', ''sg-dense''},
      pr_bar = bar_new\<rparr>"

definition process_cells_set :: "process_view \<Rightarrow> process_cells \<Rightarrow> process_cells" where
  "process_cells_set p self =
     \<lparr>pr_command = (pr_command self)\<lparr>lb_text := pv_command p\<rparr>,
      pr_pid = (pr_pid self)\<lparr>lb_text := ''pid '' @ pv_pid p @ '' '' @ middle_dot @ '' '' @ pv_state p\<rparr>,
      pr_cpu = set_level_class (pv_severity p)
        ((pr_cpu self)\<lparr>lb_text := format_value (pv_cpu_percent p) ''%'' False\<rparr>),
      pr_memory = (pr_memory self)\<lparr>lb_text := format_value (pv_memory_bytes p) ''B'' True\<rparr>,
      pr_bar = bar_set (pv_machine_fraction p) (pv_severity p) (pr_bar self)\<rparr>"

text \<open>Processes and cells are walked together, as far as both go.\<close>

definition process_render :: "target_snapshot \<Rightarrow> process_table \<Rightarrow> process_table" where
  "process_render snapshot self0 =
     (let ps = sn_top_processes snapshot;
          self = (if pt_built self0 \<noteq> length ps
                  then \<lparr>pt_built = length ps, pt_cells = map (\<lambda>_. process_cells_new) ps\<rparr> else self0)
      in self\<lparr>pt_cells := map2 process_cells_set ps (pt_cells self) @ drop (length ps) (pt_cells self)\<rparr>)"

text \<open>
  The table shows the processes of the last snapshot, in its order, whatever was shown before.
\<close>

definition plain_cells :: "process_cells \<Rightarrow> bool" where
  "plain_cells c \<longleftrightarrow> (\<forall>p. process_cells_set p c = process_cells_set p process_cells_new)"

lemma process_cells_set_again: "plain_cells c \<Longrightarrow> plain_cells (process_cells_set p c)"
proof -
  have "process_cells_set q (process_cells_set p c) = process_cells_set q c" for q
    by (simp add: process_cells_set_def bar_set_def)
  then show "plain_cells c \<Longrightarrow> plain_cells (process_cells_set p c)"
    by (simp add: plain_cells_def)
qed

lemma process_table_cells:
  assumes "pt_built v = length (pt_cells v)" "list_all plain_cells (pt_cells v)"
  shows "pt_cells (process_render s v) = map (\<lambda>p. process_cells_set p process_cells_new) (sn_top_processes s)
    \<and> pt_built (process_render s v) = length (sn_top_processes s)"
proof -
  have new: "map2 process_cells_set ps (map (\<lambda>_. process_cells_new) ps)
      = map (\<lambda>p. process_cells_set p process_cells_new) ps" for ps
    by (induction ps) simp_all
  have old: "map2 process_cells_set ps cs = map (\<lambda>p. process_cells_set p process_cells_new) ps"
    if "length ps = length cs" "list_all plain_cells cs" for ps cs
    using that by (induction ps cs rule: list_induct2) (simp_all add: plain_cells_def)
  show ?thesis
    using assms old [of "sn_top_processes s" "pt_cells v"] by (simp add: process_render_def Let_def new)
qed

lemma process_table_current:
  "pt_cells (fold process_render (earlier @ [s]) process_table_new)
     = map (\<lambda>p. process_cells_set p process_cells_new) (sn_top_processes s)"
proof -
  have "pt_built v = length (pt_cells v) \<and> list_all plain_cells (pt_cells v)
      \<Longrightarrow> (let w = fold process_render ss v in pt_built w = length (pt_cells w) \<and> list_all plain_cells (pt_cells w))"
    for ss v
  proof (induction ss arbitrary: v)
    case (Cons s ss)
    have "list_all plain_cells (map (\<lambda>p. process_cells_set p process_cells_new) (sn_top_processes s))"
      by (simp add: list_all_iff process_cells_set_again plain_cells_def [of process_cells_new])
    then show ?case
      using Cons.IH [of "process_render s v"] process_table_cells [of v s] Cons.prems by simp
  qed simp
  then show ?thesis
    using process_table_cells by (simp add: Let_def process_table_new_def)
qed

section \<open>Every reading\<close>

text \<open>
  The rows made since the page was last built, the parts of the page as positions among them, and
  the row each series is updated in.
\<close>

record technical_view =
  tv_facts :: text_label
  tv_errors :: text_label
  tv_headline :: "nat list"
  tv_groups :: "(string \<times> nat list) list"
  tv_entities :: "(string \<times> nat list) list"
  tv_built :: string
  tv_rows :: "(series_id, nat) hmap"
  tv_cells :: "gauge_row list"

definition technical_view_new :: technical_view where
  "technical_view_new =
     \<lparr>tv_facts = label_new {''sg-dense''},
      tv_errors = (label_new {''sg-dense'', ''sg-problem''})\<lparr>lb_visible := False\<rparr>,
      tv_headline = [], tv_groups = [], tv_entities = [], tv_built = [], tv_rows = [], tv_cells = []\<rparr>"

definition technical_signature :: "target_snapshot \<Rightarrow> string" where
  "technical_signature s =
     join ''|''
       (map mg_series_id (sn_gauges s)
        @ concat (map (\<lambda>g. dg_title g # map mg_series_id (dg_gauges g)) (sn_detail_groups s))
        @ concat (map (\<lambda>e. ev_id e # map mg_series_id (ev_gauges e)) (sn_entities s)))"

definition add_row :: "metric_gauge \<Rightarrow> technical_view \<Rightarrow> technical_view" where
  "add_row g v =
     v\<lparr>tv_cells := tv_cells v @ [gauge_row_new g],
       tv_rows := hm_insert (mg_series_id g) (length (tv_cells v)) (tv_rows v)\<rparr>"

definition add_grid :: "metric_gauge list \<Rightarrow> technical_view \<Rightarrow> technical_view \<times> nat list" where
  "add_grid gs v = (fold add_row gs v, [length (tv_cells v)..<length (tv_cells v) + length gs])"

definition add_group :: "detail_group \<Rightarrow> technical_view \<Rightarrow> technical_view" where
  "add_group g v =
     (case add_grid (dg_gauges g) v of (v', grid) \<Rightarrow> v'\<lparr>tv_groups := tv_groups v' @ [(dg_title g, grid)]\<rparr>)"

definition add_entity :: "entity_view \<Rightarrow> technical_view \<Rightarrow> technical_view" where
  "add_entity e v =
     (if ev_gauges e = [] then v
      else
        (case add_grid (ev_gauges e) v of
           (v', grid) \<Rightarrow>
             v'\<lparr>tv_entities := tv_entities v'
                  @ [(ev_display e @ '' '' @ middle_dot @ '' '' @ ev_kind e, grid)]\<rparr>))"

definition technical_rebuild :: "target_snapshot \<Rightarrow> technical_view \<Rightarrow> technical_view" where
  "technical_rebuild s v =
     (case add_grid (sn_gauges s)
        (v\<lparr>tv_headline := [], tv_groups := [], tv_entities := [], tv_rows := [], tv_cells := []\<rparr>) of
        (v', grid) \<Rightarrow>
          fold add_entity (sn_entities s)
            (fold add_group (sn_detail_groups s) (v'\<lparr>tv_headline := grid\<rparr>)))"

definition technical_gauges :: "target_snapshot \<Rightarrow> metric_gauge list" where
  "technical_gauges s =
     sn_gauges s @ concat (map dg_gauges (sn_detail_groups s)) @ concat (map ev_gauges (sn_entities s))"

definition row_set :: "metric_gauge \<Rightarrow> technical_view \<Rightarrow> technical_view" where
  "row_set g v =
     (case hm_get (tv_rows v) (mg_series_id g) of
        Some k \<Rightarrow> v\<lparr>tv_cells := (tv_cells v)[k := gauge_row_set g (tv_cells v ! k)]\<rparr>
      | None \<Rightarrow> v)"

definition technical_facts :: "target_snapshot \<Rightarrow> string" where
  "technical_facts s =
     join ('' '' @ middle_dot @ '' '')
       ((if sn_distro s \<noteq> [] then [sn_distro s] else [])
        @ (if sn_kernel s \<noteq> [] then [''kernel '' @ sn_kernel s] else [])
        @ (if sn_arch s \<noteq> [] then [sn_arch s] else [])
        @ (if sn_cpu_count s > 0 then [show_word (sn_cpu_count s) @ '' cores''] else [])
        @ [show_word (sn_round_trips s) @ '' round trips''])"

definition technical_render :: "target_snapshot \<Rightarrow> technical_view \<Rightarrow> technical_view" where
  "technical_render s v =
     (let v1 = v\<lparr>tv_facts := (tv_facts v)\<lparr>lb_text := technical_facts s\<rparr>,
                 tv_errors :=
                   (if sn_source_errors s = [] then (tv_errors v)\<lparr>lb_visible := False\<rparr>
                    else (tv_errors v)\<lparr>lb_visible := True,
                           lb_text := ''Not read this refresh: '' @ join ''; '' (sn_source_errors s)\<rparr>)\<rparr>;
          v2 = (if tv_built v1 \<noteq> technical_signature s
                then (technical_rebuild s v1)\<lparr>tv_built := technical_signature s\<rparr> else v1)
      in fold row_set (technical_gauges s) v2)"

text \<open>Rows of different series are different rows.\<close>

definition rows_ok :: "technical_view \<Rightarrow> bool" where
  "rows_ok v \<longleftrightarrow>
     (\<forall>a k. hm_get (tv_rows v) a = Some k \<longrightarrow>
        k < length (tv_cells v) \<and> (\<forall>b. hm_get (tv_rows v) b = Some k \<longrightarrow> a = b))"

lemma rows_ok_add: "rows_ok v \<Longrightarrow> rows_ok (fold add_row gs v)"
proof (induction gs arbitrary: v)
  case (Cons g gs)
  have "rows_ok (add_row g v)"
    using Cons.prems by (auto simp: rows_ok_def add_row_def hm_get_insert less_Suc_eq split: if_splits)
  then show ?case using Cons.IH by simp
qed simp

lemma rows_ok_rebuild: "rows_ok (technical_rebuild s v)"
proof -
  have frame: "rows_ok (v\<lparr>tv_headline := a\<rparr>) = rows_ok v" "rows_ok (v\<lparr>tv_groups := b\<rparr>) = rows_ok v"
    "rows_ok (v\<lparr>tv_entities := c\<rparr>) = rows_ok v" for v :: technical_view and a b c
    by (simp_all add: rows_ok_def)
  have "rows_ok w \<Longrightarrow> rows_ok (fold add_group gs w)" for gs w
    by (induction gs arbitrary: w) (simp_all add: add_group_def add_grid_def frame rows_ok_add)
  moreover have "rows_ok w \<Longrightarrow> rows_ok (fold add_entity es w)" for es w
    by (induction es arbitrary: w) (simp_all add: add_entity_def add_grid_def frame rows_ok_add)
  moreover have "rows_ok (v\<lparr>tv_headline := [], tv_groups := [], tv_entities := [], tv_rows := [], tv_cells := []\<rparr>)"
    by (simp add: rows_ok_def)
  ultimately show ?thesis
    by (simp add: technical_rebuild_def add_grid_def frame rows_ok_add)
qed

lemma row_set_rows [simp]:
  "tv_rows (row_set g v) = tv_rows v" "length (tv_cells (row_set g v)) = length (tv_cells v)"
  by (simp_all add: row_set_def split: option.split)

lemma row_sets_rows [simp]:
  "tv_rows (fold row_set gs v) = tv_rows v" "length (tv_cells (fold row_set gs v)) = length (tv_cells v)"
  by (induction gs arbitrary: v) simp_all

definition shows_gauge :: "metric_gauge \<Rightarrow> gauge_row \<Rightarrow> bool" where
  "shows_gauge g r \<longleftrightarrow> lb_text (gr_label r) = mg_label g
     \<and> lb_text (gr_value r) = format_value (mg_value g) (mg_unit_suffix g) (mg_binary_scaled g)"

lemma row_sets_show:
  assumes "rows_ok v" "distinct (map mg_series_id gs)" "g \<in> set gs"
    "hm_get (tv_rows v) (mg_series_id g) = Some k"
  shows "shows_gauge g (tv_cells (fold row_set gs v) ! k)"
  using assms
proof (induction gs arbitrary: v)
  case (Cons h gs)
  have ok: "rows_ok (row_set h v)"
    using Cons.prems(1) by (simp add: rows_ok_def)
  have keep: "tv_cells (fold row_set hs w) ! k = tv_cells w ! k"
    if "rows_ok w" "hm_get (tv_rows w) (mg_series_id g) = Some k" "mg_series_id g \<notin> mg_series_id ` set hs" for hs w
    using that
  proof (induction hs arbitrary: w)
    case (Cons x hs)
    have "tv_cells (row_set x w) ! k = tv_cells w ! k"
      using Cons.prems by (auto simp: row_set_def rows_ok_def nth_list_update split: option.split)
    moreover have "rows_ok (row_set x w)"
      using Cons.prems(1) by (simp add: rows_ok_def)
    ultimately show ?case using Cons.IH [of "row_set x w"] Cons.prems by simp
  qed simp
  show ?case
  proof (cases "h = g")
    case True
    then have "tv_cells (fold row_set gs (row_set h v)) ! k = tv_cells (row_set h v) ! k"
      using keep [OF ok] Cons.prems by simp
    moreover have "k < length (tv_cells v)"
      using Cons.prems(1,4) by (simp add: rows_ok_def)
    then have "shows_gauge g (tv_cells (row_set g v) ! k)"
      using Cons.prems(4) by (simp add: row_set_def shows_gauge_def gauge_row_set_def set_level_class_def)
    ultimately show ?thesis using True by simp
  next
    case False
    then show ?thesis using Cons.IH [OF ok] Cons.prems by simp
  qed
qed simp

text \<open>
  After any snapshots, the row of a reading of the last one shows that reading, under its name.
\<close>

theorem technical_rows_current:
  assumes "distinct (map mg_series_id (technical_gauges s))" "g \<in> set (technical_gauges s)"
    "hm_get (tv_rows (fold technical_render (earlier @ [s]) technical_view_new)) (mg_series_id g) = Some k"
  shows "shows_gauge g (tv_cells (fold technical_render (earlier @ [s]) technical_view_new) ! k)"
proof -
  have frame: "rows_ok (v\<lparr>tv_facts := a, tv_errors := b\<rparr>) = rows_ok v" "rows_ok (v\<lparr>tv_built := c\<rparr>) = rows_ok v"
    for v :: technical_view and a b c
    by (simp_all add: rows_ok_def)
  have step: "\<exists>w. rows_ok w \<and> technical_render s v = fold row_set (technical_gauges s) w" if "rows_ok v" for s v
    unfolding technical_render_def Let_def
    by (rule exI, rule conjI [rotated], rule refl) (simp add: that frame rows_ok_rebuild)
  have "rows_ok v \<Longrightarrow> rows_ok (fold technical_render ss v)" for ss v
  proof (induction ss arbitrary: v)
    case (Cons s ss)
    obtain w where "rows_ok w" "technical_render s v = fold row_set (technical_gauges s) w"
      using step [OF Cons.prems] by blast
    then have "rows_ok (technical_render s v)" by (simp add: rows_ok_def)
    then show ?case using Cons.IH by simp
  qed simp
  moreover have "rows_ok technical_view_new" by (simp add: rows_ok_def technical_view_new_def)
  ultimately obtain w where "rows_ok w"
    "fold technical_render (earlier @ [s]) technical_view_new = fold row_set (technical_gauges s) w"
    using step by (metis fold_append comp_apply fold_simps(1,2))
  with assms show ?thesis by (simp add: row_sets_show)
qed

text \<open>
  The form of a row is not part of what the page is rebuilt on: a reading that gains a maximum
  keeps the sparkline it had without one.
\<close>

lemma technical_row_keeps_form:
  assumes "g = \<lparr>mg_series_id = ''s'', mg_metric = ''m'', mg_label = ''M'', mg_value = f_of_nat 1, mg_max = None,
      mg_unit_suffix = ''B'', mg_binary_scaled = True, mg_history = [], mg_severity = ''none''\<rparr>"
    "s1 = (demo_page [])\<lparr>sn_gauges := [g]\<rparr>" "s2 = (demo_page [])\<lparr>sn_gauges := [g\<lparr>mg_max := Some (f_of_nat 2)\<rparr>]\<rparr>"
  shows "shape_of (g\<lparr>mg_max := Some (f_of_nat 2)\<rparr>) = Capacity
    \<and> map gr_bar (tv_cells (fold technical_render [s1, s2] technical_view_new)) = [None]"
  using assms
  by (simp add: shape_of_def technical_render_def technical_view_new_def technical_signature_def
      technical_rebuild_def technical_gauges_def add_grid_def add_row_def row_set_def gauge_row_new_def
      gauge_row_set_def demo_page_def placeholder_def Let_def hm_get_insert)

end
