(* ===== verification/Desktop.thy ===== *)
theory Desktop
  imports Desk_Pairing Desk_Views
begin

text \<open>
  The desktop window (\<open>apps/linux/src/window.rs\<close>, \<open>command.rs\<close>, \<open>dialogs.rs\<close>): the list of hosts, the
  selected one, the dialogs that are open, the passwords held for this run, and the pages. What the
  toolkit does is taken from its documentation: while a modal dialog is open only the one presented
  last takes input; an insensitive widget sends nothing; and selecting a row that is not selected
  tells the handler of the selection before it returns.
\<close>

section \<open>The command runner\<close>

text \<open>The commands that are under way, with the target each was sent to.\<close>

record command_view =
  cm_enabled :: bool
  cm_output :: string
  cm_status :: text_label
  cm_host :: "string option"
  cm_running :: "(string \<times> string) list"

definition command_view_new :: command_view where
  "command_view_new =
     \<lparr>cm_enabled = True, cm_output = [], cm_status = (label_new {''sg-dense''})\<lparr>lb_visible := False\<rparr>,
      cm_host = None, cm_running = []\<rparr>"

definition command_set_host :: "string option \<Rightarrow> command_view \<Rightarrow> command_view" where
  "command_set_host host_id self =
     (let self' = (if cm_host self \<noteq> host_id
                   then self\<lparr>cm_output := [], cm_status := (cm_status self)\<lparr>lb_visible := False\<rparr>\<rparr> else self)
      in self'\<lparr>cm_host := host_id\<rparr>)"

definition command_report :: "string \<Rightarrow> bool \<Rightarrow> command_view \<Rightarrow> command_view" where
  "command_report message bad self =
     self\<lparr>cm_status := set_level_class (if bad then ''problem'' else ''ok'')
       ((cm_status self)\<lparr>lb_visible := True, lb_text := message\<rparr>)\<rparr>"

definition command_submit :: "engine \<Rightarrow> string \<Rightarrow> command_view \<Rightarrow> command_view" where
  "command_submit en typed self =
     (let command = trim typed
      in if command = [] then self
         else
           (case cm_host self of
              None \<Rightarrow> self
            | Some host_id \<Rightarrow>
                (case engine_target_id host_id en of
                   None \<Rightarrow> command_report ''This server is not connected, so the command was not run.'' True self
                 | Some tid \<Rightarrow>
                     (command_report (''Running'' @ ellipsis) False (self\<lparr>cm_enabled := False\<rparr>))
                       \<lparr>cm_running := cm_running self @ [(tid, command)]\<rparr>)))"

datatype command_answer = CommandDone command_result | CommandFailed sg_error | CommandNotStarted

text \<open>The answer to the oldest command under way.\<close>

definition command_answered :: "command_answer \<Rightarrow> command_view \<Rightarrow> command_view" where
  "command_answered answer self0 =
     (case cm_running self0 of
        [] \<Rightarrow> self0
      | (tid, echo) # rest \<Rightarrow>
          (let self = self0\<lparr>cm_enabled := True, cm_running := rest\<rparr>
           in case answer of
                CommandDone result \<Rightarrow>
                  (let separator = (if cm_output self = [] then [] else [nl])
                   in command_report
                        (''exit '' @ show_int (sint (cr_exit_code result)) @ '' '' @ middle_dot @ '' ''
                          @ show_word (cr_elapsed_ms result) @ '' ms'')
                        (cr_exit_code result \<noteq> 0)
                        (self\<lparr>cm_output := cm_output self @ separator @ ''$ '' @ echo @ [nl] @ cr_output result\<rparr>))
              | CommandFailed e \<Rightarrow> command_report (sg_error_display e) True self
              | CommandNotStarted \<Rightarrow> command_report ''The command could not be started.'' True self))"

section \<open>The form of a host\<close>

definition auth_kinds :: "string list" where "auth_kinds = [''agent'', ''key'', ''password'']"

definition policies :: "string list" where "policies = [''strict'', ''accept_new'', ''accept_any'']"

record host_form =
  hf_address :: string
  hf_user :: string
  hf_port :: u16
  hf_auth :: nat
  hf_key_path :: string
  hf_secret :: string
  hf_policy :: nat
  hf_refresh :: u64

text \<open>Which entry of a choice is selected at first: the first one when the value is unknown.\<close>

fun combo :: "string list \<Rightarrow> string \<Rightarrow> nat" where
  "combo options selected = (if selected \<in> set options then length (takeWhile (\<lambda>v. v \<noteq> selected) options) else 0)"

text \<open>A spin row keeps what it is set to within its range.\<close>

definition form_of :: "saved_host \<Rightarrow> host_form" where
  "form_of h =
     \<lparr>hf_address = sv_address h, hf_user = sv_user h, hf_port = max 1 (sv_port h),
      hf_auth = combo auth_kinds (sv_auth_kind h),
      hf_key_path = (case sv_key_path h of Some p \<Rightarrow> p | None \<Rightarrow> []), hf_secret = [],
      hf_policy = combo policies (sv_host_key_policy h),
      hf_refresh = min (max 250 (sv_refresh_ms h)) 60000\<rparr>"

record host_edit =
  he_host :: saved_host
  he_secret :: "string option"

text \<open>Saving the form over the host it was opened with; without an address nothing is saved.\<close>

definition save_form :: "host_form \<Rightarrow> saved_host \<Rightarrow> host_edit option" where
  "save_form form base =
     (if trim (hf_address form) = [] then None
      else
        (let kind = auth_kinds ! hf_auth form
         in Some
              \<lparr>he_host = base\<lparr>sv_address := trim (hf_address form), sv_user := trim (hf_user form),
                 sv_port := hf_port form, sv_auth_kind := kind,
                 sv_key_path :=
                   (if kind = ''key'' \<and> trim (hf_key_path form) \<noteq> [] then Some (hf_key_path form) else None),
                 sv_host_key_policy := policies ! hf_policy form, sv_refresh_ms := hf_refresh form\<rparr>,
               he_secret = (if kind = ''agent'' \<or> hf_secret form = [] then None else Some (hf_secret form))\<rparr>))"

section \<open>The window\<close>

text \<open>Where the files are, the inventory's text form, and GLib's escaping of markup.\<close>

record desk =
  dk_paths :: paths
  dk_json :: inventory_json
  dk_escape :: "string \<Rightarrow> string"

datatype desk_dialog = PasswordFor saved_host | EditSheet bool saved_host | RemovalSheet saved_host

record side_row =
  sr_title :: string
  sr_subtitle :: string
  sr_dot :: text_label

record window =
  wn_engine :: engine
  wn_hosts :: "saved_host list"
  wn_secrets :: "(string, string) hmap"
  wn_selected :: "string option"
  wn_rows :: "(string, side_row) hmap"
  wn_title :: string
  wn_subtitle :: text_label
  wn_simple :: simple_view
  wn_technical :: technical_view
  wn_processes :: process_table
  wn_command :: command_view
  wn_page :: string
  wn_dialogs :: "desk_dialog list"
  wn_reports :: "(string \<times> string) list"
  wn_disk :: disk

definition host_of :: "string \<Rightarrow> window \<Rightarrow> saved_host option" where
  "host_of host_id w = find (\<lambda>h. sv_id h = host_id) (wn_hosts w)"

definition selected_host :: "window \<Rightarrow> saved_host option" where
  "selected_host w = Option.bind (wn_selected w) (\<lambda>i. host_of i w)"

definition report_problem :: "string \<Rightarrow> string \<Rightarrow> window \<Rightarrow> window" where
  "report_problem heading detail w = w\<lparr>wn_reports := wn_reports w @ [(heading, detail)]\<rparr>"

fun describe :: "connection_state \<Rightarrow> string" where
  "describe connection_state.Idle = ''Not connected''"
| "describe connection_state.Connecting = ''Connecting'' @ ellipsis"
| "describe connection_state.Online = ''Connected''"
| "describe (connection_state.Reconnecting attempt retry_in_ms) =
     ''Reconnecting in '' @ show_word (max (retry_in_ms div 1000) 1) @ ''s''"
| "describe (connection_state.Failed reason recoverable) = ''Not reachable''"

definition refresh_row :: "desk \<Rightarrow> saved_host \<Rightarrow> window \<Rightarrow> window" where
  "refresh_row dk h w =
     (case (engine_snapshot (sv_id h) (wn_engine w), hm_get (wn_rows w) (sv_id h)) of
        (Some sn, Some row) \<Rightarrow>
          (let name = (if sn_display_name sn = [] then saved_label h else sn_display_name sn)
           in w\<lparr>wn_rows := hm_insert (sv_id h)
                  \<lparr>sr_title = dk_escape dk name, sr_subtitle = dk_escape dk (hh_headline (sn_health sn)),
                   sr_dot = set_level_class (hh_level (sn_health sn)) (sr_dot row)\<rparr> (wn_rows w)\<rparr>)
      | _ \<Rightarrow> w)"

text \<open>Both what the rows say and, when the selected host has a snapshot, the title and the pages.\<close>

definition refresh :: "desk \<Rightarrow> window \<Rightarrow> window" where
  "refresh dk w0 =
     (let w = fold (refresh_row dk) (wn_hosts w0) w0
      in case wn_selected w of
           None \<Rightarrow> w
         | Some i \<Rightarrow>
             (case engine_snapshot i (wn_engine w) of
                None \<Rightarrow> w
              | Some sn \<Rightarrow>
                  w\<lparr>wn_title :=
                      (if sn_display_name sn = []
                       then (case host_of i w of Some h \<Rightarrow> saved_label h | None \<Rightarrow> [])
                       else sn_display_name sn),
                    wn_subtitle := set_level_class (hh_level (sn_health sn))
                      ((wn_subtitle w)\<lparr>lb_text := describe (sn_state sn)\<rparr>),
                    wn_simple := simple_render sn (wn_simple w),
                    wn_technical := technical_render sn (wn_technical w),
                    wn_processes := process_render sn (wn_processes w)\<rparr>))"

definition start_host :: "saved_host \<Rightarrow> string option \<Rightarrow> window \<Rightarrow> window" where
  "start_host h secret w =
     (case engine_start h secret (wn_engine w) of
        (en, r) \<Rightarrow>
          (let w' = w\<lparr>wn_engine := en\<rparr>
           in case r of Inl e \<Rightarrow> report_problem ''This server could not be started'' e w' | Inr _ \<Rightarrow> w'))"

definition ensure_started :: "saved_host \<Rightarrow> window \<Rightarrow> window" where
  "ensure_started h w =
     (if engine_is_running (sv_id h) (wn_engine w) then w
      else
        (let needs_secret = sv_auth_kind h \<in> {''password'', ''key''};
             held = hm_get (wn_secrets w) (sv_id h)
         in if needs_secret \<and> held = None \<and> sv_auth_kind h = ''password''
            then w\<lparr>wn_dialogs := PasswordFor h # wn_dialogs w\<rparr>
            else start_host h held w))"

definition select_host :: "desk \<Rightarrow> string \<Rightarrow> window \<Rightarrow> window" where
  "select_host dk host_id w0 =
     (let w = w0\<lparr>wn_selected := Some host_id, wn_page := ''host''\<rparr>
      in case host_of host_id w of
           None \<Rightarrow> w
         | Some h \<Rightarrow>
             refresh dk (ensure_started h
               (w\<lparr>wn_title := saved_label h, wn_command := command_set_host (Some (sv_id h)) (wn_command w)\<rparr>)))"

definition side_row_of :: "desk \<Rightarrow> saved_host \<Rightarrow> side_row" where
  "side_row_of dk h =
     \<lparr>sr_title = dk_escape dk (saved_label h), sr_subtitle = ''port '' @ show_word (sv_port h),
      sr_dot = set_level_class ''checking'' (label_new {})\<rparr>"

text \<open>
  Every row is new, so selecting one tells the handler, which selects the host; and then the host is
  selected once more.
\<close>

definition rebuild_list :: "desk \<Rightarrow> window \<Rightarrow> window" where
  "rebuild_list dk w0 =
     (let hosts = wn_hosts w0;
          w = w0\<lparr>wn_rows := fold (\<lambda>h. hm_insert (sv_id h) (side_row_of dk h)) hosts [],
                 wn_page := (if hosts = [] then ''empty'' else ''host'')\<rparr>
      in if hosts = [] then
           w\<lparr>wn_selected := None, wn_command := command_set_host None (wn_command w), wn_title := [],
             wn_subtitle := (wn_subtitle w)\<lparr>lb_text := []\<rparr>\<rparr>
         else
           (let kept = (case wn_selected w of
                          Some i \<Rightarrow> if \<exists>h \<in> set hosts. sv_id h = i then Some i else None
                        | None \<Rightarrow> None);
                i = (case kept of Some i \<Rightarrow> i | None \<Rightarrow> sv_id (hd hosts))
            in select_host dk i (if i \<in> hm_keys (wn_rows w) then select_host dk i w else w)))"

definition persist :: "desk \<Rightarrow> faults \<Rightarrow> window \<Rightarrow> window" where
  "persist dk fa w =
     (case save (dk_json dk) (dk_paths dk) fa (wn_hosts w) (wn_disk w) of
        (ds, r) \<Rightarrow>
          (let w' = w\<lparr>wn_disk := last ds\<rparr>
           in case r of
                Inl e \<Rightarrow> report_problem ''Your server list could not be saved'' e w'
              | Inr _ \<Rightarrow> w'))"

section \<open>What happens to the window\<close>

definition hold_secret :: "host_edit \<Rightarrow> window \<Rightarrow> window" where
  "hold_secret edit w =
     (case he_secret edit of
        Some s \<Rightarrow> w\<lparr>wn_secrets := hm_insert (sv_id (he_host edit)) s (wn_secrets w)\<rparr>
      | None \<Rightarrow> w)"

definition host_added :: "desk \<Rightarrow> faults \<Rightarrow> host_edit \<Rightarrow> window \<Rightarrow> window" where
  "host_added dk fa edit w0 =
     (let w1 = hold_secret edit w0;
          w2 = persist dk fa (w1\<lparr>wn_hosts := wn_hosts w1 @ [he_host edit]\<rparr>)
      in rebuild_list dk (w2\<lparr>wn_selected := Some (sv_id (he_host edit))\<rparr>))"

text \<open>The first host with the id is replaced.\<close>

fun replace_host :: "saved_host \<Rightarrow> saved_host list \<Rightarrow> saved_host list" where
  "replace_host h [] = []"
| "replace_host h (k # ks) = (if sv_id k = sv_id h then h # ks else k # replace_host h ks)"

definition host_edited :: "desk \<Rightarrow> faults \<Rightarrow> host_edit \<Rightarrow> window \<Rightarrow> window" where
  "host_edited dk fa edit w0 =
     (let w1 = hold_secret edit w0;
          w2 = persist dk fa (w1\<lparr>wn_hosts := replace_host (he_host edit) (wn_hosts w1)\<rparr>);
          secret = hm_get (wn_secrets w2) (sv_id (he_host edit))
      in case engine_restart (he_host edit) secret (wn_engine w2) of
           (en, r) \<Rightarrow>
             (let w3 = w2\<lparr>wn_engine := en\<rparr>
              in rebuild_list dk
                   (case r of
                      Inl e \<Rightarrow> report_problem ''This server could not be started'' e w3
                    | Inr _ \<Rightarrow> w3)))"

definition host_removed :: "desk \<Rightarrow> faults \<Rightarrow> saved_host \<Rightarrow> window \<Rightarrow> window" where
  "host_removed dk fa h w =
     rebuild_list dk
       (persist dk fa
         (w\<lparr>wn_engine := engine_forget (sv_id h) (wn_engine w),
            wn_secrets := hm_remove (sv_id h) (wn_secrets w),
            wn_hosts := filter (\<lambda>k. sv_id k \<noteq> sv_id h) (wn_hosts w),
            wn_selected := None\<rparr>))"

definition password_answered :: "saved_host \<Rightarrow> string \<Rightarrow> string \<Rightarrow> window \<Rightarrow> window" where
  "password_answered h response typed w =
     (if response = ''connect'' then
        (if typed = [] then start_host h None w
         else start_host h (Some typed) (w\<lparr>wn_secrets := hm_insert (sv_id h) typed (wn_secrets w)\<rparr>))
      else w)"

text \<open>
  What the toolkit, the person, the core and the pairing can do to the window, one at a time. A
  transfer hands over the hosts and the files it left.
\<close>

datatype window_event =
    RowPicked string
  | AddClicked nat u64
  | EditClicked
  | RemoveClicked
  | FormSaved host_form faults
  | RemovalAnswered string faults
  | PasswordAnswered string string
  | DialogClosed
  | TransferApplied "saved_host list" disk faults
  | TimerFired
  | TargetMoved string move
  | CommandEntered string
  | CommandReturned command_answer

fun window_step :: "desk \<Rightarrow> window_event \<Rightarrow> window \<Rightarrow> window" where
  "window_step dk (RowPicked i) w = select_host dk i w"
| "window_step dk (AddClicked millis n) w =
     w\<lparr>wn_dialogs := EditSheet False (saved_host_new millis n []) # wn_dialogs w\<rparr>"
| "window_step dk EditClicked w =
     (case selected_host w of
        None \<Rightarrow> w | Some h \<Rightarrow> w\<lparr>wn_dialogs := EditSheet True h # wn_dialogs w\<rparr>)"
| "window_step dk RemoveClicked w =
     (case selected_host w of
        None \<Rightarrow> w | Some h \<Rightarrow> w\<lparr>wn_dialogs := RemovalSheet h # wn_dialogs w\<rparr>)"
| "window_step dk (FormSaved form fa) w =
     (case wn_dialogs w of
        EditSheet editing h # rest \<Rightarrow>
          (case save_form form h of
             None \<Rightarrow> w
           | Some edit \<Rightarrow>
               (if editing then host_edited dk fa edit (w\<lparr>wn_dialogs := rest\<rparr>)
                else host_added dk fa edit (w\<lparr>wn_dialogs := rest\<rparr>)))
      | _ \<Rightarrow> w)"
| "window_step dk (RemovalAnswered response fa) w =
     (case wn_dialogs w of
        RemovalSheet h # rest \<Rightarrow>
          (if response = ''remove'' then host_removed dk fa h (w\<lparr>wn_dialogs := rest\<rparr>)
           else w\<lparr>wn_dialogs := rest\<rparr>)
      | _ \<Rightarrow> w)"
| "window_step dk (PasswordAnswered response typed) w =
     (case wn_dialogs w of
        PasswordFor h # rest \<Rightarrow> password_answered h response typed (w\<lparr>wn_dialogs := rest\<rparr>)
      | _ \<Rightarrow> w)"
| "window_step dk DialogClosed w = w\<lparr>wn_dialogs := tl (wn_dialogs w)\<rparr>"
| "window_step dk (TransferApplied hosts d fa) w =
     rebuild_list dk (persist dk fa (w\<lparr>wn_hosts := hosts, wn_disk := d\<rparr>))"
| "window_step dk TimerFired w = refresh dk w"
| "window_step dk (TargetMoved tid m) w =
     w\<lparr>wn_engine := engine_step (TargetMove tid m) (wn_engine w)\<rparr>"
| "window_step dk (CommandEntered typed) w =
     w\<lparr>wn_command := command_submit (wn_engine w) typed (wn_command w)\<rparr>"
| "window_step dk (CommandReturned answer) w = w\<lparr>wn_command := command_answered answer (wn_command w)\<rparr>"

definition window_new :: "desk \<Rightarrow> faults \<Rightarrow> disk \<Rightarrow> window" where
  "window_new dk fa d =
     (let loaded = load (dk_json dk) (dk_paths dk) fa d;
          w = \<lparr>wn_engine = engine_new (dk_paths dk),
               wn_hosts = (case loaded of Inl _ \<Rightarrow> [] | Inr hosts \<Rightarrow> hosts), wn_secrets = [],
               wn_selected = None, wn_rows = [], wn_title = [], wn_subtitle = label_new {''sg-dense''},
               wn_simple = simple_view_new, wn_technical = technical_view_new,
               wn_processes = process_table_new, wn_command = command_view_new, wn_page = [],
               wn_dialogs = [], wn_reports = [], wn_disk = d\<rparr>
      in rebuild_list dk
           (case loaded of
              Inl problem \<Rightarrow>
                report_problem ''Your server list could not be read''
                  (problem @ [nl, nl] @ ''Nothing has been overwritten. Repair the file before saving changes.'') w
            | Inr _ \<Rightarrow> w))"

text \<open>
  What can happen when: the window's own widgets take input while no dialog is open, and the
  command runner while it is sensitive. A new host has a new id; a transfer only adds hosts, under
  new ids.
\<close>

fun can_happen :: "window_event \<Rightarrow> window \<Rightarrow> bool" where
  "can_happen (RowPicked i) w \<longleftrightarrow> wn_dialogs w = [] \<and> i \<in> hm_keys (wn_rows w)"
| "can_happen (AddClicked millis n) w \<longleftrightarrow>
     wn_dialogs w = [] \<and> new_id millis n \<notin> sv_id ` set (wn_hosts w)"
| "can_happen EditClicked w \<longleftrightarrow> wn_dialogs w = []"
| "can_happen RemoveClicked w \<longleftrightarrow> wn_dialogs w = []"
| "can_happen (TransferApplied hosts d fa) w \<longleftrightarrow>
     prefix (wn_hosts w) hosts \<and> distinct (map sv_id hosts)
     \<and> list_all (\<lambda>x. case x of EditSheet False h \<Rightarrow> sv_id h \<notin> sv_id ` set hosts | _ \<Rightarrow> True) (wn_dialogs w)"
| "can_happen (CommandEntered typed) w \<longleftrightarrow> wn_dialogs w = [] \<and> cm_enabled (wn_command w)"
| "can_happen _ w \<longleftrightarrow> True"

inductive window_run :: "desk \<Rightarrow> nat \<Rightarrow> window \<Rightarrow> bool" for dk where
  opened: "distinct (map sv_id (case load (dk_json dk) (dk_paths dk) fa d of Inl _ \<Rightarrow> [] | Inr hosts \<Rightarrow> hosts))
    \<Longrightarrow> window_run dk 0 (window_new dk fa d)"
| happened: "window_run dk k w \<Longrightarrow> can_happen e w \<Longrightarrow> window_run dk (Suc k) (window_step dk e w)"

section \<open>The settings a host runs under\<close>

definition engine_config :: "string \<Rightarrow> engine \<Rightarrow> target_config option" where
  "engine_config host_id en =
     Option.bind (hm_get (en_targets en) host_id)
       (\<lambda>tid. map_option (\<lambda>sy. tg_config (sy_target sy)) (hm_get (sg_targets (en_core en)) tid))"

lemma start_poll_config [simp]: "tg_config (sy_target (start_poll sy)) = tg_config (sy_target sy)"
  by (simp add: start_poll_def Let_def)

lemma system_move_config: "tg_config (sy_target (system_move m sy)) = tg_config (sy_target sy)"
proof (cases m)
  case (LoopMove i inp)
  show ?thesis
  proof (cases rule: loop_move_cases [of i inp sy])
    case (2 tg p)
    then show ?thesis using LoopMove poll_step_target by simp
  qed (use LoopMove in simp)
qed (simp_all add: stop_poll_def Let_def)

lemma engine_config_move: "engine_config x (engine_step (TargetMove tid m) en) = engine_config x en"
  by (auto simp: engine_config_def move_target_def system_move_config hm_get_insert
      split: option.splits bind_splits)

lemma engine_start_known_hosts [simp]: "en_known_hosts (fst (engine_start h secret en)) = en_known_hosts en"
  by (simp add: engine_start_def Let_def split: prod.split)

lemma engine_forget_known_hosts [simp]: "en_known_hosts (engine_forget i en) = en_known_hosts en"
  by (simp add: engine_forget_def split: option.split)

lemma engine_start_keys: "hm_keys (en_targets (fst (engine_start h secret en))) = insert (sv_id h) (hm_keys (en_targets en))"
  by (auto simp: engine_start_def Let_def map_simps split: prod.split)

lemma engine_forget_keys: "hm_keys (en_targets (engine_forget i en)) = hm_keys (en_targets en) - {i}"
  by (auto simp: engine_forget_def map_simps hm_keys_dom split: option.split)

lemma engine_target_known:
  "engine_ok k en \<Longrightarrow> hm_get (en_targets en) x = Some tid \<Longrightarrow> tid \<in> hm_keys (sg_targets (en_core en))"
  unfolding engine_ok_def by (metis imageI list.set_map map_of_SomeD snd_conv)

lemma engine_config_start:
  assumes "engine_ok k en" "Suc k < 2 ^ 64"
  shows "engine_config x (fst (engine_start h secret en)) =
    (if x = sv_id h \<and> x \<notin> hm_keys (en_targets en) then Some (saved_config secret (en_known_hosts en) h)
     else engine_config x en)"
proof (cases "sv_id h \<in> hm_keys (en_targets en)")
  case False
  let ?config = "saved_config secret (en_known_hosts en) h" and ?core = "en_core en"
  let ?tid = "''t'' @ show_word (sg_next_id ?core + 1)"
  have "ids_issued ?core" using assms(1) by (simp add: engine_ok_def)
  then have fresh: "?tid \<notin> hm_keys (sg_targets ?core)"
    using add_target_fresh [OF _ engine_next_id [OF assms], of ?config] by (simp add: add_target_def Let_def)
  have started: "fst (engine_start h secret en) =
      en\<lparr>en_core := ?core\<lparr>
           sg_targets := hm_insert ?tid (start_poll (system_new ?tid ?config))
             (hm_insert ?tid (system_new ?tid ?config) (sg_targets ?core)),
           sg_next_id := sg_next_id ?core + 1\<rparr>,
         en_targets := hm_insert (sv_id h) ?tid (en_targets en)\<rparr>"
    using False by (simp add: engine_start_def add_target_def start_target_def find_target_def Let_def hm_get_insert)
  have other: "tid \<noteq> ?tid" if "hm_get (en_targets en) x = Some tid" for tid
    using engine_target_known [OF assms(1) that] fresh by blast
  show ?thesis
    using False other
    by (cases "hm_get (en_targets en) x")
      (auto simp: started engine_config_def hm_get_insert system_new_def hm_keys_dom)
qed (auto simp: engine_start_def)

lemma engine_config_forget:
  assumes "engine_ok k en" "x \<noteq> i"
  shows "engine_config x (engine_forget i en) = engine_config x en"
proof (cases "hm_get (en_targets en) i")
  case (Some tid)
  from engine_target_known [OF assms(1) Some] obtain sy where sy: "hm_get (sg_targets (en_core en)) tid = Some sy"
    unfolding hm_keys_dom by blast
  have forgot: "engine_forget i en =
      en\<lparr>en_targets := hm_remove i (en_targets en),
         en_core := (en_core en)\<lparr>sg_targets := hm_remove tid (hm_insert tid (stop_poll sy) (sg_targets (en_core en)))\<rparr>\<rparr>"
    by (simp add: engine_forget_def Some remove_target_def stop_target_def find_target_def sy)
  have "t \<noteq> tid" if "hm_get (en_targets en) x = Some t" for t
  proof
    assume "t = tid"
    with that Some have "(x, tid) \<in> set (en_targets en)" "(i, tid) \<in> set (en_targets en)"
      by (simp_all add: map_of_SomeD)
    with assms show False
      unfolding engine_ok_def distinct_map inj_on_def by force
  qed
  then show ?thesis
    using assms(2)
    by (auto simp: forgot engine_config_def map_simps split: bind_splits)
qed (simp add: engine_forget_def)

section \<open>The invariant of the window\<close>

text \<open>
  The engine runs listed hosts only, each under the settings it has now; n bounds the ids given out.
\<close>

definition engine_current :: "string \<Rightarrow> nat \<Rightarrow> saved_host list \<Rightarrow> engine \<Rightarrow> bool" where
  "engine_current kh n hosts en \<longleftrightarrow>
     engine_ok n en \<and> en_known_hosts en = kh \<and> hm_keys (en_targets en) \<subseteq> sv_id ` set hosts
     \<and> (\<forall>h \<in> set hosts. sv_id h \<in> hm_keys (en_targets en)
          \<longrightarrow> (\<exists>secret. engine_config (sv_id h) en = Some (saved_config secret kh h)))"

lemma engine_current_start:
  assumes "engine_current kh n hosts en" "distinct (map sv_id hosts)" "h \<in> set hosts" "Suc n < 2 ^ 64"
  shows "engine_current kh (Suc n) hosts (fst (engine_start h secret en))"
proof -
  have same: "k = h" if "k \<in> set hosts" "sv_id k = sv_id h" for k
    using that assms(2,3) by (simp add: distinct_map inj_on_def)
  have ok: "engine_ok n en" and kh: "en_known_hosts en = kh" using assms(1) by (simp_all add: engine_current_def)
  have "\<exists>s. engine_config (sv_id k) (fst (engine_start h secret en)) = Some (saved_config s kh k)"
    if k: "k \<in> set hosts" "sv_id k \<in> insert (sv_id h) (hm_keys (en_targets en))" for k
  proof (cases "sv_id k = sv_id h \<and> sv_id k \<notin> hm_keys (en_targets en)")
    case True
    then show ?thesis
      unfolding engine_config_start [OF ok assms(4)] kh using same [OF k(1)] by auto
  next
    case False
    then have "sv_id k \<in> hm_keys (en_targets en)" using k(2) by (metis insertE)
    with assms(1) k(1) False show ?thesis
      unfolding engine_config_start [OF ok assms(4)] engine_current_def if_not_P [OF False] by blast
  qed
  moreover have "engine_ok (Suc n) (fst (engine_start h secret en))"
    using engine_start_ok [OF ok assms(4)] .
  moreover have "hm_keys (en_targets (fst (engine_start h secret en))) \<subseteq> sv_id ` set hosts"
    unfolding engine_start_keys using assms(1,3) by (simp add: engine_current_def)
  ultimately show ?thesis
    unfolding engine_current_def engine_start_keys by (simp add: kh)
qed

lemma engine_ok_mono: "engine_ok n en \<Longrightarrow> n \<le> m \<Longrightarrow> engine_ok m en"
  by (auto simp: engine_ok_def)

lemma engine_current_mono: "engine_current kh n hosts en \<Longrightarrow> n \<le> m \<Longrightarrow> engine_current kh m hosts en"
  using engine_ok_mono unfolding engine_current_def by blast

fun dialog_ok :: "saved_host list \<Rightarrow> desk_dialog \<Rightarrow> bool" where
  "dialog_ok hosts (EditSheet False h) \<longleftrightarrow> sv_id h \<notin> sv_id ` set hosts"
| "dialog_ok hosts (EditSheet True h) \<longleftrightarrow> h \<in> set hosts"
| "dialog_ok hosts (RemovalSheet h) \<longleftrightarrow> h \<in> set hosts"
| "dialog_ok hosts (PasswordFor h) \<longleftrightarrow> h \<in> set hosts"

text \<open>Over the dialog a person opened there are at most questions for passwords.\<close>

fun dialogs_ok :: "saved_host list \<Rightarrow> desk_dialog list \<Rightarrow> bool" where
  "dialogs_ok hosts [] \<longleftrightarrow> True"
| "dialogs_ok hosts [x] \<longleftrightarrow> dialog_ok hosts x"
| "dialogs_ok hosts (PasswordFor h # xs) \<longleftrightarrow> h \<in> set hosts \<and> dialogs_ok hosts xs"
| "dialogs_ok hosts (_ # xs) \<longleftrightarrow> False"

lemma dialogs_ok_password: "dialogs_ok hosts (PasswordFor h # xs) \<longleftrightarrow> h \<in> set hosts \<and> dialogs_ok hosts xs"
  by (cases xs) simp_all

lemma dialogs_ok_sheet:
  "dialogs_ok hosts (EditSheet b h # xs) \<longleftrightarrow> xs = [] \<and> dialog_ok hosts (EditSheet b h)"
  "dialogs_ok hosts (RemovalSheet h # xs) \<longleftrightarrow> xs = [] \<and> h \<in> set hosts"
  by (cases xs; simp)+

lemma dialogs_ok_tl: "dialogs_ok hosts xs \<Longrightarrow> dialogs_ok hosts (tl xs)"
  by (induction hosts xs rule: dialogs_ok.induct) simp_all

definition window_core :: "desk \<Rightarrow> nat \<Rightarrow> window \<Rightarrow> bool" where
  "window_core dk n w \<longleftrightarrow>
     engine_current (pt_known_hosts (dk_paths dk)) n (wn_hosts w) (wn_engine w)
     \<and> distinct (map sv_id (wn_hosts w)) \<and> hm_keys (wn_secrets w) \<subseteq> sv_id ` set (wn_hosts w)
     \<and> dialogs_ok (wn_hosts w) (wn_dialogs w)"

text \<open>The sidebar has a row for each host, and one is selected when there is any.\<close>

definition window_listed :: "window \<Rightarrow> bool" where
  "window_listed w \<longleftrightarrow>
     hm_keys (wn_rows w) = sv_id ` set (wn_hosts w) \<and> (wn_selected w = None \<longleftrightarrow> wn_hosts w = [])
     \<and> (\<forall>i. wn_selected w = Some i \<longrightarrow> i \<in> sv_id ` set (wn_hosts w))"

lemma window_core_same:
  assumes "window_core dk n w" "wn_engine w' = wn_engine w" "wn_hosts w' = wn_hosts w"
    "wn_secrets w' = wn_secrets w" "wn_dialogs w' = wn_dialogs w"
  shows "window_core dk n w'"
  using assms by (simp add: window_core_def)

lemma refresh_row_fields [simp]:
  "wn_engine (refresh_row dk h w) = wn_engine w" "wn_hosts (refresh_row dk h w) = wn_hosts w"
  "wn_secrets (refresh_row dk h w) = wn_secrets w" "wn_dialogs (refresh_row dk h w) = wn_dialogs w"
  "wn_selected (refresh_row dk h w) = wn_selected w" "wn_disk (refresh_row dk h w) = wn_disk w"
  "hm_keys (wn_rows (refresh_row dk h w)) = hm_keys (wn_rows w)"
proof -
  have "hm_get (wn_rows w) (sv_id h) = Some r \<Longrightarrow> insert (sv_id h) (hm_keys (wn_rows w)) = hm_keys (wn_rows w)" for r
    unfolding hm_keys_dom by auto
  then show "hm_keys (wn_rows (refresh_row dk h w)) = hm_keys (wn_rows w)"
    by (simp add: refresh_row_def hm_keys_insert Let_def split: option.split)
qed (simp_all add: refresh_row_def Let_def split: option.split)

lemma refresh_rows_fields [simp]:
  "wn_engine (fold (refresh_row dk) hs w) = wn_engine w" "wn_hosts (fold (refresh_row dk) hs w) = wn_hosts w"
  "wn_secrets (fold (refresh_row dk) hs w) = wn_secrets w" "wn_dialogs (fold (refresh_row dk) hs w) = wn_dialogs w"
  "wn_selected (fold (refresh_row dk) hs w) = wn_selected w" "wn_disk (fold (refresh_row dk) hs w) = wn_disk w"
  "hm_keys (wn_rows (fold (refresh_row dk) hs w)) = hm_keys (wn_rows w)"
  by (induction hs arbitrary: w) (simp_all del: hm_keys_dom)

lemma refresh_fields [simp]:
  "wn_engine (refresh dk w) = wn_engine w" "wn_hosts (refresh dk w) = wn_hosts w"
  "wn_secrets (refresh dk w) = wn_secrets w" "wn_dialogs (refresh dk w) = wn_dialogs w"
  "wn_selected (refresh dk w) = wn_selected w" "wn_disk (refresh dk w) = wn_disk w"
  "hm_keys (wn_rows (refresh dk w)) = hm_keys (wn_rows w)"
  by (simp_all add: refresh_def Let_def split: option.split)

lemma start_host_fields [simp]:
  "wn_engine (start_host h s w) = fst (engine_start h s (wn_engine w))" "wn_hosts (start_host h s w) = wn_hosts w"
  "wn_secrets (start_host h s w) = wn_secrets w" "wn_dialogs (start_host h s w) = wn_dialogs w"
  "wn_selected (start_host h s w) = wn_selected w" "wn_disk (start_host h s w) = wn_disk w"
  "wn_rows (start_host h s w) = wn_rows w"
  by (simp_all add: start_host_def report_problem_def Let_def split: prod.split sum.split)

lemma ensure_started_fields [simp]:
  "wn_hosts (ensure_started h w) = wn_hosts w" "wn_secrets (ensure_started h w) = wn_secrets w"
  "wn_selected (ensure_started h w) = wn_selected w" "wn_disk (ensure_started h w) = wn_disk w"
  "wn_rows (ensure_started h w) = wn_rows w"
  by (simp_all add: ensure_started_def Let_def)

lemma start_host_core:
  assumes "window_core dk n w" "h \<in> set (wn_hosts w)" "Suc n < 2 ^ 64"
  shows "window_core dk (Suc n) (start_host h s w)"
  using assms engine_current_start [of _ n "wn_hosts w" "wn_engine w" h s] by (simp add: window_core_def)

lemma ensure_started_core:
  assumes "window_core dk n w" "h \<in> set (wn_hosts w)" "Suc n < 2 ^ 64"
  shows "window_core dk (Suc n) (ensure_started h w)"
proof -
  have "window_core dk (Suc n) w"
    using assms(1) engine_current_mono [of _ n _ _ "Suc n"] by (simp add: window_core_def)
  moreover from this have "window_core dk (Suc n) (w\<lparr>wn_dialogs := PasswordFor h # wn_dialogs w\<rparr>)"
    using assms(2) by (simp add: window_core_def dialogs_ok_password)
  ultimately show ?thesis
    using start_host_core [OF assms] by (simp add: ensure_started_def Let_def)
qed

lemma host_of_Some: "host_of i w = Some h \<Longrightarrow> h \<in> set (wn_hosts w) \<and> sv_id h = i"
  by (auto simp: host_of_def find_Some_iff)

lemma select_host_fields [simp]:
  "wn_hosts (select_host dk i w) = wn_hosts w" "wn_secrets (select_host dk i w) = wn_secrets w"
  "wn_selected (select_host dk i w) = Some i" "wn_disk (select_host dk i w) = wn_disk w"
  "hm_keys (wn_rows (select_host dk i w)) = hm_keys (wn_rows w)"
  by (simp_all add: select_host_def Let_def split: option.split)

lemma select_host_core:
  assumes "window_core dk n w" "Suc n < 2 ^ 64"
  shows "window_core dk (Suc n) (select_host dk i w)"
proof (cases "host_of i w")
  case None
  then show ?thesis
    using assms(1) engine_current_mono [of _ n _ _ "Suc n"]
    by (simp add: select_host_def Let_def window_core_def host_of_def)
next
  case (Some h)
  let ?w = "w\<lparr>wn_selected := Some i, wn_page := ''host'', wn_title := saved_label h,
    wn_command := command_set_host (Some (sv_id h)) (wn_command w)\<rparr>"
  have "window_core dk n ?w" using assms(1) by (rule window_core_same) simp_all
  then have "window_core dk (Suc n) (ensure_started h ?w)"
    by (rule ensure_started_core) (use host_of_Some [OF Some] assms(2) in simp_all)
  then have "window_core dk (Suc n) (refresh dk (ensure_started h ?w))"
    by (rule window_core_same) simp_all
  with Some show ?thesis by (simp add: select_host_def Let_def host_of_def)
qed

lemma row_keys: "hm_keys (fold (\<lambda>h. hm_insert (sv_id h) (f h)) hosts m) = sv_id ` set hosts \<union> hm_keys m"
  by (induction hosts arbitrary: m) (simp_all add: hm_keys_insert del: hm_keys_dom)

lemma rebuild_list_fields [simp]:
  "wn_hosts (rebuild_list dk w) = wn_hosts w" "wn_secrets (rebuild_list dk w) = wn_secrets w"
  "wn_disk (rebuild_list dk w) = wn_disk w"
  by (simp_all add: rebuild_list_def Let_def)

lemma rebuild_list_core:
  assumes "window_core dk n w" "n + 2 < 2 ^ 64"
  shows "window_core dk (n + 2) (rebuild_list dk w) \<and> window_listed (rebuild_list dk w)"
proof -
  let ?rows = "fold (\<lambda>h. hm_insert (sv_id h) (side_row_of dk h)) (wn_hosts w) []"
  let ?w = "w\<lparr>wn_rows := ?rows, wn_page := (if wn_hosts w = [] then ''empty'' else ''host'')\<rparr>"
  have keys: "hm_keys ?rows = sv_id ` set (wn_hosts w)" by (simp add: row_keys)
  have core: "window_core dk n ?w" using assms(1) by (rule window_core_same) simp_all
  show ?thesis
  proof (cases "wn_hosts w = []")
    case True
    let ?e = "?w\<lparr>wn_selected := None, wn_command := command_set_host None (wn_command ?w), wn_title := [],
      wn_subtitle := (wn_subtitle ?w)\<lparr>lb_text := []\<rparr>\<rparr>"
    have r: "rebuild_list dk w = ?e" using True by (simp add: rebuild_list_def Let_def)
    have "window_core dk n ?e" using core by (rule window_core_same) simp_all
    then have "window_core dk (n + 2) ?e"
      using engine_current_mono [of _ n _ _ "n + 2"] by (simp add: window_core_def)
    with True keys show ?thesis unfolding r by (simp add: window_listed_def)
  next
    case False
    then obtain i where i: "i \<in> sv_id ` set (wn_hosts w)" "rebuild_list dk w = select_host dk i (select_host dk i ?w)"
    proof -
      let ?kept = "case wn_selected w of
        Some i \<Rightarrow> if \<exists>h \<in> set (wn_hosts w). sv_id h = i then Some i else None | None \<Rightarrow> None"
      let ?i = "case ?kept of Some i \<Rightarrow> i | None \<Rightarrow> sv_id (hd (wn_hosts w))"
      have "?i \<in> sv_id ` set (wn_hosts w)"
        using False by (auto split: option.split)
      moreover from this have "?i \<in> hm_keys (wn_rows ?w)"
        by (simp add: keys)
      then have "rebuild_list dk w = select_host dk ?i (select_host dk ?i ?w)"
        using False by (simp add: rebuild_list_def Let_def del: hm_keys_dom)
      ultimately show ?thesis by (rule that)
    qed
    have "window_core dk (Suc n) (select_host dk i ?w)"
      by (rule select_host_core [OF core]) (use assms(2) in simp)
    then have "window_core dk (Suc (Suc n)) (select_host dk i (select_host dk i ?w))"
      by (rule select_host_core) (use assms(2) in simp)
    with False i keys show ?thesis
      by (simp add: window_listed_def)
  qed
qed

lemma report_problem_fields [simp]:
  "wn_engine (report_problem a b w) = wn_engine w" "wn_hosts (report_problem a b w) = wn_hosts w"
  "wn_secrets (report_problem a b w) = wn_secrets w" "wn_dialogs (report_problem a b w) = wn_dialogs w"
  "wn_disk (report_problem a b w) = wn_disk w"
  by (simp_all add: report_problem_def)

lemma persist_fields [simp]:
  "wn_engine (persist dk fa w) = wn_engine w" "wn_hosts (persist dk fa w) = wn_hosts w"
  "wn_secrets (persist dk fa w) = wn_secrets w" "wn_dialogs (persist dk fa w) = wn_dialogs w"
  "wn_disk (persist dk fa w) = last (fst (save (dk_json dk) (dk_paths dk) fa (wn_hosts w) (wn_disk w)))"
  by (simp_all add: persist_def Let_def split: prod.split sum.split)

lemma hold_secret_fields [simp]:
  "wn_engine (hold_secret edit w) = wn_engine w" "wn_hosts (hold_secret edit w) = wn_hosts w"
  "wn_dialogs (hold_secret edit w) = wn_dialogs w" "wn_disk (hold_secret edit w) = wn_disk w"
  by (simp_all add: hold_secret_def split: option.split)

lemma hold_secret_keys: "hm_keys (wn_secrets (hold_secret edit w)) \<subseteq> insert (sv_id (he_host edit)) (hm_keys (wn_secrets w))"
  by (auto simp: hold_secret_def map_simps split: option.split)

lemma save_form_id: "save_form form h = Some edit \<Longrightarrow> sv_id (he_host edit) = sv_id h"
  by (auto simp: save_form_def Let_def split: if_splits)

lemma engine_current_append:
  assumes "engine_current kh n hosts en" "sv_id ` set added \<inter> sv_id ` set hosts = {}"
  shows "engine_current kh n (hosts @ added) en"
proof -
  have keys: "hm_keys (en_targets en) \<subseteq> sv_id ` set hosts" using assms(1) by (simp add: engine_current_def)
  with assms(2) have "sv_id h \<notin> hm_keys (en_targets en)" if "h \<in> set added" for h
    using that by blast
  with assms(1) keys show ?thesis
    unfolding engine_current_def set_append by (metis UnE image_Un le_supI1)
qed

lemma engine_current_forget:
  assumes "engine_current kh n hosts en" "sv_id ` set hosts - {i} \<subseteq> sv_id ` set hosts'"
    "\<And>k. k \<in> set hosts' \<Longrightarrow> sv_id k \<noteq> i \<Longrightarrow> k \<in> set hosts"
  shows "engine_current kh n hosts' (engine_forget i en)"
proof -
  have ok: "engine_ok n en" using assms(1) by (simp add: engine_current_def)
  have "\<exists>s. engine_config (sv_id k) (engine_forget i en) = Some (saved_config s kh k)"
    if "k \<in> set hosts'" "sv_id k \<in> hm_keys (en_targets en) - {i}" for k
  proof -
    have k: "sv_id k \<in> hm_keys (en_targets en)" "sv_id k \<noteq> i" using that(2) by simp_all
    with assms(1,3) that(1) show ?thesis
      unfolding engine_config_forget [OF ok k(2)] engine_current_def by blast
  qed
  moreover have "hm_keys (en_targets en) - {i} \<subseteq> sv_id ` set hosts'"
    using assms(1,2) unfolding engine_current_def by blast
  ultimately show ?thesis
    using assms(1) engine_forget_ok [OF ok] unfolding engine_current_def engine_forget_keys by simp
qed

lemma host_added_core:
  assumes "window_core dk n w" "wn_dialogs w = []" "sv_id (he_host edit) \<notin> sv_id ` set (wn_hosts w)" "n + 2 < 2 ^ 64"
  shows "window_core dk (n + 2) (host_added dk fa edit w) \<and> window_listed (host_added dk fa edit w)"
proof -
  let ?w = "persist dk fa ((hold_secret edit w)\<lparr>wn_hosts := wn_hosts w @ [he_host edit]\<rparr>)\<lparr>wn_selected := Some (sv_id (he_host edit))\<rparr>"
  have "hm_keys (wn_secrets (hold_secret edit w)) \<subseteq> insert (sv_id (he_host edit)) (sv_id ` set (wn_hosts w))"
    using hold_secret_keys insert_mono by (rule order.trans) (use assms(1) in \<open>simp add: window_core_def\<close>)
  then have "window_core dk n ?w"
    using assms(1-3) engine_current_append [of _ n "wn_hosts w" "wn_engine w" "[he_host edit]"]
    by (simp add: window_core_def)
  from rebuild_list_core [OF this assms(4)] show ?thesis
    by (simp add: host_added_def Let_def)
qed

lemma replace_ids: "map sv_id (replace_host h ks) = map sv_id ks"
  by (induction ks) auto

lemma replace_set:
  "distinct (map sv_id ks) \<Longrightarrow> sv_id h \<in> sv_id ` set ks
     \<Longrightarrow> set (replace_host h ks) = insert h {k \<in> set ks. sv_id k \<noteq> sv_id h}"
proof (induction ks)
  case (Cons k ks)
  show ?case
  proof (cases "sv_id k = sv_id h")
    case True
    then have "sv_id h \<notin> sv_id ` set ks" using Cons.prems(1) by simp
    then have "{x \<in> set (k # ks). sv_id x \<noteq> sv_id h} = set ks" using True by (auto simp: image_iff)
    with True show ?thesis by (simp only: replace_host.simps if_True list.set refl)
  next
    case False
    then have "sv_id h \<in> sv_id ` set ks" using Cons.prems(2) by (metis image_insert insertE list.simps(15))
    then have "set (replace_host h ks) = insert h {x \<in> set ks. sv_id x \<noteq> sv_id h}"
      using Cons.IH Cons.prems(1) by simp
    with False show ?thesis by simp blast
  qed
qed simp

lemma host_edited_core:
  assumes "window_core dk n w" "wn_dialogs w = []" "sv_id (he_host edit) \<in> sv_id ` set (wn_hosts w)" "n + 3 < 2 ^ 64"
  shows "window_core dk (n + 3) (host_edited dk fa edit w) \<and> window_listed (host_edited dk fa edit w)"
proof -
  let ?h = "he_host edit" and ?i = "sv_id (he_host edit)" and ?kh = "pt_known_hosts (dk_paths dk)"
  let ?hosts = "replace_host ?h (wn_hosts w)"
  have core: "engine_current ?kh n (wn_hosts w) (wn_engine w)" "distinct (map sv_id (wn_hosts w))"
    "hm_keys (wn_secrets w) \<subseteq> sv_id ` set (wn_hosts w)"
    using assms(1) by (simp_all add: window_core_def)
  have ids: "sv_id ` set ?hosts = sv_id ` set (wn_hosts w)" "distinct (map sv_id ?hosts)"
    using replace_ids [of ?h "wn_hosts w"] core(2) by (metis list.set_map, simp)
  have members: "set ?hosts = insert ?h {k \<in> set (wn_hosts w). sv_id k \<noteq> ?i}"
    by (rule replace_set [OF core(2) assms(3)])
  have forgot: "engine_current ?kh n ?hosts (engine_forget ?i (wn_engine w))"
  proof (rule engine_current_forget [OF core(1)])
    show "sv_id ` set (wn_hosts w) - {?i} \<subseteq> sv_id ` set ?hosts"
      unfolding ids(1) by (rule Diff_subset)
    show "k \<in> set (wn_hosts w)" if "k \<in> set ?hosts" "sv_id k \<noteq> ?i" for k
      using that unfolding members by blast
  qed
  let ?w2 = "persist dk fa ((hold_secret edit w)\<lparr>wn_hosts := ?hosts\<rparr>)"
  let ?secret = "hm_get (wn_secrets ?w2) ?i"
  obtain en r where restart: "engine_restart ?h ?secret (wn_engine w) = (en, r)" by (rule prod.exhaust)
  have "engine_current ?kh (Suc n) ?hosts en"
    using engine_current_start [OF forgot ids(2), of ?h ?secret] assms(4) restart members
    by (simp add: engine_restart_def)
  moreover have "hm_keys (wn_secrets (hold_secret edit w)) \<subseteq> sv_id ` set ?hosts"
    by (rule order.trans [OF hold_secret_keys]) (use core(3) assms(3) in \<open>simp only: ids(1) insert_subset simp_thms\<close>)
  ultimately have "window_core dk (Suc n) w'"
    if "wn_engine w' = en" "wn_hosts w' = ?hosts" "wn_secrets w' = wn_secrets (hold_secret edit w)"
      "wn_dialogs w' = []" for w'
    using that ids(2) by (simp add: window_core_def)
  then have "window_core dk (Suc n) (case r of
      Inl e \<Rightarrow> report_problem ''This server could not be started'' e (?w2\<lparr>wn_engine := en\<rparr>)
    | Inr _ \<Rightarrow> ?w2\<lparr>wn_engine := en\<rparr>)"
    by (cases r) (simp_all add: assms(2))
  note rebuilt = rebuild_list_core [OF this]
  have "host_edited dk fa edit w = rebuild_list dk (case r of
      Inl e \<Rightarrow> report_problem ''This server could not be started'' e (?w2\<lparr>wn_engine := en\<rparr>)
    | Inr _ \<Rightarrow> ?w2\<lparr>wn_engine := en\<rparr>)"
    unfolding host_edited_def Let_def hold_secret_fields using restart by simp
  moreover have "Suc n + 2 = n + 3" by simp
  ultimately show ?thesis using rebuilt assms(4) by (simp only:)
qed

lemma host_removed_core:
  assumes "window_core dk n w" "wn_dialogs w = []" "n + 2 < 2 ^ 64"
  shows "window_core dk (n + 2) (host_removed dk fa h w) \<and> window_listed (host_removed dk fa h w)"
proof -
  let ?hosts = "filter (\<lambda>k. sv_id k \<noteq> sv_id h) (wn_hosts w)"
  let ?w = "persist dk fa (w\<lparr>wn_engine := engine_forget (sv_id h) (wn_engine w),
    wn_secrets := hm_remove (sv_id h) (wn_secrets w), wn_hosts := ?hosts, wn_selected := None\<rparr>)"
  have core: "engine_current (pt_known_hosts (dk_paths dk)) n (wn_hosts w) (wn_engine w)" "distinct (map sv_id (wn_hosts w))"
    "hm_keys (wn_secrets w) \<subseteq> sv_id ` set (wn_hosts w)"
    using assms(1) by (simp_all add: window_core_def)
  have left: "sv_id ` set (wn_hosts w) - {sv_id h} \<subseteq> sv_id ` set ?hosts"
    unfolding set_filter by blast
  have "engine_current (pt_known_hosts (dk_paths dk)) n ?hosts (engine_forget (sv_id h) (wn_engine w))"
    by (rule engine_current_forget [OF core(1) left]) simp
  moreover have "hm_keys (wn_secrets w) - {sv_id h} \<subseteq> sv_id ` set ?hosts"
    by (rule order.trans [OF Diff_mono [OF core(3) order_refl] left])
  ultimately have "window_core dk n ?w"
    using core(2) by (simp add: window_core_def assms(2) hm_keys_remove distinct_map_filter del: hm_keys_dom)
  from rebuild_list_core [OF this assms(3)] show ?thesis
    by (simp add: host_removed_def)
qed

lemma dialogs_after_transfer:
  assumes "dialogs_ok hosts xs" "set hosts \<subseteq> set hosts'"
    "list_all (\<lambda>x. case x of EditSheet False h \<Rightarrow> sv_id h \<notin> sv_id ` set hosts' | _ \<Rightarrow> True) xs"
  shows "dialogs_ok hosts' xs"
  using assms
proof (induction hosts xs rule: dialogs_ok.induct)
  case (2 hosts x)
  then show ?case by (cases x; cases "case x of EditSheet b h \<Rightarrow> b | _ \<Rightarrow> True") auto
qed auto

lemma window_core_mono: "window_core dk n w \<Longrightarrow> n \<le> m \<Longrightarrow> window_core dk m w"
  using engine_current_mono unfolding window_core_def by blast

lemma window_listed_same:
  assumes "window_listed w" "wn_rows w' = wn_rows w" "wn_hosts w' = wn_hosts w" "wn_selected w' = wn_selected w"
  shows "window_listed w'"
  using assms by (simp add: window_listed_def)

lemma refresh_listed: "window_listed w \<Longrightarrow> window_listed (refresh dk w)"
  by (simp add: window_listed_def del: hm_keys_dom)

lemma selected_host_listed: "selected_host w = Some h \<Longrightarrow> h \<in> set (wn_hosts w)"
  using host_of_Some by (auto simp: selected_host_def split: bind_splits)

lemma transfer_core:
  assumes "window_core dk n w" "prefix (wn_hosts w) hosts" "distinct (map sv_id hosts)" "n + 2 < 2 ^ 64"
    "list_all (\<lambda>x. case x of EditSheet False h \<Rightarrow> sv_id h \<notin> sv_id ` set hosts | _ \<Rightarrow> True) (wn_dialogs w)"
  shows "window_core dk (n + 2) (window_step dk (TransferApplied hosts d fa) w)
    \<and> window_listed (window_step dk (TransferApplied hosts d fa) w)"
proof -
  obtain added where a: "hosts = wn_hosts w @ added" using assms(2) by (auto simp: prefix_def)
  then have "sv_id ` set added \<inter> sv_id ` set (wn_hosts w) = {}" using assms(3) by auto
  then have "engine_current (pt_known_hosts (dk_paths dk)) n hosts (wn_engine w)"
    unfolding a using assms(1) by (intro engine_current_append) (simp_all add: window_core_def)
  moreover have "dialogs_ok hosts (wn_dialogs w)"
    by (rule dialogs_after_transfer [OF _ _ assms(5)]) (use assms(1) a in \<open>auto simp: window_core_def\<close>)
  moreover have "hm_keys (wn_secrets w) \<subseteq> sv_id ` set hosts"
    using assms(1) a by (auto simp: window_core_def simp del: hm_keys_dom)
  ultimately have "window_core dk n (persist dk fa (w\<lparr>wn_hosts := hosts, wn_disk := d\<rparr>))"
    using assms(3) by (simp add: window_core_def)
  from rebuild_list_core [OF this assms(4)] show ?thesis by simp
qed

lemma form_saved_core:
  assumes "window_core dk n w" "window_listed w" "n + 3 < 2 ^ 64"
  shows "window_core dk (n + 3) (window_step dk (FormSaved form fa) w)
    \<and> window_listed (window_step dk (FormSaved form fa) w)"
proof (cases "\<exists>editing h rest edit. wn_dialogs w = EditSheet editing h # rest \<and> save_form form h = Some edit")
  case True
  then obtain editing h rest edit where d: "wn_dialogs w = EditSheet editing h # rest" "save_form form h = Some edit"
    by blast
  then have top_ok: "rest = []" "dialog_ok (wn_hosts w) (EditSheet editing h)"
    using assms(1) by (simp_all add: window_core_def dialogs_ok_sheet)
  let ?w = "w\<lparr>wn_dialogs := rest\<rparr>"
  have core: "window_core dk n ?w" using assms(1) top_ok(1) by (simp add: window_core_def)
  show ?thesis
  proof (cases editing)
    case True
    then have "sv_id (he_host edit) \<in> sv_id ` set (wn_hosts ?w)"
      using top_ok(2) save_form_id [OF d(2)] by simp
    then show ?thesis
      using host_edited_core [OF core _ _ assms(3), of edit fa] d top_ok(1) True by simp
  next
    case False
    then have "sv_id (he_host edit) \<notin> sv_id ` set (wn_hosts ?w)"
      using top_ok(2) save_form_id [OF d(2)] by simp
    then have "window_core dk (n + 2) (host_added dk fa edit ?w) \<and> window_listed (host_added dk fa edit ?w)"
      using host_added_core [OF core _ _, of edit fa] top_ok(1) assms(3) by simp
    then show ?thesis
      using window_core_mono [of dk "n + 2" _ "n + 3"] d False by simp
  qed
next
  case False
  then have "window_step dk (FormSaved form fa) w = w"
    by (auto split: list.split desk_dialog.split option.split)
  then show ?thesis using assms window_core_mono [of dk n w "n + 3"] by simp
qed

lemma removal_core:
  assumes "window_core dk n w" "window_listed w" "n + 3 < 2 ^ 64"
  shows "window_core dk (n + 3) (window_step dk (RemovalAnswered response fa) w)
    \<and> window_listed (window_step dk (RemovalAnswered response fa) w)"
proof (cases "\<exists>h rest. wn_dialogs w = RemovalSheet h # rest")
  case True
  then obtain h where d: "wn_dialogs w = [RemovalSheet h]"
    using assms(1) by (auto simp: window_core_def dialogs_ok_sheet)
  let ?w = "w\<lparr>wn_dialogs := []\<rparr>"
  have core: "window_core dk n ?w" using assms(1) by (simp add: window_core_def)
  have "window_core dk (n + 2) (host_removed dk fa h ?w) \<and> window_listed (host_removed dk fa h ?w)"
    using host_removed_core [OF core] assms(3) by simp
  moreover have "window_listed ?w" using assms(2) by (rule window_listed_same) simp_all
  ultimately show ?thesis
    using d window_core_mono [OF core, of "n + 3"] window_core_mono [of dk "n + 2" _ "n + 3"] by simp
next
  case False
  then have "window_step dk (RemovalAnswered response fa) w = w"
    by (auto split: list.split desk_dialog.split)
  then show ?thesis using assms window_core_mono [of dk n w "n + 3"] by simp
qed

lemma password_core:
  assumes "window_core dk n w" "window_listed w" "n + 3 < 2 ^ 64"
  shows "window_core dk (n + 3) (window_step dk (PasswordAnswered response typed) w)
    \<and> window_listed (window_step dk (PasswordAnswered response typed) w)"
proof (cases "\<exists>h rest. wn_dialogs w = PasswordFor h # rest")
  case True
  then obtain h rest where d: "wn_dialogs w = PasswordFor h # rest" by blast
  then have h: "h \<in> set (wn_hosts w)" "dialogs_ok (wn_hosts w) rest"
    using assms(1) by (simp_all add: window_core_def dialogs_ok_password)
  have core: "window_core dk n w'"
    if "wn_engine w' = wn_engine w" "wn_hosts w' = wn_hosts w" "wn_dialogs w' = rest"
      "hm_keys (wn_secrets w') \<subseteq> insert (sv_id h) (hm_keys (wn_secrets w))" for w'
  proof -
    have "insert (sv_id h) (hm_keys (wn_secrets w)) \<subseteq> sv_id ` set (wn_hosts w)"
      using assms(1) h(1) by (simp add: window_core_def)
    with that(4) have "hm_keys (wn_secrets w') \<subseteq> sv_id ` set (wn_hosts w)" by (rule order.trans)
    then show ?thesis
      using assms(1) that(1-3) h(2) by (simp add: window_core_def)
  qed
  have "window_core dk (n + 3) (start_host h s w')"
    if "window_core dk n w'" "wn_hosts w' = wn_hosts w" for w' s
    using start_host_core [OF that(1), of h s] that(2) h(1) assms(3) window_core_mono [of dk "Suc n" _ "n + 3"] by simp
  moreover have "window_core dk n (w\<lparr>wn_dialogs := rest\<rparr>)"
    by (rule core) (simp_all add: subset_insertI)
  moreover have "window_core dk n (w\<lparr>wn_dialogs := rest, wn_secrets := hm_insert (sv_id h) typed (wn_secrets w)\<rparr>)"
    by (rule core) (simp_all add: hm_keys_insert del: hm_keys_dom)
  moreover have "window_listed w'" if "wn_rows w' = wn_rows w" "wn_hosts w' = wn_hosts w" "wn_selected w' = wn_selected w" for w'
    using assms(2) that by (rule window_listed_same)
  ultimately show ?thesis
    using d window_core_mono [of dk n _ "n + 3"] by (simp add: password_answered_def)
next
  case False
  then have "window_step dk (PasswordAnswered response typed) w = w"
    by (auto split: list.split desk_dialog.split)
  then show ?thesis using assms window_core_mono [of dk n w "n + 3"] by simp
qed

lemma window_step_core:
  assumes "window_core dk n w" "window_listed w" "can_happen e w" "n + 3 < 2 ^ 64"
  shows "window_core dk (n + 3) (window_step dk e w) \<and> window_listed (window_step dk e w)"
proof -
  have same: "window_core dk (n + 3) w'"
    if "wn_engine w' = wn_engine w" "wn_hosts w' = wn_hosts w" "wn_secrets w' = wn_secrets w"
      "dialogs_ok (wn_hosts w) (wn_dialogs w')" for w'
    using window_core_mono [OF assms(1), of "n + 3"] that by (simp add: window_core_def)
  have listed: "window_listed w'"
    if "wn_rows w' = wn_rows w" "wn_hosts w' = wn_hosts w" "wn_selected w' = wn_selected w" for w'
    using assms(2) that by (rule window_listed_same)
  have dialogs: "dialogs_ok (wn_hosts w) (wn_dialogs w)"
    using assms(1) by (simp add: window_core_def)
  show ?thesis
  proof (cases e)
    case (RowPicked i)
    then have "i \<in> sv_id ` set (wn_hosts w)" using assms(2,3) by (simp add: window_listed_def del: hm_keys_dom)
    then have "window_listed (select_host dk i w)"
      using assms(2) by (auto simp: window_listed_def simp del: hm_keys_dom)
    moreover have "window_core dk (Suc n) (select_host dk i w)"
      by (rule select_host_core [OF assms(1)]) (use assms(4) in simp)
    ultimately show ?thesis
      using RowPicked window_core_mono [of dk "Suc n" _ "n + 3"] by simp
  next
    case (AddClicked millis m)
    then show ?thesis using assms(3) by (simp add: same listed saved_host_new_def)
  next
    case EditClicked
    then show ?thesis using assms(3) selected_host_listed [of w] dialogs
      by (auto simp: same listed split: option.split)
  next
    case RemoveClicked
    then show ?thesis using assms(3) selected_host_listed [of w] dialogs
      by (auto simp: same listed split: option.split)
  next
    case (FormSaved form fa)
    then show ?thesis using form_saved_core [OF assms(1,2,4)] by (simp del: window_step.simps)
  next
    case (RemovalAnswered response fa)
    then show ?thesis using removal_core [OF assms(1,2,4)] by (simp del: window_step.simps)
  next
    case (PasswordAnswered response typed)
    then show ?thesis using password_core [OF assms(1,2,4)] by (simp del: window_step.simps)
  next
    case DialogClosed
    then show ?thesis by (simp add: same listed dialogs_ok_tl dialogs)
  next
    case (TransferApplied hosts d fa)
    then show ?thesis
      using transfer_core [OF assms(1), of hosts d fa] assms(3,4) window_core_mono [of dk "n + 2" _ "n + 3"]
      by (simp del: window_step.simps)
  next
    case TimerFired
    then show ?thesis by (simp add: same dialogs refresh_listed [OF assms(2)])
  next
    case (TargetMoved tid m)
    let ?en = "engine_step (TargetMove tid m) (wn_engine w)"
    have "engine_ok (Suc n) ?en"
      using assms(1,4) by (intro engine_step_ok) (simp_all add: window_core_def engine_current_def)
    then have "engine_current (pt_known_hosts (dk_paths dk)) (n + 3) (wn_hosts w) ?en"
      using assms(1) engine_ok_mono [of "Suc n" ?en "n + 3"]
      by (simp add: window_core_def engine_current_def engine_config_move del: engine_step.simps)
        (simp only: engine_step.simps engine.select_convs engine.update_convs, simp)
    then show ?thesis
      using assms(1) TargetMoved by (simp add: window_core_def listed)
  next
    case (CommandEntered typed)
    then show ?thesis by (simp add: same listed dialogs)
  next
    case (CommandReturned answer)
    then show ?thesis by (simp add: same listed dialogs)
  qed
qed

lemma window_new_core:
  assumes "distinct (map sv_id (case load (dk_json dk) (dk_paths dk) fa d of Inl _ \<Rightarrow> [] | Inr hosts \<Rightarrow> hosts))"
  shows "window_core dk 2 (window_new dk fa d) \<and> window_listed (window_new dk fa d)"
proof -
  have "engine_current (pt_known_hosts ps) 0 hosts (engine_new ps)" for ps hosts
    by (simp add: engine_current_def engine_new_ok) (simp add: engine_new_def)
  then have "window_core dk 0 w"
    if "wn_engine w = engine_new (dk_paths dk)" "wn_secrets w = []" "wn_dialogs w = []"
      "wn_hosts w = (case load (dk_json dk) (dk_paths dk) fa d of Inl _ \<Rightarrow> [] | Inr hosts \<Rightarrow> hosts)" for w
    using that assms by (simp add: window_core_def)
  then have "window_core dk (0 + 2) (window_new dk fa d) \<and> window_listed (window_new dk fa d)"
    unfolding window_new_def Let_def by (intro rebuild_list_core) (simp_all split: sum.split)
  then show ?thesis by (simp add: numeral_2_eq_2)
qed

lemma window_run_core:
  "window_run dk k w \<Longrightarrow> 3 * k + 2 < 2 ^ 64 \<Longrightarrow> window_core dk (3 * k + 2) w \<and> window_listed w"
proof (induction rule: window_run.induct)
  case (opened fa d)
  then show ?case using window_new_core [of dk fa d] by (simp add: numeral_2_eq_2)
next
  case (happened k w e)
  then have "window_core dk (3 * k + 2 + 3) (window_step dk e w) \<and> window_listed (window_step dk e w)"
    by (intro window_step_core) simp_all
  then show ?case by (simp add: add.commute)
qed

text \<open>
  C38: whatever is done to the desktop window, in any order, and whatever the core, the transfers and
  the timer do meanwhile: no two hosts have one id and the sidebar has a row for exactly the hosts; a
  host is selected exactly when there is one; every password held and every connection running
  belongs to a host in the list, each connection under the settings the host has now; and every
  target of the core is the connection of exactly one host, so none is left behind when a host is
  edited or removed. (Fewer than 2^64 targets.)
\<close>

theorem window_invariant:
  assumes "window_run dk k w" "3 * k + 2 < 2 ^ 64"
  shows "distinct (map sv_id (wn_hosts w)) \<and> hm_keys (wn_rows w) = sv_id ` set (wn_hosts w)
    \<and> (case wn_selected w of None \<Rightarrow> wn_hosts w = [] | Some i \<Rightarrow> i \<in> sv_id ` set (wn_hosts w))
    \<and> hm_keys (wn_secrets w) \<subseteq> sv_id ` set (wn_hosts w)
    \<and> hm_keys (en_targets (wn_engine w)) \<subseteq> sv_id ` set (wn_hosts w)
    \<and> (\<forall>h \<in> set (wn_hosts w). engine_config (sv_id h) (wn_engine w) = None
        \<or> (\<exists>secret. engine_config (sv_id h) (wn_engine w)
              = Some (saved_config secret (pt_known_hosts (dk_paths dk)) h)))
    \<and> distinct (map snd (en_targets (wn_engine w)))
    \<and> set (map snd (en_targets (wn_engine w))) = set (target_ids (en_core (wn_engine w)))"
proof -
  have core: "window_core dk (3 * k + 2) w" and listed: "window_listed w"
    using window_run_core [OF assms] by simp_all
  have current: "engine_current (pt_known_hosts (dk_paths dk)) (3 * k + 2) (wn_hosts w) (wn_engine w)"
    using core by (simp add: window_core_def)
  have off: "engine_config i (wn_engine w) = None" if "i \<notin> hm_keys (en_targets (wn_engine w))" for i
    using that by (simp add: engine_config_def map_of_eq_None_iff [symmetric])
  have on: "\<forall>h \<in> set (wn_hosts w). sv_id h \<in> hm_keys (en_targets (wn_engine w)) \<longrightarrow>
      (\<exists>secret. engine_config (sv_id h) (wn_engine w) = Some (saved_config secret (pt_known_hosts (dk_paths dk)) h))"
    using current unfolding engine_current_def by (elim conjE)
  have "\<forall>h \<in> set (wn_hosts w). engine_config (sv_id h) (wn_engine w) = None
      \<or> (\<exists>secret. engine_config (sv_id h) (wn_engine w)
            = Some (saved_config secret (pt_known_hosts (dk_paths dk)) h))"
    using on off by meson
  moreover have "case wn_selected w of None \<Rightarrow> wn_hosts w = [] | Some i \<Rightarrow> i \<in> sv_id ` set (wn_hosts w)"
    using listed by (simp add: window_listed_def split: option.split)
  moreover have "hm_keys (sg_targets (en_core (wn_engine w))) = set (target_ids (en_core (wn_engine w)))"
    by (simp add: target_ids_def)
  moreover have "distinct (map sv_id (wn_hosts w))" "hm_keys (wn_secrets w) \<subseteq> sv_id ` set (wn_hosts w)"
    using core unfolding window_core_def by - (elim conjE, assumption)+
  moreover have "hm_keys (wn_rows w) = sv_id ` set (wn_hosts w)"
    using listed unfolding window_listed_def by (elim conjE)
  moreover have "hm_keys (en_targets (wn_engine w)) \<subseteq> sv_id ` set (wn_hosts w)"
    using current unfolding engine_current_def by (elim conjE)
  moreover have "distinct (map snd (en_targets (wn_engine w)))"
    "set (map snd (en_targets (wn_engine w))) = hm_keys (sg_targets (en_core (wn_engine w)))"
    using current unfolding engine_current_def engine_ok_def by - (elim conjE, assumption)+
  ultimately show ?thesis by (intro conjI) (simp_all only:)
qed

definition demo_desk :: desk where
  "demo_desk = \<lparr>dk_paths = demo_paths, dk_json = demo_inventory_json, dk_escape = (\<lambda>s. s)\<rparr>"

definition demo_form :: "nat \<Rightarrow> host_form" where
  "demo_form auth = \<lparr>hf_address = ''web'', hf_user = ''root'', hf_port = 22, hf_auth = auth, hf_key_path = [],
     hf_secret = [], hf_policy = 1, hf_refresh = 1000\<rparr>"

lemma demo_opened: "window_run demo_desk 0 (window_new demo_desk no_faults [])"
  by (rule opened) (simp add: load_def no_faults_def)

lemma demo_window_new: "wn_dialogs (window_new demo_desk no_faults []) = []"
  "wn_hosts (window_new demo_desk no_faults []) = []"
  by (simp_all add: window_new_def rebuild_list_def load_def no_faults_def Let_def)

lemma window_invariant_witness:
  "\<exists>w. window_run demo_desk 2 w \<and> map sv_address (wn_hosts w) = [''web'']
     \<and> hm_keys (wn_rows w) = sv_id ` set (wn_hosts w) \<and> wn_selected w \<noteq> None"
proof -
  let ?w0 = "window_new demo_desk no_faults []"
  let ?w1 = "window_step demo_desk (AddClicked 7 0) ?w0"
  let ?w2 = "window_step demo_desk (FormSaved (demo_form 0) no_faults) ?w1"
  have "window_run demo_desk 1 ?w1"
    using happened [OF demo_opened, of "AddClicked 7 0"] by (simp add: demo_window_new)
  then have run: "window_run demo_desk 2 ?w2"
    using happened [of demo_desk 1 ?w1 "FormSaved (demo_form 0) no_faults"] by (simp add: numeral_2_eq_2)
  have "trim ''web'' = ''web''" "trim ''root'' = ''root''" by code_simp+
  then have hosts: "map sv_address (wn_hosts ?w2) = [''web'']"
    by (simp add: demo_window_new save_form_def demo_form_def Let_def host_added_def)
  from window_invariant [OF run] have "hm_keys (wn_rows ?w2) = sv_id ` set (wn_hosts ?w2)"
    "case wn_selected ?w2 of None \<Rightarrow> wn_hosts ?w2 = [] | Some i \<Rightarrow> i \<in> sv_id ` set (wn_hosts ?w2)"
    by (simp_all del: window_step.simps)
  with run hosts show ?thesis
    by (intro exI [of _ ?w2]) (auto simp del: window_step.simps split: option.splits)
qed

section \<open>Saving a form that was not changed\<close>

lemma combo_nth:
  assumes "v \<in> set options"
  shows "options ! combo options v = v"
proof -
  have "length (takeWhile (\<lambda>x. x \<noteq> v) options) < length options"
    using assms by (induction options) auto
  from nth_length_takeWhile [OF this] assms show ?thesis by simp
qed

lemma form_unchanged:
  assumes "trim (sv_address h) = sv_address h" "sv_address h \<noteq> []" "trim (sv_user h) = sv_user h"
    "sv_auth_kind h \<in> set auth_kinds" "sv_host_key_policy h \<in> set policies"
    "case sv_key_path h of Some p \<Rightarrow> sv_auth_kind h = ''key'' \<and> trim p \<noteq> [] | None \<Rightarrow> True"
    "1 \<le> sv_port h" "250 \<le> sv_refresh_ms h" "sv_refresh_ms h \<le> 60000"
  shows "save_form (form_of h) h = Some \<lparr>he_host = h, he_secret = None\<rparr>"
proof -
  have "trim [] = []" by code_simp
  moreover have "auth_kinds ! combo auth_kinds (sv_auth_kind h) = sv_auth_kind h"
    "policies ! combo policies (sv_host_key_policy h) = sv_host_key_policy h"
    by (rule combo_nth [OF assms(4)], rule combo_nth [OF assms(5)])
  ultimately show ?thesis
    using assms(1-3,6-9) by (auto simp: save_form_def form_of_def Let_def max_absorb2 min_absorb1 split: option.splits)
qed

section \<open>Three things that go wrong\<close>

text \<open>
  The password of the first host is asked for twice when the application opens: the row's selection
  selects the host, and the list then selects it again.
\<close>

lemma password_asked_twice:
  assumes "load (dk_json dk) (dk_paths dk) fa d = Inr [h]" "sv_auth_kind h = ''password''"
  shows "wn_dialogs (window_new dk fa d) = [PasswordFor h, PasswordFor h]"
  using assms
  by (simp add: window_new_def rebuild_list_def select_host_def host_of_def ensure_started_def Let_def
      engine_is_running_def engine_new_def hm_keys_insert refresh_fields del: hm_keys_dom)

text \<open>
  Selecting a host that is not connected yet puts its name over the readings of the host before.
\<close>

lemma readings_of_another_host:
  assumes "host_of i w = Some h" "sv_auth_kind h = ''password''" "hm_get (wn_secrets w) i = None"
    "\<not> engine_is_running i (wn_engine w)"
  shows "wn_title (select_host dk i w) = saved_label h
    \<and> wn_subtitle (select_host dk i w) = wn_subtitle w \<and> wn_simple (select_host dk i w) = wn_simple w
    \<and> wn_technical (select_host dk i w) = wn_technical w \<and> wn_processes (select_host dk i w) = wn_processes w"
proof -
  have i: "sv_id h = i" using host_of_Some [OF assms(1)] by simp
  have keep: "wn_title (refresh_row dk k w) = wn_title w" "wn_subtitle (refresh_row dk k w) = wn_subtitle w"
    "wn_simple (refresh_row dk k w) = wn_simple w" "wn_technical (refresh_row dk k w) = wn_technical w"
    "wn_processes (refresh_row dk k w) = wn_processes w" for k w
    by (simp_all add: refresh_row_def Let_def split: option.split)
  have keeps: "wn_title (fold (refresh_row dk) ks w) = wn_title w"
    "wn_subtitle (fold (refresh_row dk) ks w) = wn_subtitle w" "wn_simple (fold (refresh_row dk) ks w) = wn_simple w"
    "wn_technical (fold (refresh_row dk) ks w) = wn_technical w"
    "wn_processes (fold (refresh_row dk) ks w) = wn_processes w" for ks w
    by (induction ks arbitrary: w) (simp_all add: keep)
  have "engine_snapshot i (wn_engine w) = None"
    using assms(4) by (simp add: engine_snapshot_def engine_target_id_def engine_is_running_def
        map_of_eq_None_iff [symmetric])
  then show ?thesis
    using assms by (simp add: select_host_def host_of_def ensure_started_def i refresh_def Let_def keeps)
qed

text \<open>The answer to a command that is still under way appears under the host selected meanwhile.\<close>

lemma answer_under_another_host:
  assumes "cm_running v = [(tid, echo)]" "cm_host v \<noteq> Some other"
  shows "let v' = command_answered (CommandDone result) (command_set_host (Some other) v)
         in cm_host v' = Some other \<and> cm_output v' = ''$ '' @ echo @ [nl] @ cr_output result"
  using assms by (simp add: command_answered_def command_set_host_def command_report_def Let_def)

end
