(* ===== verification/Desk_Dialogs.thy ===== *)
theory Desk_Dialogs
  imports Desktop
begin

text \<open>
  The desktop's questions (\<open>apps/linux/src/dialogs.rs\<close>, \<open>window.rs\<close>, \<open>pairing.rs\<close>): what each dialog
  says, which answers it offers and which one closing it gives, and which fields of the host form are
  on view. Then two facts about the window as a whole: what leaving a question does, and how many
  commands can be under way.
\<close>

section \<open>Questions\<close>

text \<open>The answers are identifiers with their labels; \<open>md_close\<close> is given when the dialog is closed.\<close>

record message_dialog =
  md_heading :: string
  md_body :: string
  md_responses :: "(string \<times> string) list"
  md_default :: "string option"
  md_close :: string

definition secret_question :: "saved_host \<Rightarrow> message_dialog" where
  "secret_question h =
     \<lparr>md_heading = ''Password needed'',
      md_body = ''Enter the password for '' @ saved_label h
        @ ''. It is used for this session only and is never written to disk.'',
      md_responses = [(''cancel'', ''Cancel''), (''connect'', ''Connect'')],
      md_default = Some ''connect'', md_close = ''cancel''\<rparr>"

definition removal_question :: "string \<Rightarrow> message_dialog" where
  "removal_question name =
     \<lparr>md_heading = ''Remove this server?'',
      md_body = name @ '' will be removed from this device. Nothing on the server itself is changed.'',
      md_responses = [(''cancel'', ''Cancel''), (''remove'', ''Remove'')],
      md_default = Some ''cancel'', md_close = ''cancel''\<rparr>"

definition problem_notice :: "string \<Rightarrow> string \<Rightarrow> message_dialog" where
  "problem_notice heading detail =
     \<lparr>md_heading = heading, md_body = detail, md_responses = [(''close'', ''Close'')],
      md_default = None, md_close = ''close''\<rparr>"

definition em_dash :: string where
  "em_dash = [CHR 0xE2, CHR 0x80, CHR 0x94]"

definition pairing_question :: message_dialog where
  "pairing_question =
     \<lparr>md_heading = ''Pair with another device'',
      md_body = ''Servers and the identities you have trusted move across. Passwords and keys never do ''
        @ em_dash @ '' the other device asks for those itself.'',
      md_responses = [(''cancel'', ''Cancel''), (''receive'', ''Receive servers''), (''send'', ''Send my servers'')],
      md_default = None, md_close = ''cancel''\<rparr>"

definition codes_question :: message_dialog where
  "codes_question =
     \<lparr>md_heading = ''Do both devices show this?'',
      md_body = ''If the two codes are different, something is intercepting the connection. Stop, and do not continue.'',
      md_responses = [(''no'', ''They differ''), (''yes'', ''They match'')],
      md_default = None, md_close = ''no''\<rparr>"

text \<open>Which sheet the answer to the pairing question opens, and what comparing the codes says.\<close>

datatype pairing_sheet = ReceiveSheet | SendSheet

definition pairing_opens :: "string \<Rightarrow> pairing_sheet option" where
  "pairing_opens response =
     (if response = ''receive'' then Some ReceiveSheet
      else if response = ''send'' then Some SendSheet else None)"

definition codes_answer :: "string \<Rightarrow> bool" where
  "codes_answer response \<longleftrightarrow> response = ''yes''"

section \<open>The fields on view\<close>

record form_view =
  fv_key_path :: bool
  fv_secret :: bool
  fv_secret_title :: string
  fv_note :: bool

definition sync_visibility :: "host_form \<Rightarrow> form_view" where
  "sync_visibility form =
     (let kind = auth_kinds ! hf_auth form
      in \<lparr>fv_key_path = (kind = ''key''), fv_secret = (kind = ''password'' \<or> kind = ''key''),
          fv_secret_title = (if kind = ''key'' then ''Key passphrase'' else ''Password''),
          fv_note = (kind = ''password'' \<or> kind = ''key'')\<rparr>)"

text \<open>
  What was typed into a field and is no longer on view when the form is saved does not get into the
  inventory or to the core.
\<close>

theorem hidden_fields_unused:
  assumes "hf_auth form < length auth_kinds" "save_form form base = Some edit"
  shows "(\<not> fv_secret (sync_visibility form) \<longrightarrow> he_secret edit = None)
    \<and> (\<not> fv_key_path (sync_visibility form) \<longrightarrow> sv_key_path (he_host edit) = None)"
proof -
  have "auth_kinds ! hf_auth form \<in> {''agent'', ''key'', ''password''}"
    using nth_mem [OF assms(1)] by (simp add: auth_kinds_def)
  then show ?thesis
    using assms(2) by (auto simp: save_form_def sync_visibility_def Let_def split: if_splits)
qed

section \<open>Leaving a question\<close>

text \<open>
  Closing a question instead of answering it is the answer that does nothing: no host is removed, no
  password held, no connection started, no pairing begun, and two codes do not count as the same.
\<close>

theorem leaving_changes_nothing:
  "wn_dialogs w = RemovalSheet h # rest \<Longrightarrow>
     window_step dk (RemovalAnswered (md_close (removal_question n)) fa) w = w\<lparr>wn_dialogs := rest\<rparr>"
  "wn_dialogs w = PasswordFor h # rest \<Longrightarrow>
     window_step dk (PasswordAnswered (md_close (secret_question k)) typed) w = w\<lparr>wn_dialogs := rest\<rparr>"
  "pairing_opens (md_close pairing_question) = None"
  "\<not> codes_answer (md_close codes_question)"
  by (simp_all add: removal_question_def secret_question_def password_answered_def pairing_question_def
      pairing_opens_def codes_question_def codes_answer_def)

text \<open>The answer a closed dialog gives is one of those it offers.\<close>

lemma close_is_offered:
  "md_close (secret_question h) \<in> fst ` set (md_responses (secret_question h))"
  "md_close (removal_question n) \<in> fst ` set (md_responses (removal_question n))"
  "md_close (problem_notice n d) \<in> fst ` set (md_responses (problem_notice n d))"
  "md_close pairing_question \<in> fst ` set (md_responses pairing_question)"
  "md_close codes_question \<in> fst ` set (md_responses codes_question)"
  by (simp_all add: secret_question_def removal_question_def problem_notice_def pairing_question_def codes_question_def)

section \<open>One command at a time\<close>

text \<open>
  The runner can be used exactly when no command is under way, and never more than one is: whatever
  else is done to the window meanwhile, selecting other hosts and removing the host it runs on
  included.
\<close>

definition runner_ok :: "command_view \<Rightarrow> bool" where
  "runner_ok v \<longleftrightarrow> length (cm_running v) \<le> 1 \<and> (cm_enabled v \<longleftrightarrow> cm_running v = [])"

lemma runner_set_host [simp]: "runner_ok (command_set_host i v) = runner_ok v"
  by (simp add: runner_ok_def command_set_host_def Let_def)

lemma runner_report [simp]: "runner_ok (command_report m b v) = runner_ok v"
  by (simp add: runner_ok_def command_report_def)

lemma runner_submit: "runner_ok v \<Longrightarrow> cm_enabled v \<Longrightarrow> runner_ok (command_submit en typed v)"
  by (simp add: command_submit_def Let_def runner_ok_def command_report_def split: option.split)

lemma runner_answered: "runner_ok v \<Longrightarrow> runner_ok (command_answered answer v)"
  by (auto simp: command_answered_def Let_def runner_ok_def command_report_def
      split: list.split prod.split command_answer.split)

lemma refresh_runner [simp]: "wn_command (refresh dk w) = wn_command w"
proof -
  have "wn_command (refresh_row dk h w) = wn_command w" for h w
    by (simp add: refresh_row_def Let_def split: option.split)
  then have "wn_command (fold (refresh_row dk) hs w) = wn_command w" for hs
    by (induction hs arbitrary: w) simp_all
  then show ?thesis by (simp add: refresh_def Let_def split: option.split)
qed

lemma window_parts_runner [simp]:
  "wn_command (report_problem a b w) = wn_command w" "wn_command (start_host h s w) = wn_command w"
  "wn_command (ensure_started h w) = wn_command w" "wn_command (persist dk fa w) = wn_command w"
  "wn_command (hold_secret edit w) = wn_command w"
  by (simp_all add: report_problem_def start_host_def ensure_started_def persist_def hold_secret_def Let_def
      split: prod.split sum.split option.split)

lemma select_runner [simp]: "runner_ok (wn_command (select_host dk i w)) = runner_ok (wn_command w)"
  by (simp add: select_host_def Let_def split: option.split)

lemma rebuild_runner [simp]: "runner_ok (wn_command (rebuild_list dk w)) = runner_ok (wn_command w)"
  by (simp add: rebuild_list_def Let_def)

lemma hosts_runner [simp]:
  "runner_ok (wn_command (host_added dk fa edit w)) = runner_ok (wn_command w)"
  "runner_ok (wn_command (host_edited dk fa edit w)) = runner_ok (wn_command w)"
  "runner_ok (wn_command (host_removed dk fa h w)) = runner_ok (wn_command w)"
  "wn_command (password_answered h response typed w) = wn_command w"
  by (simp_all add: host_added_def host_edited_def host_removed_def password_answered_def Let_def
      split: prod.split sum.split)

lemma runner_step:
  assumes "runner_ok (wn_command w)" "can_happen e w"
  shows "runner_ok (wn_command (window_step dk e w))"
  using assms
  by (cases e) (simp_all add: runner_submit runner_answered Let_def
      split: option.split list.split desk_dialog.split)

lemma runner_new: "runner_ok (wn_command (window_new dk fa d))"
proof -
  have "runner_ok command_view_new" by (simp add: runner_ok_def command_view_new_def)
  then show ?thesis by (simp add: window_new_def Let_def split: sum.split)
qed

theorem one_command_at_a_time:
  assumes "window_run dk n w"
  shows "length (cm_running (wn_command w)) \<le> 1
    \<and> (cm_enabled (wn_command w) \<longleftrightarrow> cm_running (wn_command w) = [])"
proof -
  from assms have "runner_ok (wn_command w)"
    by induction (simp_all add: runner_new runner_step)
  then show ?thesis by (simp add: runner_ok_def)
qed

end
