(* ===== verification/Desk_Drawing.thy ===== *)
theory Desk_Drawing
  imports Desk_Views
begin

text \<open>
  What the desktop's widgets draw (\<open>apps/linux/src/widgets.rs\<close>, \<open>pairing.rs\<close>): the calls on the drawing
  context, in order, as functions of the widget's state and size. The context itself is the drawing
  library's. A colour is kept as the palette gives it, with its opacity in hundredths.
\<close>

section \<open>The drawing context\<close>

datatype cairo =
    Line_Width f64
  | Round_Cap
  | Round_Join
  | Source rgb nat
  | Move_To f64 f64
  | Line_To f64 f64
  | Arc f64 f64 f64 f64 f64
  | Rectangle f64 f64 f64 f64
  | New_Sub_Path
  | Close_Path
  | Stroke
  | Fill_Path

definition f_pi :: f64 where "f_pi = f_lit 884279719003555 (2 ^ 48)"
definition f_tau :: f64 where "f_tau = f_lit 884279719003555 (2 ^ 47)"
definition f_half_pi :: f64 where "f_half_pi = f_lit 884279719003555 (2 ^ 49)"

text \<open>\<open>i32 as f64\<close>.\<close>

definition f_of_i32 :: "i32 \<Rightarrow> f64" where
  "f_of_i32 k = f_of_int (sint k)"

section \<open>Rings\<close>

definition ring_draw :: "ring \<Rightarrow> i32 \<Rightarrow> i32 \<Rightarrow> cairo list" where
  "ring_draw self w h =
     (let width = f_of_i32 w; height = f_of_i32 h;
          thickness = f_max (f_mul (f_min width height) (f_lit 11 100)) (f_lit 3 1);
          radius = f_max (f_div (f_sub (f_min width height) thickness) (f_lit 2 1)) (f_lit 1 1);
          cx = f_div width (f_lit 2 1); cy = f_div height (f_lit 2 1);
          start = f_neg f_half_pi
      in [Line_Width thickness, Round_Cap,
          Source (fst (rg_track self)) (snd (rg_track self)), Arc cx cy radius (f_of_nat 0) f_tau, Stroke]
         @ (if f_lt (f_of_nat 0) (rg_fraction self) then
              [Source (rg_accent self) 100,
               Arc cx cy radius start (f_add start (f_mul (rg_fraction self) f_tau)), Stroke]
            else []))"

section \<open>Bars\<close>

definition rounded :: "f64 \<Rightarrow> f64 \<Rightarrow> f64 \<Rightarrow> f64 \<Rightarrow> f64 \<Rightarrow> cairo list" where
  "rounded x y width height radius0 =
     (let radius = f_max (f_min (f_min radius0 (f_div width (f_lit 2 1))) (f_div height (f_lit 2 1))) (f_of_nat 0);
          right = f_add x width; bottom = f_add y height
      in [New_Sub_Path,
          Arc (f_sub right radius) (f_add y radius) radius (f_neg f_half_pi) (f_of_nat 0),
          Arc (f_sub right radius) (f_sub bottom radius) radius (f_of_nat 0) f_half_pi,
          Arc (f_add x radius) (f_sub bottom radius) radius f_half_pi f_pi,
          Arc (f_add x radius) (f_add y radius) radius f_pi (f_mul (f_lit 3 2) f_pi),
          Close_Path])"

text \<open>How much of the width is filled: never less than the height, so that the caps are whole.\<close>

definition filled_width :: "f64 \<Rightarrow> f64 \<Rightarrow> f64 \<Rightarrow> f64" where
  "filled_width width height fraction = f_max (f_mul width fraction) height"

definition bar_draw :: "bar \<Rightarrow> i32 \<Rightarrow> i32 \<Rightarrow> cairo list" where
  "bar_draw self w h =
     (let width = f_of_i32 w; height = f_of_i32 h; radius = f_div height (f_lit 2 1); zero = f_of_nat 0
      in Source (fst (br_track self)) (snd (br_track self))
         # rounded zero zero width height radius @ [Fill_Path]
         @ (if f_lt zero (br_fraction self) then
              Source (br_accent self) 100
              # rounded zero zero (filled_width width height (br_fraction self)) height radius @ [Fill_Path]
            else []))"

section \<open>Sparklines\<close>

definition spark_inset :: f64 where "spark_inset = f_lit 3 2"

definition spark_usable :: "f64 \<Rightarrow> f64" where
  "spark_usable height = f_max (f_sub height (f_mul spark_inset (f_lit 2 1))) (f_lit 1 1)"

definition spark_at :: "f64 \<Rightarrow> f64 \<Rightarrow> nat \<Rightarrow> f64 \<Rightarrow> f64 \<times> f64" where
  "spark_at step height index v =
     (f_mul (f_of_nat index) step,
      f_add spark_inset (f_mul (f_sub (f_lit 1 1) v) (spark_usable height)))"

definition spark_draw :: "spark \<Rightarrow> i32 \<Rightarrow> i32 \<Rightarrow> cairo list" where
  "spark_draw self w h =
     (let points = sp_points self
      in if length points < 2 then []
         else
           (let width = f_of_i32 w; height = f_of_i32 h;
                step = f_div width (f_of_nat (length points - 1));
                place = (\<lambda>(index, v). spark_at step height index v);
                places = map place (enumerate 0 points)
            in Move_To (f_of_nat 0) height # map (\<lambda>(x, y). Line_To x y) places
               @ [Line_To width height, Close_Path, Source (sp_accent self) 14, Fill_Path,
                  Line_Width (f_lit 16 10), Round_Join, Source (sp_accent self) 100]
               @ map (\<lambda>(index, v). case place (index, v) of
                        (x, y) \<Rightarrow> if index = 0 then Move_To x y else Line_To x y) (enumerate 0 points)
               @ [Stroke]))"

section \<open>The pairing code as a picture\<close>

text \<open>The library's code is its dark modules, row by row, and the length of a side.\<close>

definition qr_module :: "f64 \<Rightarrow> nat \<Rightarrow> nat \<Rightarrow> cairo" where
  "qr_module scale side index =
     Rectangle (f_mul (f_add (f_of_nat (index mod side)) (f_lit 1 1)) scale)
       (f_mul (f_add (f_of_nat (index div side)) (f_lit 1 1)) scale) scale scale"

definition qr_draw :: "(bool list \<times> nat) option \<Rightarrow> i32 \<Rightarrow> i32 \<Rightarrow> cairo list" where
  "qr_draw code w h =
     (case code of
        None \<Rightarrow> []
      | Some (modules, side) \<Rightarrow>
          (let size = f_of_int (min (sint w) (sint h)); scale = f_div size (f_of_nat (side + 2))
           in [Source (255, 255, 255) 100, Rectangle (f_of_nat 0) (f_of_nat 0) size size, Fill_Path,
               Source (0, 0, 0) 100]
              @ map (\<lambda>(index, _). qr_module scale side index) (filter snd (enumerate 0 modules))
              @ [Fill_Path]))"

section \<open>Sums and differences of lengths\<close>

lemma f_sub_upto:
  assumes "f_upto a v" "f_upto b l" "fval l \<le> fval v" "float_real c" "fval v - fval l \<le> c"
  shows "f_upto c (f_sub v l)"
proof -
  obtain m e k f where v: "v = Fin False m e" and l: "l = Fin False k f"
    using assms(1,2) by (auto simp: f_upto_def)
  define e0 where "e0 = min e f"
  define d where "d = units False m e e0 + units True k f e0"
  have "real_of_int d = fval v / 2 powr e0 + fval (Fin True k f) / 2 powr e0"
    unfolding d_def of_int_add v
    by (rule arg_cong2 [of _ _ _ _ "(+)"]; rule units_real) (simp_all add: e0_def)
  also have "\<dots> = (fval v - fval l) / 2 powr e0" by (simp add: l diff_divide_distrib)
  finally have d: "real_of_int d = (fval v - fval l) / 2 powr e0" .
  have sub: "f_sub v l = (if d = 0 then Fin False 0 (-1074) else rnd_exp (d < 0) (nat \<bar>d\<bar>) 1 e0)"
    by (simp add: f_sub_def v l d_def e0_def Let_def)
  have "0 \<le> real_of_int d" using assms(3) by (simp add: d del: fval.simps)
  then have pos: "0 \<le> d" by simp
  have "real (nat \<bar>d\<bar>) / real 1 * 2 powr real_of_int e0 = fval v - fval l"
    using pos by (simp add: d of_nat_nat del: fval.simps)
  then have "f_upto c (rnd_exp False (nat \<bar>d\<bar>) 1 e0)"
    using assms(5) by (intro rnd_exp_upto assms(4)) simp_all
  moreover have "0 \<le> c" using assms(3,5) by linarith
  ultimately show ?thesis using pos unfolding sub by (auto simp: f_upto_def)
qed

lemma f_max_upto: "f_upto c x \<Longrightarrow> f_upto c y \<Longrightarrow> f_upto c (f_max x y)"
  by (simp add: f_max_def)

lemma f_add_sum:
  assumes "f_upto a x" "f_upto b y"
  obtains n d where "0 < d" "f_add x y = rnd False n d \<or> f_add x y = Fin False 0 (-1074) \<and> fval x + fval y = 0"
    "real n / real d = fval x + fval y"
proof -
  obtain m e k f where x: "x = Fin False m e" and y: "y = Fin False k f"
    using assms by (auto simp: f_upto_def)
  define e0 where "e0 = min e f"
  define s where "s = units False m e e0 + units False k f e0"
  have s: "real_of_int s = (fval x + fval y) / 2 powr e0"
    unfolding s_def of_int_add x y add_divide_distrib
    by (rule arg_cong2 [of _ _ _ _ "(+)"]; rule units_real) (simp_all add: e0_def)
  have "0 \<le> units False m e e0" "0 \<le> units False k f e0" by (simp_all add: units_def)
  then have pos: "0 \<le> s" by (simp add: s_def)
  have add: "f_add x y = (if s = 0 then Fin False 0 (-1074) else rnd_exp (s < 0) (nat \<bar>s\<bar>) 1 e0)"
    by (simp add: x y s_def e0_def Let_def)
  obtain n d where nd: "0 < d" "\<And>t. rnd_exp t (nat \<bar>s\<bar>) 1 e0 = rnd t n d"
    "real n / real d = real (nat \<bar>s\<bar>) / real 1 * 2 powr real_of_int e0"
    by (rule rnd_exp_rnd [of 1 "nat \<bar>s\<bar>" e0]) auto
  have "real n / real d = fval x + fval y"
    using pos by (simp add: nd(3) s of_nat_nat del: fval.simps)
  moreover have "s = 0 \<Longrightarrow> fval x + fval y = 0" using s by simp
  ultimately show ?thesis using that [OF nd(1)] pos nd(2) unfolding add by (cases "s = 0") auto
qed

lemma f_add_upto:
  assumes "f_upto a x" "f_upto b y" "float_real c" "fval x + fval y \<le> c"
  shows "f_upto c (f_add x y)"
proof (rule f_add_sum [OF assms(1,2)])
  fix n d
  assume "0 < d" "f_add x y = rnd False n d \<or> f_add x y = Fin False 0 (-1074) \<and> fval x + fval y = 0"
    "real n / real d = fval x + fval y"
  then show ?thesis using rnd_upto [of d c n] assms(3,4) by (auto simp: f_upto_def)
qed

lemma f_add_ge:
  assumes "f_upto a x" "f_upto b y" "float_real c" "0 < c" "c \<le> fval x + fval y"
    "is_finite (f_add x y)"
  shows "c \<le> fval (f_add x y)"
proof (rule f_add_sum [OF assms(1,2)])
  fix n d
  assume "0 < d" "f_add x y = rnd False n d \<or> f_add x y = Fin False 0 (-1074) \<and> fval x + fval y = 0"
    "real n / real d = fval x + fval y"
  then show ?thesis using rnd_ge [of d c n] assms(3-6) by auto
qed

section \<open>The drawing stays on the widget\<close>

lemma i32_length: "0 \<le> sint (w :: i32) \<Longrightarrow> f_of_i32 w = f_of_nat (nat (sint w)) \<and> nat (sint w) < 2 ^ 31"
  using sint_lt [of w] by (simp add: f_of_i32_def f_of_int_nat)

lemma length_value:
  assumes "n < 2 ^ 31"
  shows "f_upto (real n) (f_of_nat n)" "fval (f_of_nat n) = real n" "float_real (real n)"
proof -
  have n: "n < 2 ^ 53" using assms by simp
  show "float_real (real n)" by (rule float_real_nat [OF n])
  then show "f_upto (real n) (f_of_nat n)" by (intro f_of_nat_upto) simp_all
  show "fval (f_of_nat n) = real n" by (rule fval_of_nat_exact [OF n])
qed

text \<open>The filled part of a bar is at least as wide as its caps and no wider than the bar.\<close>

theorem bar_fill_within:
  assumes "0 \<le> sint h" "sint h \<le> sint w" "f_upto 1 fraction"
  shows "fval (f_of_i32 h) \<le> fval (filled_width (f_of_i32 w) (f_of_i32 h) fraction)
    \<and> fval (filled_width (f_of_i32 w) (f_of_i32 h) fraction) \<le> fval (f_of_i32 w)"
proof -
  obtain ww hh where n: "f_of_i32 w = f_of_nat ww" "f_of_i32 h = f_of_nat hh" "ww < 2 ^ 31" "hh < 2 ^ 31"
    and "hh \<le> ww"
    using i32_length [of w] i32_length [of h] assms(1,2) nat_mono [OF assms(2)] by (metis order_trans)
  note wv = length_value [OF n(3)] and hv = length_value [OF n(4)]
  have le: "real hh \<le> real ww" using \<open>hh \<le> ww\<close> by simp
  have "f_upto (real ww) (f_mul (f_of_nat ww) fraction)"
    using wv assms(3) by (intro f_mul_upto [OF wv(1) assms(3) wv(3)]) (auto simp: f_upto_def mult_left_le)
  then obtain m e k f where m: "f_mul (f_of_nat ww) fraction = Fin False m e" "fval (Fin False m e) \<le> real ww"
    and k: "f_of_nat hh = Fin False k f" using hv(1) by (auto simp: f_upto_def)
  show ?thesis
    using m hv(2) wv(2) le unfolding n(1,2) filled_width_def k
    by (auto simp: f_max_def f_lt_Fin simp del: fval.simps)
qed

text \<open>
  A point of a sparkline is drawn no nearer to the upper and lower edge than the inset, so the line,
  whose width is less than twice the inset, is not cut off there.
\<close>

theorem spark_within_height:
  assumes "4 \<le> sint h" "f_upto 1 v"
  shows "fval spark_inset \<le> fval (snd (spark_at step (f_of_i32 h) index v))
    \<and> fval (snd (spark_at step (f_of_i32 h) index v)) \<le> fval (f_of_i32 h) - fval spark_inset"
proof -
  have "0 \<le> sint h" "4 \<le> nat (sint h)" using assms(1) by simp_all
  then obtain hh where n: "f_of_i32 h = f_of_nat hh" "hh < 2 ^ 31" and h: "4 \<le> hh"
    using i32_length [of h] by metis
  note hv = length_value [OF n(2)]
  have three: "f_mul spark_inset (f_lit 2 1) = f_of_nat 3" "f_lit 1 1 = f_of_nat 1"
    by (simp_all add: spark_inset_def float_eval)
  note tv = length_value [of 3] length_value [of 1]
  have fl: "float_real (real hh - 3)"
    using float_real_nat [of "hh - 3"] n(2) h by (simp add: of_nat_diff)
  have sub: "f_upto (real hh - 3) (f_sub (f_of_nat hh) (f_of_nat 3))"
    using h by (intro f_sub_upto [OF hv(1) tv(1) _ fl]) (simp_all add: hv(2) tv(2))
  have usable: "f_upto (real hh - 3) (spark_usable (f_of_nat hh))"
    unfolding spark_usable_def three
  proof (rule f_max_upto [OF sub])
    show "f_upto (real hh - 3) (f_of_nat 1)" using h by (intro f_of_nat_upto fl) simp
  qed
  have rest: "f_upto 1 (f_sub (f_of_nat 1) v)"
    using assms(2) tv(5,6) by (intro f_sub_upto [OF tv(4) assms(2)]) (auto simp: f_upto_def)
  have part: "f_upto (real hh - 3) (f_mul (f_sub (f_of_nat 1) v) (spark_usable (f_of_nat hh)))"
  proof (rule f_mul_upto [OF rest usable fl])
    show "fval (f_sub (f_of_nat 1) v) * fval (spark_usable (f_of_nat hh)) \<le> real hh - 3"
      using rest usable by (elim f_uptoE) (metis mult_le_one mult.left_neutral mult_mono zero_le_one order_trans)
  qed
  have inset: "f_upto (3 / 2) spark_inset" "fval spark_inset = 3 / 2"
    by (simp_all add: spark_inset_def f_upto_def float_eval powr_minus)
  have "real hh - 3 / 2 = real (2 * hh - 3) * 2 powr real_of_int (-1)"
    using h by (simp add: powr_minus of_nat_diff field_simps)
  moreover have "2 * hh - 3 < 2 ^ 53" using n(2) by simp
  ultimately have top: "float_real (real hh - 3 / 2)"
    unfolding float_real_def by (intro exI [of _ "2 * hh - 3"] exI [of _ "-1"]) simp
  have "float_real (real 3 * 2 powr real_of_int (-1))"
    unfolding float_real_def by (intro exI [of _ 3] exI [of _ "-1"]) simp
  then have low: "float_real (3 / 2)" by (simp add: powr_minus)
  define part' where "part' = f_mul (f_sub (f_of_nat 1) v) (spark_usable (f_of_nat hh))"
  have p: "f_upto (real hh - 3) part'" "0 \<le> fval part'" "fval part' \<le> real hh - 3"
    using part unfolding part'_def by (auto elim: f_uptoE)
  have up: "f_upto (real hh - 3 / 2) (f_add spark_inset part')"
    using p inset(2) by (intro f_add_upto [OF inset(1) p(1) top]) simp
  then have "fval spark_inset \<le> fval (f_add spark_inset part')"
    using p inset by (subst inset(2), intro f_add_ge [OF inset(1) p(1) low]) (auto simp: f_upto_def)
  then show ?thesis
    using up inset(2) hv(2) unfolding n(1) by (simp only: spark_at_def three part'_def f_upto_def snd_conv)
qed

end
