(* ===== verification/Monitor.thy ===== *)
theory Monitor
  imports Poll
begin

text \<open>
  The monitored host, end to end: from the programs a host runs to the snapshot an interface reads.
  A reference without any wire (what a host answers, what a refresh of it shows) and the proof that
  the whole path (script, shell, framing, deadlines, detection, collectors, rates, store, poll loop,
  view) computes it.
\<close>

section \<open>The reference\<close>

text \<open>A host is what its programs print and exit with; its answers to a set of requests.\<close>

type_synonym host = "string list \<Rightarrow> string \<times> nat"

definition answer_of :: "host \<Rightarrow> request \<Rightarrow> response" where
  "answer_of run r =
     \<lparr>exit_code = word_of_nat (snd (run (argv_of r))), rs_body = fst (run (argv_of r))\<rparr>"

definition host_answers :: "host \<Rightarrow> request list \<Rightarrow> responses" where
  "host_answers run rs = map (\<lambda>r. (request_id r, answer_of run r)) (first_by_id {} rs)"

text \<open>A connected runtime after detection, and a refresh, as a function of the host alone.\<close>

definition one_more_trip :: "ssh_session \<Rightarrow> ssh_session" where
  "one_more_trip s = s\<lparr>ss_round_trips := ss_round_trips s + 1\<rparr>"

definition meet :: "host \<Rightarrow> ssh_session \<Rightarrow> target_runtime \<Rightarrow> target_runtime" where
  "meet run s r =
     come_online (one_more_trip s) (host_answers run probe_requests) (r\<lparr>tr_state := target_state.Connecting\<rparr>)"

definition observe :: "host \<Rightarrow> i64 \<Rightarrow> target_runtime \<Rightarrow> target_runtime \<times> tick" where
  "observe run now r =
     (let ctx = the (tr_ctx r); rs = planned_requests r;
          (c, t) = collect ctx (host_answers run rs) now (tr_collector r)
      in (r\<lparr>tr_session := (if rs = [] then tr_session r else map_option one_more_trip (tr_session r)),
            tr_collector := c,
            tr_store := store_tick (tk_entities t) (tk_descriptors t) (tk_samples t)
              (ent_id (ctx_host ctx)) (tr_store r)\<rparr>, t))"

section \<open>The wire is invisible\<close>

text \<open>
  A link that talks to a host: no program of the host prints the connection's nonce at the start of
  a line, and what arrives is what the shell prints when it is given the batch's script, after
  anything the login printed, in any pieces.
\<close>

definition talks :: "host \<Rightarrow> framing \<Rightarrow> request list \<Rightarrow> link \<Rightarrow> bool" where
  "talks run f rs lk \<longleftrightarrow>
     (\<forall>argv. snd (run argv) < 256 \<and> Frame.quiet f (fst (run argv)))
     \<and> (\<exists>junk out. Frame.quiet f junk \<and> sh_run run (fst (encode f rs)) = Some out \<and> delivers lk f (junk @ out))"

lemma host_answers_own:
  assumes "r \<in> set (first_by_id {} rs)"
  shows "hm_get (host_answers run rs) (request_id r) = Some (answer_of run r)"
  using assms first_by_id_distinct [of "{}" rs]
  by (auto simp: host_answers_def comp_def intro!: map_of_is_SomeI)

lemma decoded_answers:
  assumes "nonce_ok f" "format_ok f" "Frame.quiet f junk"
    and "\<forall>argv. snd (run argv) < 256 \<and> Frame.quiet f (fst (run argv))"
    and "sh_run run (fst (encode f rs)) = Some out"
  shows "hm_get (decode f (junk @ out)) = hm_get (host_answers run rs)"
proof
  fix rid
  let ?rs = "first_by_id {} rs"
  from batch_runs [OF assms(1-4), of rs] assms(5)
  have each: "\<forall>r \<in> set ?rs. hm_get (decode f (junk @ out)) (request_id r) = Some (answer_of run r)"
    and ids: "hm_keys (decode f (junk @ out)) = request_id ` set ?rs"
    by (auto simp: list_all_iff answer_of_def encode_def encode_loop_eq)
  show "hm_get (decode f (junk @ out)) rid = hm_get (host_answers run rs) rid"
  proof (cases "rid \<in> request_id ` set ?rs")
    case True
    then show ?thesis using each host_answers_own [of _ rs run] by auto
  next
    case False
    then have "hm_get (decode f (junk @ out)) rid = None" using ids by (simp add: map_of_eq_None_iff)
    moreover have "hm_get (host_answers run rs) rid = None"
      using False by (simp add: host_answers_def map_of_eq_None_iff image_image)
    ultimately show ?thesis by simp
  qed
qed

lemma talks_batch:
  assumes "nonce_ok (ss_framing s)" "format_ok (ss_framing s)" "talks run (ss_framing s) rs lk"
    and "first_by_id {} rs \<noteq> []"
  shows "\<exists>rsp. session_batch lk rs s = (one_more_trip s, Inr rsp) \<and> hm_get rsp = hm_get (host_answers run rs)"
proof -
  from assms(3) obtain junk out where l: "Frame.quiet (ss_framing s) junk"
    "sh_run run (fst (encode (ss_framing s) rs)) = Some out" "delivers lk (ss_framing s) (junk @ out)"
    and h: "\<forall>argv. snd (run argv) < 256 \<and> Frame.quiet (ss_framing s) (fst (run argv))"
    unfolding talks_def by blast
  have "snd (encode (ss_framing s) rs) \<noteq> []" using assms(4) by (simp add: encode_def encode_loop_eq)
  from session_batch_delivers [OF l(3) this] decoded_answers [OF assms(1,2) l(1) h l(2)]
  show ?thesis by (simp add: one_more_trip_def)
qed

text \<open>Detection and the collectors read answers by the id of the request only.\<close>

lemma probe_parse_cong: "hm_get a = hm_get b \<Longrightarrow> probe_parse a = probe_parse b"
proof -
  assume "hm_get a = hm_get b"
  then have "responses_text a = responses_text b" by (simp add: fun_eq_iff responses_text_def responses_get_def)
  then show ?thesis unfolding probe_parse_def probe_line_def by simp
qed

lemma come_online_cong: "hm_get a = hm_get b \<Longrightarrow> come_online s a r = come_online s b r"
  by (simp add: come_online_def probe_parse_cong [of a b])

lemma probe_planned: "first_by_id {} probe_requests \<noteq> []"
  using batch_ids.covered [of kernel_request probe_requests "{}"]
  by (auto simp: probe_requests_def kernel_request_def)

lemma connect_meets:
  assumes "session_connect env (tr_spec r) = Inr s" "nonce_ok (ss_framing s)" "format_ok (ss_framing s)"
    and "talks run (ss_framing s) probe_requests lk"
  shows "rt_connect env lk r = (meet run s r, Inr ())"
proof -
  obtain rsp where "session_batch lk probe_requests s = (one_more_trip s, Inr rsp)"
    and same: "hm_get rsp = hm_get (host_answers run probe_requests)"
    using talks_batch [OF assms(2-4) probe_planned] by blast
  then show ?thesis
    using assms(1) come_online_cong [OF same] by (simp add: rt_connect_def Let_def meet_def)
qed

section \<open>Refreshes\<close>

lemma builtin_served:
  assumes "co_sources c = builtin_sources" "requests c ctx \<noteq> []"
  shows "first_by_id {} (requests c ctx) \<noteq> []"
proof -
  obtain q where q: "q \<in> set (requests c ctx)" using assms(2) by (meson last_in_set)
  then have "command_for q \<noteq> None"
    using builtin.all_remote [OF assms(1) q] by (simp add: command_for_None)
  from batch_ids.covered [OF q this, of "{}"] show ?thesis by auto
qed

text \<open>
  What a refresh needs of a runtime: a session whose framing is usable, a detected host, and the
  built-in collectors. A refresh keeps it, and plans the same requests again.
\<close>

definition watched :: "framing \<Rightarrow> target_runtime \<Rightarrow> bool" where
  "watched f r \<longleftrightarrow> pred_option (\<lambda>s. ss_framing s = f) (tr_session r) \<and> tr_session r \<noteq> None
     \<and> tr_ctx r \<noteq> None \<and> co_sources (tr_collector r) = builtin_sources
     \<and> tr_state r = target_state.Online"

lemma collect_plans:
  "requests (fst (collect ctx responses now c)) ctx' = requests c ctx'"
  "co_sources (fst (collect ctx responses now c)) = co_sources c"
  by (simp_all add: collect_def Let_def split_beta requests_def applicable_def is_enabled_def)

lemma watched_observe:
  "watched f r \<Longrightarrow> watched f (fst (observe run now r)) \<and> planned_requests (fst (observe run now r)) = planned_requests r"
  by (auto simp: watched_def observe_def Let_def split_beta collect_plans planned_requests_def
      one_more_trip_def split: option.splits)

lemma watched_meet:
  assumes "ss_framing s = f" "co_sources (tr_collector r) = builtin_sources"
  shows "watched f (meet run s r)"
  using assms by (simp add: watched_def meet_def come_online_def Let_def one_more_trip_def reset_rates_def)

lemma tick_observes:
  assumes "watched f r" "nonce_ok f" "format_ok f" "talks run f (planned_requests r) lk"
  shows "rt_tick lk now r = (fst (observe run now r), Inr (snd (observe run now r)))"
proof -
  obtain s ctx where s: "tr_session r = Some s" "ss_framing s = f" "tr_ctx r = Some ctx"
    and co: "co_sources (tr_collector r) = builtin_sources"
    using assms(1) by (auto simp: watched_def)
  let ?rs = "requests (tr_collector r) ctx"
  have plan: "planned_requests r = ?rs" using s(3) by (simp add: planned_requests_def)
  show ?thesis
  proof (cases "?rs = []")
    case True
    then show ?thesis
      by (simp add: rt_tick_def observe_def plan s Let_def split_beta host_answers_def)
  next
    case False
    have "talks run (ss_framing s) ?rs lk" using assms(4) plan s(2) by simp
    from talks_batch [OF _ _ this builtin_served [OF co False]] assms(2,3) s(2)
    obtain rsp where b: "session_batch lk ?rs s = (one_more_trip s, Inr rsp)"
      "hm_get rsp = hm_get (host_answers run ?rs)" by auto
    have "collect ctx rsp now (tr_collector r) = collect ctx (host_answers run ?rs) now (tr_collector r)"
      by (rule builtin.tick_local [OF co]) (simp add: responses_get_def b(2))
    then show ?thesis
      using False b(1) by (simp add: rt_tick_def observe_def plan s Let_def split_beta)
  qed
qed

section \<open>What is on screen\<close>

text \<open>One refresh of the loop: what the host was like, and when, and the link it was asked over.\<close>

record refresh_round =
  rd_host :: host
  rd_link :: link
  rd_now :: i64
  rd_elapsed :: u64
  rd_at :: i64

definition round_tick :: "refresh_round \<Rightarrow> poll_input" where
  "round_tick rd = Tick (rd_link rd) (rd_now rd) (rd_elapsed rd) (rd_at rd)"

definition watch :: "refresh_round list \<Rightarrow> target_runtime \<Rightarrow> target_runtime" where
  "watch = fold (\<lambda>rd r. fst (observe (rd_host rd) (rd_now rd) r))"

definition screen :: "string \<Rightarrow> refresh_round \<Rightarrow> target_runtime \<Rightarrow> target_snapshot" where
  "screen tid rd r =
     (let (r', t) = observe (rd_host rd) (rd_now rd) r in build_snapshot tid r' t (rd_at rd))"

lemma watch_simps [simp]:
  "watch [] r = r" "watch (rd # rds) r = watch rds (fst (observe (rd_host rd) (rd_now rd) r))"
  by (simp_all add: watch_def)

lemma watched_watch:
  "watched f r \<Longrightarrow> watched f (watch rds r) \<and> planned_requests (watch rds r) = planned_requests r"
  by (induction rds arbitrary: r) (simp_all add: watched_observe)

lemma round_step:
  assumes "watched f (pl_runtime p)" "nonce_ok f" "format_ok f"
    and "talks (rd_host rd) f (planned_requests (pl_runtime p)) (rd_link rd)" "pl_phase p = Refreshing"
  shows "poll_step (round_tick rd) tg p =
    (if pl_published_first p then publish_snapshot (pl_generation p) (screen (tg_id tg) rd (pl_runtime p)) tg
     else publish (pl_generation p) Online tg,
     p\<lparr>pl_runtime := watch [rd] (pl_runtime p), pl_published_first := True,
       pl_phase := Gap (sat_sub (poll_interval (tg_config tg)) (rd_elapsed rd))\<rparr>)"
  using assms(5)
  by (simp add: round_tick_def poll_tick_def tick_observes [OF assms(1-4)] screen_def split_beta)

lemma rounds_run:
  assumes "watched f (pl_runtime p)" "nonce_ok f" "format_ok f" "pl_phase p = Refreshing"
    and "list_all (\<lambda>rd. talks (rd_host rd) f (planned_requests (pl_runtime p)) (rd_link rd)) rds"
  shows "case poll_run (concat (map (\<lambda>rd. [round_tick rd, Proceed]) rds)) (tg, p) of (tg', p') \<Rightarrow>
    pl_runtime p' = watch rds (pl_runtime p) \<and> pl_phase p' = Refreshing
    \<and> pl_published_first p' = (pl_published_first p \<or> rds \<noteq> []) \<and> pl_generation p' = pl_generation p
    \<and> tg_generation tg' = tg_generation tg \<and> tg_id tg' = tg_id tg \<and> tg_config tg' = tg_config tg"
  using assms
proof (induction rds arbitrary: tg p)
  case (Cons rd rds)
  let ?p = "p\<lparr>pl_runtime := watch [rd] (pl_runtime p), pl_published_first := True, pl_phase := Refreshing\<rparr>"
  have t: "talks (rd_host rd) f (planned_requests (pl_runtime p)) (rd_link rd)" using Cons.prems(5) by simp
  obtain tg' where step: "poll_run [round_tick rd, Proceed] (tg, p) = (tg', ?p)"
    "tg_generation tg' = tg_generation tg" "tg_id tg' = tg_id tg" "tg_config tg' = tg_config tg"
    by (simp add: round_step [OF Cons.prems(1-3) t Cons.prems(4)] poll_proceed_def)
  note w = watched_observe [OF Cons.prems(1), of "rd_host rd" "rd_now rd"]
  have all: "poll_run (concat (map (\<lambda>rd. [round_tick rd, Proceed]) (rd # rds))) (tg, p) =
      poll_run (concat (map (\<lambda>rd. [round_tick rd, Proceed]) rds)) (tg', ?p)"
    unfolding list.map concat.simps poll_run_simps(3) step(1) ..
  show ?case unfolding all
    using Cons.IH [of ?p tg'] Cons.prems(2,3,5) w step(2-4) by (simp add: split_beta)
qed simp

lemma screen_run:
  assumes "session_connect env (connection_spec_of (tg_config tg)) = Inr s"
    and "talks run (ss_framing s) probe_requests lk"
    and "rounds \<noteq> []"
    and "list_all (\<lambda>rd. talks (rd_host rd) (ss_framing s) (planned_requests (meet run s (poll_runtime tg))) (rd_link rd))
      (rounds @ [final])"
  shows "case poll_run ([Proceed, Dial env lk] @ concat (map (\<lambda>rd. [round_tick rd, Proceed]) rounds) @ [round_tick final])
      (tg, poll_new (tg_generation tg) tg) of (tg', p') \<Rightarrow>
    sn_state (tg_snapshot tg') = Online
    \<and> tg_snapshot tg' = screen (tg_id tg) final (watch rounds (meet run s (poll_runtime tg)))"
proof -
  let ?f = "ss_framing s" and ?r = "meet run s (poll_runtime tg)"
  have f: "nonce_ok ?f" "format_ok ?f"
    using assms(1) generate_nonce_ok
    by (auto simp: session_connect_def Let_def split: if_splits option.splits prod.splits sum.splits)
  have spec: "session_connect env (tr_spec (poll_runtime tg)) = Inr s"
    using assms(1) by (simp add: poll_runtime_def runtime_new_def)
  have w: "watched ?f ?r"
    by (rule watched_meet [OF refl]) (simp add: poll_runtime_def runtime_new_def default_sources_def)
  define p1 where "p1 = (poll_new (tg_generation tg) tg)\<lparr>pl_runtime := ?r, pl_attempt := 0,
    pl_published_first := False, pl_phase := Refreshing\<rparr>"
  define tg1 where "tg1 = publish (tg_generation tg) Connecting tg"
  have tg1: "poll_runtime tg1 = poll_runtime tg" "tg_generation tg1 = tg_generation tg" "tg_id tg1 = tg_id tg"
    by (simp_all add: tg1_def poll_runtime_def)
  have start: "poll_run [Proceed, Dial env lk] (tg, poll_new (tg_generation tg) tg) = (tg1, p1)"
    by (simp add: poll_proceed_def poll_new_def poll_dial_def connect_meets [OF spec f assms(2)] p1_def tg1_def)
  have p1: "watched ?f (pl_runtime p1)" "pl_phase p1 = Refreshing" "pl_runtime p1 = ?r"
    "pl_generation p1 = tg_generation tg"
    using w by (simp_all add: p1_def poll_new_def)
  have rounds: "list_all (\<lambda>rd. talks (rd_host rd) ?f (planned_requests (pl_runtime p1)) (rd_link rd)) rounds"
    and final: "talks (rd_host final) ?f (planned_requests (pl_runtime p1)) (rd_link final)"
    using assms(4) p1(3) by simp_all
  obtain tg2 p2 where run: "poll_run (concat (map (\<lambda>rd. [round_tick rd, Proceed]) rounds)) (tg1, p1) = (tg2, p2)"
    by fastforce
  from rounds_run [OF p1(1) f p1(2) rounds, of tg1]
  have p2: "pl_runtime p2 = watch rounds ?r" "pl_phase p2 = Refreshing" "pl_published_first p2"
    "pl_generation p2 = tg_generation tg" "tg_generation tg2 = tg_generation tg" "tg_id tg2 = tg_id tg"
    using p1(3,4) tg1 assms(3) by (simp_all add: run)
  have w2: "watched ?f (pl_runtime p2)" "planned_requests (pl_runtime p2) = planned_requests ?r"
    using watched_watch [OF w, of rounds] by (simp_all add: p2(1))
  have last: "talks (rd_host final) ?f (planned_requests (pl_runtime p2)) (rd_link final)"
    using final w2(2) p1(3) by simp
  have "watched ?f (fst (observe (rd_host final) (rd_now final) (watch rounds ?r)))"
    using watched_observe w2(1) p2(1) by simp
  then have "sn_state (screen (tg_id tg) final (watch rounds ?r)) = Online"
    by (simp add: screen_def split_beta build_snapshot_def Let_def watched_def split: option.split)
  then show ?thesis
    using start run p2(1,4-6)
    by (simp add: poll_run_def split_beta round_step [OF w2(1) f last p2(2)] p2(3) publish_snapshot_def)
qed

text \<open>
  C1: what is on screen is what the host is: a fresh poll loop that connects and then refreshes any
  number of times, over links that deliver in whatever pieces what the host's shell prints when it
  is given each script, publishes exactly the view of the reference, in which there is no wire, no
  script and no decoding: detection of the host's own answers, then for each refresh what the
  collectors make of the answers of the host as it is at that moment, with the rates between them.
  The host may be a different one at every refresh, and its files and programs may hold anything
  but the nonce.
\<close>

theorem screen_shows_the_host:
  assumes "session_connect env (connection_spec_of (tg_config tg)) = Inr s"
    and "talks run (ss_framing s) probe_requests lk"
    and "rounds \<noteq> []"
    and "list_all (\<lambda>rd. talks (rd_host rd) (ss_framing s) (planned_requests (meet run s (poll_runtime tg))) (rd_link rd))
      (rounds @ [final])"
  shows "case poll_run ([Proceed, Dial env lk] @ concat (map (\<lambda>rd. [round_tick rd, Proceed]) rounds) @ [round_tick final])
      (tg, poll_new (tg_generation tg) tg) of (tg', p') \<Rightarrow>
    sn_state (tg_snapshot tg') = Online
    \<and> tg_snapshot tg' = screen (tg_id tg) final (watch rounds (meet run s (poll_runtime tg)))"
  by (rule screen_run [OF assms])

section \<open>A named host on screen\<close>

definition one_piece :: "host \<Rightarrow> framing \<Rightarrow> request list \<Rightarrow> link" where
  "one_piece run f rs =
     \<lparr>lk_lossy = id, lk_write = Written,
      lk_events = [Msg (Data (emit f (map (host_frame run) (first_by_id {} rs))))]\<rparr>"

lemma talks_one_piece:
  assumes "format_ok f" "\<forall>argv. snd (run argv) < 256 \<and> Frame.quiet f (fst (run argv))"
    and "length (emit f (map (host_frame run) (first_by_id {} rs))) \<le> max_batch_bytes"
  shows "talks run f rs (one_piece run f rs)"
proof -
  let ?out = "emit f (map (host_frame run) (first_by_id {} rs))"
  have "sh_run run (fst (encode f rs)) = Some ?out" using assms(1,2) by (intro sh_run_encode) auto
  moreover have "sublist (terminator f) ?out" by (simp add: emit_def)
  then have "delivers (one_piece run f rs) f ([] @ ?out)"
    using assms(3) by (auto simp: delivers_def one_piece_def terminator_def intro!: exI [of _ "[?out]"])
  moreover have "Frame.quiet f []" by (simp add: quiet_def contains_def)
  ultimately show ?thesis using assms(2) unfolding talks_def by blast
qed

lemma emit_short:
  assumes "\<And>r. length (emit_frame f (host_frame run r)) \<le> b"
  shows "length (emit f (map (host_frame run) rs)) \<le> b * length rs + length (terminator f)"
proof -
  have "length (concat (map (emit_frame f) (map (host_frame run) rs))) \<le> b * length rs"
    using assms by (induction rs) (simp_all add: add_mono)
  then show ?thesis by (simp add: emit_def)
qed

lemma first_by_id_length: "length (first_by_id seen rs) \<le> length rs"
  by (induction rs arbitrary: seen) (auto simp: le_SucI)

lemma context_kept:
  "tr_ctx (fst (observe run now r)) = tr_ctx r" "tr_ctx (watch rds r) = tr_ctx r"
proof -
  show one: "tr_ctx (fst (observe run now r)) = tr_ctx r" for run now r
    by (simp add: observe_def Let_def split_beta)
  show "tr_ctx (watch rds r) = tr_ctx r" by (induction rds arbitrary: r) (simp_all add: one)
qed

lemma screen_name:
  "tr_ctx r = Some ctx \<Longrightarrow> sn_display_name (screen tid rd r) = ent_display (ctx_host ctx)"
  by (simp add: screen_def split_beta build_snapshot_def Let_def host_entity_def context_kept)

definition named_host :: host where
  "named_host argv = (if argv = [''uname'', ''-n''] then (''web1'' @ [nl], 0) else ([], 127))"

text \<open>A host whose programs print at most one short line each, over a link that delivers in one piece.\<close>

definition terse :: "host \<Rightarrow> bool" where
  "terse run \<longleftrightarrow> (\<forall>argv. snd (run argv) \<in> {0, 127} \<and> length (fst (run argv)) \<le> 100
     \<and> (fst (run argv) = [] \<or> (\<exists>u. fst (run argv) = u @ [nl] \<and> nl \<notin> set u)))"

lemma terse_quiet:
  assumes "terse run" "nonce f \<noteq> []"
  shows "Frame.quiet f (fst (run argv))"
proof -
  have "\<not> sublist (nl # nonce f) (u @ [nl])" if u: "nl \<notin> set u" for u
  proof
    assume "sublist (nl # nonce f) (u @ [nl])"
    then obtain p q where eq: "u @ [nl] = p @ (nl # nonce f) @ q" by (auto simp: sublist_def)
    then have "butlast (u @ [nl]) = butlast (p @ (nl # nonce f) @ q)" by simp
    then have "u = p @ nl # butlast (nonce f @ q)" using assms(2) by (simp add: butlast_append)
    then show False using u by simp
  qed
  moreover have "\<not> sublist (nl # nonce f) []" by simp
  ultimately show ?thesis using assms(1) unfolding terse_def quiet_def contains_sublist by metis
qed

lemma terse_frame:
  assumes "terse run"
  shows "length (emit_frame f (host_frame run r)) \<le> 2 * length (nonce f) + 160"
proof -
  have "length (show_int (sint (word_of_nat (snd (run (argv_of r))) :: i32))) \<le> 3"
  proof -
    have "length (show_int (sint (word_of_nat 0 :: i32))) \<le> 3" "length (show_int (sint (word_of_nat 127 :: i32))) \<le> 3"
      by (simp_all add: show_int_def show_nat.simps)
    moreover have "snd (run (argv_of r)) = 0 \<or> snd (run (argv_of r)) = 127"
      using assms unfolding terse_def by blast
    ultimately show ?thesis by (elim disjE) (simp_all only:)
  qed
  moreover have "length (fst (run (argv_of r))) \<le> 100" using assms by (simp add: terse_def)
  ultimately show ?thesis
    by (simp add: emit_frame_def host_frame_def frame_begin_def end_prefix_def request_id_def length_hex16)
qed

lemma demo_session:
  assumes "terse run"
  obtains s where "session_connect demo_env (connection_spec_of (tg_config demo_target)) = Inr s"
    and "\<And>rs. length rs \<le> 17 \<Longrightarrow> talks run (ss_framing s) rs (one_piece run (ss_framing s) rs)"
proof -
  obtain s where s: "session_connect demo_env (connection_spec_of (tg_config demo_target)) = Inr s"
    "length (nonce (ss_framing s)) \<le> 100" "0 < length (nonce (ss_framing s))"
    by (simp add: session_connect_def demo_env_def demo_server_def check_server_key_def
        demo_target_def connection_spec_of_def auth_of_def policy_of_def nonempty_def
        or_empty_def connection_spec_new_def authenticate_def judge_def
        generate_nonce_def framing_new_def length_hex16)
  let ?f = "ss_framing s"
  have f: "format_ok ?f"
    using s(1) generate_nonce_ok
    by (auto simp: session_connect_def Let_def split: if_splits option.splits prod.splits sum.splits)
  have "nonce ?f \<noteq> []" using s(3) by simp
  moreover have "snd (run argv) < 256" for argv
    using assms [unfolded terse_def, rule_format, of argv] by auto
  ultimately have host: "\<forall>argv. snd (run argv) < 256 \<and> Frame.quiet ?f (fst (run argv))"
    using terse_quiet [OF assms] by simp
  have "talks run ?f rs (one_piece run ?f rs)" if "length rs \<le> 17" for rs
  proof (rule talks_one_piece [OF f host])
    have "length (emit ?f (map (host_frame run) (first_by_id {} rs)))
        \<le> (2 * length (nonce ?f) + 160) * length (first_by_id {} rs) + length (terminator ?f)"
      by (rule emit_short [OF terse_frame [OF assms]])
    also have "\<dots> \<le> 360 * 17 + 103"
      using s(2) that first_by_id_length [of "{}" rs] by (intro add_mono mult_mono) (simp_all add: terminator_def)
    also have "\<dots> \<le> max_batch_bytes" by (simp add: max_batch_bytes_def)
    finally show "length (emit ?f (map (host_frame run) (first_by_id {} rs))) \<le> max_batch_bytes" .
  qed
  then show ?thesis using that s(1) by blast
qed

lemma planned_at_most: "length (planned_requests (meet run s (poll_runtime tg))) \<le> 17"
proof -
  have w: "watched (ss_framing s) (meet run s (poll_runtime tg))"
    by (rule watched_meet [OF refl]) (simp add: poll_runtime_def runtime_new_def default_sources_def)
  obtain ctx where "tr_ctx (meet run s (poll_runtime tg)) = Some ctx"
    by (simp add: meet_def come_online_def Let_def)
  with w show ?thesis using requests_at_most by (simp add: planned_requests_def watched_def)
qed

lemma terse_named: "terse named_host"
proof -
  have "nl \<notin> set ''web1''" by simp
  then show ?thesis by (auto simp: terse_def named_host_def intro!: exI [of _ "''web1''"])
qed

lemma trim_web1: "trim [CHR ''w'', CHR ''e'', CHR ''b'', CHR ''1'', nl] = ''web1''"
  by code_simp

text \<open>What the host's own probe said is read back request by request.\<close>

lemma probe_answered:
  assumes "q \<in> set probe_requests" "run (argv_of q) = (body, 0)"
  shows "responses_text (host_answers run probe_requests) q = Some body"
proof -
  have all: "first_by_id {} probe_requests = probe_requests"
    by (rule first_by_id_all [OF _ probe_ids_distinct]) (simp_all add: probe_requests_def kernel_request_def
        arch_request_def hostname_request_def os_release_request_def clock_ticks_request_def page_size_request_def
        stat_request_def coreutils_request_def binaries_request_def paths_request_def)
  have "hm_get (host_answers run probe_requests) (request_id q) = Some (answer_of run q)"
    using assms(1) by (intro host_answers_own) (simp add: all)
  then show ?thesis
    using assms(2) by (simp add: responses_text_def responses_get_def answer_of_def is_ok_def)
qed

lemma named_host_known: "cap_hostname (probe_parse (host_answers named_host probe_requests)) = ''web1''"
proof -
  have "named_host (argv_of hostname_request) = (''web1'' @ [nl], 0)"
    by (simp add: named_host_def hostname_request_def)
  then have "responses_text (host_answers named_host probe_requests) hostname_request = Some (''web1'' @ [nl])"
    by (intro probe_answered) (simp add: probe_requests_def)
  then have "probe_line (host_answers named_host probe_requests) hostname_request = Some ''web1''"
    by (simp add: probe_line_def trim_web1)
  then show ?thesis by (simp add: probe_parse_def Let_def unwrap_or_def)
qed

theorem screen_shows_the_host_witness:
  "\<exists>lk round. rd_host round = named_host \<and>
     sn_display_name (tg_snapshot (fst (poll_run
       ([Proceed, Dial demo_env lk] @ concat (map (\<lambda>rd. [round_tick rd, Proceed]) [round, round]) @ [round_tick round])
       (demo_target, poll_new (tg_generation demo_target) demo_target)))) = ''web1''"
proof -
  obtain s where s: "session_connect demo_env (connection_spec_of (tg_config demo_target)) = Inr s"
    "\<And>rs. length rs \<le> 17 \<Longrightarrow> talks named_host (ss_framing s) rs (one_piece named_host (ss_framing s) rs)"
    using demo_session [OF terse_named] by metis
  let ?f = "ss_framing s" and ?r = "meet named_host s (poll_runtime demo_target)"
  obtain ctx where ctx: "tr_ctx ?r = Some ctx" "ent_display (ctx_host ctx) = ''web1''"
    using named_host_known
    by (simp add: meet_def come_online_def Let_def detected_host_def entity_host_def ent_with_label_def)
  define lk where "lk = one_piece named_host ?f probe_requests"
  define rd where "rd = \<lparr>rd_host = named_host, rd_link = one_piece named_host ?f (planned_requests ?r),
    rd_now = 1, rd_elapsed = 0, rd_at = 1\<rparr>"
  have rds: "list_all (\<lambda>rd. talks (rd_host rd) ?f (planned_requests ?r) (rd_link rd)) ([rd, rd] @ [rd])"
    using s(2) planned_at_most by (simp add: rd_def)
  have dial: "talks named_host ?f probe_requests lk"
    unfolding lk_def by (rule s(2)) (simp add: probe_requests_def)
  from screen_shows_the_host [OF s(1) dial _ rds] have
    "tg_snapshot (fst (poll_run ([Proceed, Dial demo_env lk] @
        concat (map (\<lambda>rd. [round_tick rd, Proceed]) [rd, rd]) @ [round_tick rd])
        (demo_target, poll_new (tg_generation demo_target) demo_target))) =
      screen (tg_id demo_target) rd (watch [rd, rd] ?r)"
    unfolding split_beta by blast
  moreover have "tr_ctx (watch [rd, rd] ?r) = Some ctx" using ctx(1) by (simp only: context_kept)
  ultimately show ?thesis
    using screen_name ctx(2) by (intro exI [of _ lk] exI [of _ rd]) (simp add: rd_def)
qed

end
