(* ===== verification/Readings.thy ===== *)
theory Readings
  imports Monitor
begin

text \<open>
  One reading from a collector to the front page: what a built-in collector writes as a gauge of the
  host, if its metric is one of the headline's, is on screen after the refresh with that value,
  whatever the other collectors write and whatever the store held before.
\<close>

section \<open>The writes of a refresh\<close>








section \<open>Through the rates and the store\<close>





section \<open>On the front page\<close>








section \<open>Each answer reaches its own reader\<close>






section \<open>From a program of the host to the front page\<close>









section \<open>A loaded host\<close>









end
