(* ===== verification/Spec2Isabelle.thy ===== *)
theory Spec2Isabelle
  imports Reply Desk_Dialogs Desk_Drawing Readings
begin

text \<open>
  ServerGlass watches Linux hosts over SSH without installing anything on them. This library
  models its Rust code: the crates under \<open>crates/\<close> and the desktop application under
  \<open>apps/linux\<close>.

  \<^bold>\<open>The program.\<close>
  A source (\<open>sg-collect\<close>) names the requests it wants (a file to read, a command to run) and turns
  the answers into metrics. The collector (\<open>sg-core\<close>) joins the requests of all sources, the
  transport (\<open>sg-transport\<close>) sends them as one shell script and reads one framed reply back, the
  collector hands each source its answers, the rate engine makes rates of counters, and the live
  store keeps a window of points. One runtime does this for one host. The interface layer (\<open>sg-ffi\<close>)
  runs a poll loop per host, publishes snapshots of readings ready to draw, and gives this to
  other languages through a C interface. Pairing (\<open>sg-sync\<close>) moves the list of hosts and the
  trusted keys between two devices. The desktop application (\<open>apps/linux\<close>) holds the inventory on
  disk, the window, its pages, the command runner and the pairing sheets.

  \<^bold>\<open>The theories, from the bottom.\<close>
  \<^item> \<open>Prelude\<close>: machine integers at their width (saturating operations on \<open>64 word\<close>), association
    lists for hash maps, the theorem collections \<open>text_simps\<close>, \<open>map_simps\<close>, \<open>sink_simps\<close>,
    \<open>float_simps\<close>, and the locale \<open>first_seen\<close>: a fold that keeps the first element of each key.
  \<^item> \<open>Rust_Text\<close>, \<open>Rust_Float\<close>: the part of Rust's standard library the source calls. A \<open>String\<close> is its
    list of UTF-8 bytes; \<open>lines\<close>, \<open>trim\<close>, \<open>split_whitespace\<close>, \<open>parse\<close> and the formatting of numbers
    are executable functions. An \<open>f64\<close> is sign, mantissa and exponent, with round to nearest even,
    so that every arithmetic result and every comparison is the one the machine computes.
  \<^item> \<open>Model\<close>, \<open>Request\<close>: \<open>sg-model\<close> (\<open>ids.rs\<close>, \<open>entity.rs\<close>, \<open>unit.rs\<close>, \<open>series.rs\<close>, \<open>sample.rs\<close>;
    \<open>request.rs\<close>, \<open>caps.rs\<close>, \<open>source.rs\<close>). A sink is a record of the lists the code pushes to; a request
    id is the 64-bit hash, computed on words.
  \<^item> \<open>Quote\<close>, \<open>Frame\<close>, \<open>Shell\<close>, \<open>Probe\<close>, \<open>Transport\<close>: \<open>sg-transport\<close> (\<open>quote.rs\<close>, \<open>frame.rs\<close>, \<open>probe.rs\<close>;
    \<open>error.rs\<close>, \<open>auth.rs\<close>, \<open>session.rs\<close>). \<open>Shell\<close> is the other end: what a POSIX shell does with the
    script, so that the round trip is proved against a host and not against the decoder alone.
  \<^item> \<open>Rate\<close>, \<open>Store\<close>, \<open>Collector\<close>, \<open>Runtime\<close>: \<open>sg-core\<close> (\<open>rate.rs\<close>, \<open>store.rs\<close>, \<open>collector.rs\<close>;
    \<open>runtime.rs\<close>, \<open>event.rs\<close>). Each operation takes the state and returns it updated, with a sum where
    the code returns a \<open>Result\<close>. \<open>runtime_reachable\<close> is the inductive relation of the states a runtime
    gets into.
  \<^item> \<open>Emission\<close> and \<open>Load\<close>, \<open>Memory\<close>, \<open>Tcp\<close>, \<open>Pressure\<close>, \<open>Cpu\<close>, \<open>Filesystem\<close>, \<open>Network\<close>, \<open>Disk_Io\<close>, \<open>Tasks\<close>,
    \<open>Cgroup\<close>, \<open>Sensors\<close>, \<open>Builtin\<close>: \<open>sg-collect\<close>, one theory per collector (\<open>process.rs\<close> is \<open>Tasks\<close>). What a
    collector writes to the sink is a list of operations, in the order of the code's calls.
  \<^item> \<open>View\<close>, \<open>Plain\<close>, \<open>Snapshot\<close>, \<open>Poll\<close>, \<open>Pair_Api\<close>, \<open>Cabi\<close>, \<open>Reply\<close>: \<open>sg-ffi\<close> (\<open>view.rs\<close>, \<open>plain.rs\<close>,
    \<open>lib.rs\<close>, \<open>sync.rs\<close>, \<open>cabi.rs\<close>; \<open>Reply\<close> is the envelope of the C interface's replies and what it
    makes of a panic). A poll loop is a state machine that moves beside its callers: a state of the
    system holds the targets and the loops, an input says which loop moves and what the network did.
  \<^item> \<open>Merge\<close>, \<open>Pairing\<close>: \<open>sg-sync\<close> (\<open>payload.rs\<close>, \<open>merge.rs\<close>; \<open>pairing.rs\<close>, \<open>transfer.rs\<close>).
  \<^item> \<open>Inventory\<close>, \<open>Desk_Pairing\<close>, \<open>Desk_Views\<close>, \<open>Desk_Drawing\<close>, \<open>Desktop\<close>, \<open>Desk_Dialogs\<close>: \<open>apps/linux\<close>
    (\<open>store.rs\<close>, \<open>engine.rs\<close>; \<open>pairing.rs\<close>; \<open>palette.rs\<close>, \<open>widgets.rs\<close>, \<open>views.rs\<close>; the drawing in \<open>widgets.rs\<close>
    and \<open>pairing.rs\<close>; \<open>window.rs\<close>, \<open>command.rs\<close>, \<open>dialogs.rs\<close>; the questions asked). A widget is the texts
    and numbers it shows, a drawing is the list of calls made to the drawing library. \<open>window_run\<close> is
    the inductive relation of the states of the window.
  \<^item> \<open>Monitor\<close>, \<open>Readings\<close>: the parts together. \<open>Monitor\<close> states a reference that has no wire (\<open>meet\<close>, \<open>observe\<close>,
    \<open>watch\<close>, \<open>screen\<close>: a host is a function from arguments to output, and answers are looked up in it) and
    proves that connecting and refreshing through script, shell, framing, transport, runtime and poll
    loop publishes that view. \<open>Readings\<close> follows one number from the program that prints it to the
    front page, past all other collectors, the rate engine and the store.

  \<^bold>\<open>The interfaces.\<close>
  \<^item> \<open>first_seen\<close> (\<open>Prelude\<close>) is interpreted on the requests of a batch (\<open>Frame\<close>), on the requests of all
    sources (\<open>Collector\<close>), on the hosts and on the pins of a transfer (\<open>Merge\<close>): distinct keys, order of
    first appearance, nothing lost.
  \<^item> \<open>sound_source\<close> and \<open>sound_sources\<close> (\<open>Collector\<close>) are what the collector needs of a source: it reads
    only its own answers and writes only described, distinct series. They are interpreted on the
    built-in set (\<open>Builtin\<close>).
  \<^item> \<open>emitting_source\<close> (\<open>Emission\<close>) is a source that is a list of sink operations. It is a sublocale of
    \<open>sound_source\<close> and is interpreted in the theory of each of the eleven collectors.

  \<^bold>\<open>What is proved.\<close>
  The whole: the screen shows the host, and a reading shows the number its program printed. The
  wire: words quoted by the code are the words the shell sees; a batch run by a shell decodes to
  what each request printed; a reply is found exactly when it is complete, within its bound and its
  deadline; host keys and authentication fail closed. The core: rates, the store's bounds and
  contents, the isolation of failing sources, the invariant of a runtime and its refinement of an
  abstract life cycle. The collectors: every refresh is well typed, no two collectors write one
  series, a refresh is one round trip, and the figures of single collectors are right. The
  interface: snapshots agree with themselves, a stopped target stays stopped, transient failures are
  retried by the backoff ladder and hopeless ones end the loop, a page shows every reading once.
  Pairing: both devices agree on a code, a transfer needs both confirmations, moves at most one
  bundle and never replaces a host or a key already held. The desktop: the inventory survives every
  failed save, hosts, rows, targets and connections stay in step, and a page updated in place is
  the page built anew.

  \<^bold>\<open>Parameters, bounds and fuel.\<close>
  Code outside the repository is an argument: X25519, HKDF, ChaCha20-Poly1305 and Base64 (with their
  documented laws as hypotheses, and toy ciphers as witnesses that the laws can hold), the JSON
  libraries (that what was written reads back), GLib's markup escape, \<open>String::from_utf8_lossy\<close>, the
  SSH library, sockets, random bytes, clocks and the file system, whose outcomes an operation is
  given. Case folding is modelled for ASCII letters, which is what the code compares with.
  Every loop is a recursion that is proved to end. The one count that stands for a loop bound is the
  code's own: \<open>scale_down\<close> takes as many steps as there are unit prefixes left. The loops over network inputs (a reply, a poll loop, the window) consume a list of inputs,
  one per step, so that a run is as long as the inputs that drive it. Counters are \<open>64 word\<close>
  and wrap or saturate as the code says; where a counter of the program itself (ids, generations,
  attempts) is a \<open>u64\<close>, a theorem that needs it not to have wrapped says so.

  \<^bold>\<open>Not modelled.\<close>
  How the toolkit lays out and how the drawing library rasters what it is told, the making of a QR
  code from its text, the file chooser (\<open>apps/linux\<close>); the text the JSON library writes for a reply and
  the freeing of strings of the C interface (\<open>cabi.rs\<close>); the connection to the agent and the library's
  word on whether a session is closed (\<open>session.rs\<close>), which are outcomes given to the model;
  \<open>LiveStore::history\<close>, half of a deque whose split the library leaves open; the logging; the entry
  points (\<open>main.rs\<close>, \<open>lib.rs\<close> of the application), the generator of bindings (\<open>sg-bindgen\<close>), the support
  for tests (\<open>testing.rs\<close>), and the applications in other languages, which draw what \<open>sg-ffi\<close> hands them.
\<close>

end
